(* ===== verification/Prelude.thy ===== *)
theory Prelude
  imports Main "HOL-Library.Word" "HOL-Library.Multiset"
begin

text \<open>
  The vocabulary every driver model shares: machine integers of the target (32-bit ARM, kernel
  2.6.32, so \<open>int\<close>, \<open>long\<close> and \<open>size_t\<close> have 32 bits and \<open>loff_t\<close> has 64), error codes by their
  symbolic names, the outcomes C leaves undefined, indexed access to fixed arrays, and the
  lemma collections that the component theories feed.

  A driver entry point returns \<open>Inl e\<close> where the code returns \<open>-e\<close> and \<open>Inr n\<close> where it returns
  the number \<open>n\<close>.  An operation that can do what C gives no meaning to (divide by zero, run off
  an array, follow a null pointer, release what it does not hold) or that never returns has the
  type \<open>fault + 'a\<close>, so that every such case is a value a theorem can speak of.
\<close>

unbundle bit_operations_syntax

named_theorems reg_simps \<open>reading a register after a write\<close>
named_theorems res_simps \<open>taking and giving back resources\<close>
named_theorems ret_simps \<open>results of fallible operations\<close>

type_synonym u8 = "8 word"
type_synonym u32 = "32 word"
type_synonym s32 = "32 word"   \<comment> \<open>C \<open>int\<close>: read with \<open>sint\<close>\<close>
type_synonym s64 = "64 word"   \<comment> \<open>C \<open>loff_t\<close>: read with \<open>sint\<close>\<close>

datatype errno =
    EINVAL | EBUSY | EFAULT | EAGAIN | ENOENT | ENOMEM | ENOTTY | EOPNOTSUPP | ERESTARTSYS
  | Other_errno nat

datatype fault = DivByZero | NullDeref | OutOfBounds | Blocked | BadRelease | Diverges

type_synonym 'a result = "errno + 'a"

text \<open>What a called function that reports only success or failure returned.\<close>

type_synonym outcome = "errno option"

definition failed :: "outcome \<Rightarrow> bool" where
  "failed r \<longleftrightarrow> r \<noteq> None"

definition outcome_result :: "outcome \<Rightarrow> int result" where
  "outcome_result r = (case r of None \<Rightarrow> Inr 0 | Some e \<Rightarrow> Inl e)"

lemma outcome_result_simps [simp, ret_simps]:
  "outcome_result None = Inr 0" "outcome_result (Some e) = Inl e"
  by (simp_all add: outcome_result_def)

lemma failed_simps [simp, ret_simps]: "\<not> failed None" "failed (Some e)"
  by (simp_all add: failed_def)

lemma outcome_result_Inr [ret_simps]: "outcome_result r = Inr n \<longleftrightarrow> r = None \<and> n = 0"
  by (auto simp: outcome_result_def split: option.splits)

subsection \<open>Sequencing of operations that may fault\<close>

definition seq :: "'e + 'a \<Rightarrow> ('a \<Rightarrow> 'e + 'b) \<Rightarrow> 'e + 'b" where
  "seq m f = (case m of Inl e \<Rightarrow> Inl e | Inr a \<Rightarrow> f a)"

lemma seq_simps [simp, ret_simps]: "seq (Inl e) f = Inl e" "seq (Inr a) f = f a"
  by (simp_all add: seq_def)

lemma seq_eq_Inr: "seq m f = Inr b \<longleftrightarrow> (\<exists>a. m = Inr a \<and> f a = Inr b)"
  by (cases m) auto

lemma seq_eq_Inl: "seq m f = Inl e \<longleftrightarrow> m = Inl e \<or> (\<exists>a. m = Inr a \<and> f a = Inl e)"
  by (cases m) auto

lemma seq_assoc: "seq (seq m f) g = seq m (\<lambda>a. seq (f a) g)"
  by (cases m) simp_all

subsection \<open>Fixed arrays\<close>

text \<open>\<open>a[i]\<close> on an array of known length; an index outside it is undefined in C.\<close>

definition array_get :: "'a list \<Rightarrow> nat \<Rightarrow> fault + 'a" where
  "array_get xs i = (if i < length xs then Inr (xs ! i) else Inl OutOfBounds)"

definition array_set :: "'a list \<Rightarrow> nat \<Rightarrow> 'a \<Rightarrow> fault + 'a list" where
  "array_set xs i v = (if i < length xs then Inr (xs[i := v]) else Inl OutOfBounds)"

lemma array_get_in [simp]: "i < length xs \<Longrightarrow> array_get xs i = Inr (xs ! i)"
  by (simp add: array_get_def)

lemma array_get_out [simp]: "length xs \<le> i \<Longrightarrow> array_get xs i = Inl OutOfBounds"
  by (simp add: array_get_def)

lemma array_set_in [simp]: "i < length xs \<Longrightarrow> array_set xs i v = Inr (xs[i := v])"
  by (simp add: array_set_def)

lemma array_set_out [simp]: "length xs \<le> i \<Longrightarrow> array_set xs i v = Inl OutOfBounds"
  by (simp add: array_set_def)

text \<open>Overwriting a range of a buffer: what \<open>memcpy\<close> to \<open>buf + i\<close> leaves.\<close>

definition overwrite :: "'a list \<Rightarrow> nat \<Rightarrow> 'a list \<Rightarrow> 'a list" where
  "overwrite xs i ys = take i xs @ ys @ drop (i + length ys) xs"

lemma length_overwrite [simp]: "i + length ys \<le> length xs \<Longrightarrow> length (overwrite xs i ys) = length xs"
  by (simp add: overwrite_def)

lemma overwrite_range:
  "i + length ys \<le> length xs \<Longrightarrow> take (length ys) (drop i (overwrite xs i ys)) = ys"
  by (simp add: overwrite_def)

lemma nth_overwrite:
  "i + length ys \<le> length xs \<Longrightarrow> k < length xs \<Longrightarrow>
    overwrite xs i ys ! k = (if i \<le> k \<and> k < i + length ys then ys ! (k - i) else xs ! k)"
  by (auto simp: overwrite_def nth_append)

lemma overwrite_Nil [simp]: "overwrite xs i [] = xs"
  by (simp add: overwrite_def)

lemma take_overwrite: "i \<le> length xs \<Longrightarrow> take i (overwrite xs i ys) = take i xs"
  by (simp add: overwrite_def)

subsection \<open>Masks on words\<close>

lemma and_or_absorb: "(a AND NOT b) AND b = (0 :: 'a::len word)"
  by (rule bit_word_eqI) (auto simp: bit_simps)

lemma or_and_same: "(a OR b) AND b = (b :: 'a::len word)"
  by (rule bit_word_eqI) (auto simp: bit_simps)

lemma or_and_disjoint: "b AND c = 0 \<Longrightarrow> (a OR b) AND c = a AND (c :: 'a::len word)"
  by (simp add: bit.conj_disj_distrib2)

lemma and_not_and_disjoint: "b AND c = 0 \<Longrightarrow> (a AND NOT b) AND c = a AND (c :: 'a::len word)"
  by (metis (no_types, lifting) and.assoc and.commute bit.conj_disj_distrib2
      bit.conj_one_right bit.disj_cancel_right or.commute or.right_neutral)

lemma u32_255_mask: "(255 :: u32) = mask 8"
  by (simp add: mask_eq_exp_minus_1)

lemma ucast_u8_u32_and [simp]: "(ucast (x :: u8) :: u32) AND 255 = ucast x"
  unfolding u32_255_mask by (rule bit_word_eqI) (auto simp: bit_simps dest: bit_imp_le_length)

lemma ucast_u32_u8_u32 [simp]: "(ucast (ucast (x :: u32) :: u8) :: u32) = x AND 255"
  unfolding u32_255_mask by (rule bit_word_eqI) (auto simp: bit_simps dest: bit_imp_le_length)

lemma ucast_u8_u32_u8 [simp]: "(ucast (ucast (x :: u8) :: u32) :: u8) = x"
  by (rule bit_word_eqI) (auto simp: bit_simps dest: bit_imp_le_length)

lemma ucast_u8_u32_0_iff [simp]: "(ucast (x :: u8) :: u32) = 0 \<longleftrightarrow> x = 0"
  by (metis ucast_u8_u32_u8 unsigned_0)

subsection \<open>Small values of machine integers\<close>

lemma unat_numeral_u32_4: "unat (4 :: u32) = 4"
  by simp

lemma sint_nonneg_uint:
  assumes "0 \<le> sint (x :: 'a::len word)"
  shows "uint x = sint x"
proof -
  have "sint x < 2 ^ (LENGTH('a) - 1)" by (rule sint_lt)
  also have "\<dots> \<le> (2 :: int) ^ LENGTH('a)" by (rule power_increasing) simp_all
  finally show ?thesis
    using assms by (simp add: uint_sint take_bit_int_eq_self)
qed

lemma unat_lt_u32: "unat (x :: u32) < 2 ^ 32"
proof -
  have "unat x < 2 ^ LENGTH(32)" by (rule unsigned_less)
  then show ?thesis by simp
qed

lemma sint_word_of_int_s32: "- (2 ^ 31) \<le> k \<Longrightarrow> k < 2 ^ 31 \<Longrightarrow> sint (word_of_int k :: s32) = k"
  by (subst sint_sbintrunc') (simp add: signed_take_bit_int_eq_self)

lemma sint_of_nat_s32 [simp]: "n < 2 ^ 31 \<Longrightarrow> sint (of_nat n :: s32) = int n"
  using sint_word_of_int_s32 [of "int n"] by simp

lemma s32_between: "k \<le> 2 ^ 31 \<Longrightarrow> sint (x :: s32) < int k \<and> sint x \<ge> 0 \<longleftrightarrow> unat x < k"
proof -
  assume k: "k \<le> 2 ^ 31"
  show ?thesis
  proof (cases "0 \<le> sint x")
    case True
    then have "sint x = uint x" using sint_nonneg_uint [of x] by simp
    moreover have "unat x < k \<longleftrightarrow> uint x < int k" by (simp only: unat_eq_nat_uint nat_less_iff uint_ge_0)
    ultimately show ?thesis using True by simp
  next
    case False
    have "\<not> unat x < 2 ^ 31"
      using sint_of_nat_s32 [of "unat x"] False by auto
    then show ?thesis using False k by simp
  qed
qed

lemma s32_0_or_1: "\<not> sint (x :: s32) > 1 \<Longrightarrow> \<not> sint x < 0 \<Longrightarrow> x = 0 \<or> x = 1"
proof -
  assume a: "\<not> sint x > 1" "\<not> sint x < 0"
  then have "uint x = 0 \<or> uint x = 1" using sint_nonneg_uint [of x] by linarith
  then show ?thesis by (metis uint_0_iff uint_1 word_uint_eqI)
qed

text \<open>C's signed division truncates towards zero; the remainder has the sign of the dividend.\<close>

definition c_div :: "s32 \<Rightarrow> s32 \<Rightarrow> s32" where
  "c_div a b = word_of_int (sgn (sint a) * sgn (sint b) * (\<bar>sint a\<bar> div \<bar>sint b\<bar>))"

definition c_mod :: "s32 \<Rightarrow> s32 \<Rightarrow> s32" where
  "c_mod a b = word_of_int (sgn (sint a) * (\<bar>sint a\<bar> mod \<bar>sint b\<bar>))"

lemma unat_of_nat_s32 [simp]: "n < 2 ^ 32 \<Longrightarrow> unat (of_nat n :: s32) = n"
  by (simp add: unat_of_nat take_bit_eq_mod)

lemma c_div_of_nat:
  "m < 2 ^ 31 \<Longrightarrow> n < 2 ^ 31 \<Longrightarrow> 0 < n \<Longrightarrow> c_div (of_nat m) (of_nat n) = of_nat (m div n)"
  by (cases "m = 0") (simp_all add: c_div_def zdiv_int [symmetric] sgn_if)

lemma c_mod_of_nat:
  "m < 2 ^ 31 \<Longrightarrow> n < 2 ^ 31 \<Longrightarrow> 0 < n \<Longrightarrow> c_mod (of_nat m) (of_nat n) = of_nat (m mod n)"
  by (cases "m = 0") (simp_all add: c_mod_def zmod_int [symmetric] sgn_if)

text \<open>An index held in an \<open>int\<close>, and a range of a byte buffer.\<close>

definition array_at :: "'a list \<Rightarrow> s32 \<Rightarrow> fault + 'a" where
  "array_at xs i = (if sint i < 0 then Inl OutOfBounds else array_get xs (nat (sint i)))"

definition buf_range :: "'a list \<Rightarrow> s32 \<Rightarrow> nat \<Rightarrow> fault + 'a list" where
  "buf_range buf i n =
     (if sint i < 0 \<or> length buf < nat (sint i) + n then Inl OutOfBounds
      else Inr (take n (drop (nat (sint i)) buf)))"

lemma array_at_of_nat: "i < 2 ^ 31 \<Longrightarrow> array_at xs (of_nat i) = array_get xs i"
  by (simp add: array_at_def)

lemma buf_range_of_nat:
  "i < 2 ^ 31 \<Longrightarrow> i + n \<le> length buf \<Longrightarrow> buf_range buf (of_nat i) n = Inr (take n (drop i buf))"
  by (simp add: buf_range_def)

definition buf_store :: "'a list \<Rightarrow> s32 \<Rightarrow> 'a list \<Rightarrow> fault + 'a list" where
  "buf_store buf i bs =
     (if sint i < 0 \<or> length buf < nat (sint i) + length bs then Inl OutOfBounds
      else Inr (overwrite buf (nat (sint i)) bs))"

lemma buf_store_of_nat:
  "i < 2 ^ 31 \<Longrightarrow> i + length bs \<le> length buf \<Longrightarrow>
     buf_store buf (of_nat i) bs = Inr (overwrite buf i bs)"
  by (simp add: buf_store_def)

end
