(* ===== verification/Step_Systems.thy ===== *)
theory Step_Systems
  imports Prelude
begin

text \<open>
  The interfaces that several drivers satisfy, stated once.  A driver is a state and operations;
  what a sequence of operations guarantees is proved here from what each single operation
  guarantees, and every driver theory interprets the interface on its own operations:
    \<^item> \<open>machine\<close>: operations that keep an invariant, so that every run keeps it;
    \<^item> \<open>exclusive_device\<close>: open, close and other operations of a device that one process may hold
      at a time;
    \<^item> \<open>refined_machine\<close>: operations that an abstract machine simulates, output by output.
\<close>

subsection \<open>Reachable states of a step relation\<close>

inductive reachable :: "('s \<Rightarrow> bool) \<Rightarrow> ('s \<Rightarrow> 's \<Rightarrow> bool) \<Rightarrow> 's \<Rightarrow> bool"
  for init :: "'s \<Rightarrow> bool" and step :: "'s \<Rightarrow> 's \<Rightarrow> bool" where
  reach_init: "init s \<Longrightarrow> reachable init step s"
| reach_step: "reachable init step s \<Longrightarrow> step s t \<Longrightarrow> reachable init step t"

locale step_invariant =
  fixes init :: "'s \<Rightarrow> bool" and step :: "'s \<Rightarrow> 's \<Rightarrow> bool" and inv :: "'s \<Rightarrow> bool"
  assumes inv_init: "init s \<Longrightarrow> inv s"
    and inv_step: "inv s \<Longrightarrow> step s t \<Longrightarrow> inv t"
begin

lemma inv_reachable: "reachable init step s \<Longrightarrow> inv s"
  by (induction rule: reachable.induct) (blast intro: inv_init inv_step)+

end

subsection \<open>Runs of a machine whose operations are functions\<close>

text \<open>\<open>ok\<close> restricts the operations to what the callers (the VFS, the platform) can issue.\<close>

locale machine =
  fixes step :: "'e \<Rightarrow> 's \<Rightarrow> 's" and ok :: "'e \<Rightarrow> bool" and inv :: "'s \<Rightarrow> bool"
  assumes step_inv: "inv s \<Longrightarrow> ok e \<Longrightarrow> inv (step e s)"
begin

lemma run_inv: "inv s \<Longrightarrow> list_all ok es \<Longrightarrow> inv (fold step es s)"
  by (induction es arbitrary: s) (simp_all add: step_inv)

lemma run_append_inv: "inv s \<Longrightarrow> list_all ok (es @ fs) \<Longrightarrow> inv (fold step fs (fold step es s))"
  by (simp add: run_inv)

end

sublocale machine \<subseteq> step_invariant inv "\<lambda>s t. \<exists>e. ok e \<and> t = step e s" inv
  by unfold_locales (auto intro: step_inv)

subsection \<open>Devices that one process may hold\<close>

locale exclusive_device =
  fixes busy :: "'s \<Rightarrow> bool"
    and opn :: "'s \<Rightarrow> int result \<times> 's"
    and cls :: "'s \<Rightarrow> 's"
    and other :: "'o \<Rightarrow> 's \<Rightarrow> 's"
    and inv :: "'s \<Rightarrow> bool"
  assumes open_free: "inv s \<Longrightarrow> \<not> busy s \<Longrightarrow> fst (opn s) = Inr 0 \<and> busy (snd (opn s)) \<and> inv (snd (opn s))"
    and open_busy: "inv s \<Longrightarrow> busy s \<Longrightarrow> opn s = (Inl EBUSY, s)"
    and close_frees: "inv s \<Longrightarrow> busy s \<Longrightarrow> \<not> busy (cls s) \<and> inv (cls s)"
    and other_keeps: "inv s \<Longrightarrow> busy (other x s) = busy s \<and> inv (other x s)"
begin

lemma others_keep: "inv s \<Longrightarrow> busy (fold other xs s) = busy s \<and> inv (fold other xs s)"
  by (induction xs arbitrary: s) (simp_all add: other_keeps)

lemma second_open_refused:
  "inv s \<Longrightarrow> \<not> busy s \<Longrightarrow>
     opn (fold other xs (snd (opn s))) = (Inl EBUSY, fold other xs (snd (opn s)))"
  by (simp add: open_busy others_keep open_free)

lemma open_after_close:
  "inv s \<Longrightarrow> \<not> busy s \<Longrightarrow> fst (opn (cls (fold other xs (snd (opn s))))) = Inr 0"
  by (simp add: open_free close_frees others_keep)

lemma session_keeps:
  "inv s \<Longrightarrow> \<not> busy s \<Longrightarrow>
     \<not> busy (cls (fold other xs (snd (opn s)))) \<and> inv (cls (fold other xs (snd (opn s))))"
  by (simp add: open_free close_frees others_keep)

text \<open>Any number of complete sessions, one after the other.\<close>

lemma sessions_keep:
  "inv s \<Longrightarrow> \<not> busy s \<Longrightarrow>
     \<not> busy (fold (\<lambda>xs s. cls (fold other xs (snd (opn s)))) xss s) \<and>
     inv (fold (\<lambda>xs s. cls (fold other xs (snd (opn s)))) xss s)"
  by (induction xss arbitrary: s) (simp_all add: session_keeps)

lemma open_iff_free: "inv s \<Longrightarrow> fst (opn s) = Inr 0 \<longleftrightarrow> \<not> busy s"
  using open_free[of s] open_busy[of s] by (cases "busy s") auto

end

subsection \<open>Operations that an abstract machine simulates\<close>

locale refined_machine =
  fixes step :: "'e \<Rightarrow> 's \<Rightarrow> 'r \<times> 's"
    and astep :: "'e \<Rightarrow> 'a \<Rightarrow> 'r \<times> 'a"
    and abs :: "'s \<Rightarrow> 'a"
    and ok :: "'e \<Rightarrow> bool"
    and inv :: "'s \<Rightarrow> bool"
  assumes sim_result: "inv s \<Longrightarrow> ok e \<Longrightarrow> fst (step e s) = fst (astep e (abs s))"
    and sim_state: "inv s \<Longrightarrow> ok e \<Longrightarrow> abs (snd (step e s)) = snd (astep e (abs s))"
    and sim_inv: "inv s \<Longrightarrow> ok e \<Longrightarrow> inv (snd (step e s))"

text \<open>The outputs of a run, with the final state.\<close>

fun outputs :: "('e \<Rightarrow> 's \<Rightarrow> 'r \<times> 's) \<Rightarrow> 'e list \<Rightarrow> 's \<Rightarrow> 'r list \<times> 's" where
  "outputs f [] s = ([], s)"
| "outputs f (e # es) s =
     (let (r, s') = f e s; (rs, s'') = outputs f es s' in (r # rs, s''))"

context refined_machine begin

lemma run_refines:
  "inv s \<Longrightarrow> list_all ok es \<Longrightarrow>
     fst (outputs step es s) = fst (outputs astep es (abs s)) \<and>
     abs (snd (outputs step es s)) = snd (outputs astep es (abs s)) \<and>
     inv (snd (outputs step es s))"
proof (induction es arbitrary: s)
  case Nil
  then show ?case by simp
next
  case (Cons e es)
  then have e: "inv s" "ok e" "list_all ok es" by simp_all
  note IH = Cons.IH [OF sim_inv [OF e(1,2)] e(3)]
  show ?case
    using IH sim_result [OF e(1,2)] sim_state [OF e(1,2)]
    by (simp add: Let_def case_prod_unfold)
qed

end

sublocale refined_machine \<subseteq> machine "\<lambda>e s. snd (step e s)" ok inv
  by unfold_locales (rule sim_inv)

end
