(* ===== verification/Kernel_Api.thy ===== *)
theory Kernel_Api
  imports Step_Systems
begin

text \<open>
  What the drivers use of the kernel's services, in the form the drivers see it: mapped device
  registers, GPIO pins, counting semaphores, copies between kernel and user memory, and the
  ledger of resources a module holds.  Whether a call succeeds (a memory region is free, a user
  page is mapped, an interrupt line can be had) is not decided here: it is an argument of the
  operations that make the call.
\<close>

subsection \<open>Mapped device registers\<close>

text \<open>
  A register bank maps register names to contents.  \<open>readl\<close>/\<open>writel\<close> access a 32-bit register;
  \<open>readb\<close> zero-extends the 8-bit register to an \<open>unsigned int\<close>, \<open>writeb\<close> stores the low byte.
\<close>

definition readl :: "('r \<Rightarrow> u32) \<Rightarrow> 'r \<Rightarrow> u32" where
  "readl m r = m r"

definition writel :: "u32 \<Rightarrow> 'r \<Rightarrow> ('r \<Rightarrow> u32) \<Rightarrow> ('r \<Rightarrow> u32)" where
  "writel v r m = m(r := v)"

definition readb :: "('r \<Rightarrow> u8) \<Rightarrow> 'r \<Rightarrow> u32" where
  "readb m r = ucast (m r)"

definition writeb :: "u32 \<Rightarrow> 'r \<Rightarrow> ('r \<Rightarrow> u8) \<Rightarrow> ('r \<Rightarrow> u8)" where
  "writeb v r m = m(r := ucast v)"

text \<open>The laws a bank of registers of a given width promises; the read-modify-write lemmas that
  every register-poking driver needs follow from them.\<close>

locale register_bank =
  fixes rd :: "'m \<Rightarrow> 'r \<Rightarrow> u32" and wr :: "u32 \<Rightarrow> 'r \<Rightarrow> 'm \<Rightarrow> 'm" and width :: u32
  assumes rd_wr_same: "rd (wr v r m) r = v AND width"
    and rd_wr_other: "q \<noteq> r \<Longrightarrow> rd (wr v r m) q = rd m q"
    and rd_width: "rd m r AND width = rd m r"
begin

lemma rd_wr: "rd (wr v r m) q = (if q = r then v AND width else rd m q)"
  by (simp add: rd_wr_same rd_wr_other)

lemma set_bits: "b AND width = b \<Longrightarrow> rd (wr (rd m r OR b) r m) r AND b = b"
  by (simp add: rd_wr_same and.assoc and.commute [of width] or_and_same)

lemma clear_bits: "rd (wr (rd m r AND NOT b) r m) r AND b = 0"
  by (simp add: rd_wr_same and.assoc and.commute [of width])
    (simp add: and.assoc [symmetric] and_or_absorb)

lemma width_last: "(x AND width) AND c = (x AND c) AND width"
  by (simp add: and.assoc and.commute [of width])

lemma set_keeps:
  assumes "b AND c = 0"
  shows "rd (wr (rd m r OR b) r m) r AND c = rd m r AND c"
proof -
  have "rd (wr (rd m r OR b) r m) r AND c = (rd m r AND c) AND width"
    by (simp only: rd_wr_same width_last or_and_disjoint [OF assms])
  then show ?thesis by (simp only: width_last [symmetric] rd_width)
qed

lemma clear_keeps:
  assumes "b AND c = 0"
  shows "rd (wr (rd m r AND NOT b) r m) r AND c = rd m r AND c"
proof -
  have "rd (wr (rd m r AND NOT b) r m) r AND c = (rd m r AND c) AND width"
    by (simp only: rd_wr_same width_last and_not_and_disjoint [OF assms])
  then show ?thesis by (simp only: width_last [symmetric] rd_width)
qed

lemma rewrite_same: "q \<noteq> r \<Longrightarrow> rd (wr (rd m r) r m) q = rd m q"
  by (rule rd_wr_other)

lemma save_restore: "rd (wr (rd m r) r m') r = rd m r"
  by (simp add: rd_wr_same rd_width)

end

interpretation bank32: register_bank readl writel "-1"
  by unfold_locales (simp_all add: readl_def writel_def)

interpretation bank8: register_bank readb writeb "255"
  by unfold_locales (simp_all add: readb_def writeb_def)

lemmas [reg_simps] = bank32.rd_wr bank8.rd_wr

subsection \<open>GPIO pins\<close>

text \<open>Header constants of the board: the pin numbers and functions the drivers name.\<close>

record gpio_hdr =
  S3C2410_GPB :: "nat \<Rightarrow> u32"
  S3C2410_GPIO_OUTPUT :: u32
  S3C2410_GPB0_TOUT0 :: u32

record gpio =
  pin_cfg :: "u32 \<Rightarrow> u32"
  pin_out :: "u32 \<Rightarrow> u32"

definition s3c2410_gpio_cfgpin :: "u32 \<Rightarrow> u32 \<Rightarrow> gpio \<Rightarrow> gpio" where
  "s3c2410_gpio_cfgpin pin f g = g\<lparr>pin_cfg := (pin_cfg g)(pin := f)\<rparr>"

definition s3c2410_gpio_setpin :: "u32 \<Rightarrow> u32 \<Rightarrow> gpio \<Rightarrow> gpio" where
  "s3c2410_gpio_setpin pin v g = g\<lparr>pin_out := (pin_out g)(pin := v)\<rparr>"

lemma gpio_reads [simp]:
  "pin_cfg (s3c2410_gpio_cfgpin pin f g) p = (if p = pin then f else pin_cfg g p)"
  "pin_out (s3c2410_gpio_cfgpin pin f g) p = pin_out g p"
  "pin_cfg (s3c2410_gpio_setpin pin v g) p = pin_cfg g p"
  "pin_out (s3c2410_gpio_setpin pin v g) p = (if p = pin then v else pin_out g p)"
  by (simp_all add: s3c2410_gpio_cfgpin_def s3c2410_gpio_setpin_def)

text \<open>The pins of a port are different pins.\<close>

definition gpio_hdr_ok :: "gpio_hdr \<Rightarrow> bool" where
  "gpio_hdr_ok h \<longleftrightarrow> (\<forall>i<32. \<forall>j<32. S3C2410_GPB h i = S3C2410_GPB h j \<longrightarrow> i = j)"

definition mini2440_gpio :: gpio_hdr where
  "mini2440_gpio = \<lparr>S3C2410_GPB = (\<lambda>i. 32 + of_nat i), S3C2410_GPIO_OUTPUT = 1,
     S3C2410_GPB0_TOUT0 = 2\<rparr>"

lemma mini2440_gpio_ok: "gpio_hdr_ok mini2440_gpio"
  unfolding gpio_hdr_ok_def mini2440_gpio_def
  by (auto simp: word_of_nat_eq_iff take_bit_eq_mod)

lemma gpio_hdr_inj: "gpio_hdr_ok h \<Longrightarrow> i < 32 \<Longrightarrow> j < 32 \<Longrightarrow>
    S3C2410_GPB h i = S3C2410_GPB h j \<longleftrightarrow> i = j"
  by (auto simp: gpio_hdr_ok_def)

subsection \<open>Counting semaphores\<close>

text \<open>\<open>down_trylock\<close> returns 0 when it takes the semaphore and 1 when it would have to wait;
  \<open>down_interruptible\<close> returns nonzero, without the semaphore, when a signal ends the wait.\<close>

definition down_trylock :: "nat \<Rightarrow> nat \<times> nat" where
  "down_trylock c = (if c = 0 then (1, c) else (0, c - 1))"

definition sem_up :: "nat \<Rightarrow> nat" where
  "sem_up c = c + 1"

subsection \<open>Copies between kernel and user memory\<close>

text \<open>
  A copy may stop at an unmapped page: the functions give what reached the destination and the
  number of bytes left uncopied, for the bytes to be copied.
\<close>

record uaccess =
  to_user :: "u8 list \<Rightarrow> u8 list \<times> nat"
  from_user :: "u8 list \<Rightarrow> u8 list \<times> nat"

definition uaccess_ok :: "uaccess \<Rightarrow> bool" where
  "uaccess_ok ua \<longleftrightarrow>
     (\<forall>bs. snd (to_user ua bs) \<le> length bs \<and>
           length (fst (to_user ua bs)) \<le> length bs \<and>
           (snd (to_user ua bs) = 0 \<longrightarrow> fst (to_user ua bs) = bs)) \<and>
     (\<forall>bs. length (fst (from_user ua bs)) = length bs \<and> snd (from_user ua bs) \<le> length bs \<and>
           (snd (from_user ua bs) = 0 \<longrightarrow> fst (from_user ua bs) = bs))"

definition uaccess_mapped :: uaccess where
  "uaccess_mapped = \<lparr>to_user = (\<lambda>bs. (bs, 0)), from_user = (\<lambda>bs. (bs, 0))\<rparr>"

definition uaccess_unmapped :: uaccess where
  "uaccess_unmapped =
     \<lparr>to_user = (\<lambda>bs. ([], length bs)), from_user = (\<lambda>bs. (replicate (length bs) 0, length bs))\<rparr>"

lemma uaccess_mapped_ok [simp]: "uaccess_ok uaccess_mapped"
  by (simp add: uaccess_ok_def uaccess_mapped_def)

lemma uaccess_unmapped_ok [simp]: "uaccess_ok uaccess_unmapped"
  by (simp add: uaccess_ok_def uaccess_unmapped_def)

lemma uaccess_to_done: "uaccess_ok ua \<Longrightarrow> snd (to_user ua bs) = 0 \<Longrightarrow> fst (to_user ua bs) = bs"
  by (simp add: uaccess_ok_def)

lemma uaccess_to_bounds:
  "uaccess_ok ua \<Longrightarrow> snd (to_user ua bs) \<le> length bs"
  "uaccess_ok ua \<Longrightarrow> length (fst (to_user ua bs)) \<le> length bs"
  by (simp_all add: uaccess_ok_def)

lemma uaccess_from_length: "uaccess_ok ua \<Longrightarrow> length (fst (from_user ua bs)) = length bs"
  by (simp add: uaccess_ok_def)

lemma uaccess_from_done:
  "uaccess_ok ua \<Longrightarrow> snd (from_user ua bs) = 0 \<Longrightarrow> fst (from_user ua bs) = bs"
  by (simp add: uaccess_ok_def)

subsection \<open>The resources a module holds\<close>

text \<open>
  Every resource taken from the kernel is entered in the module's ledger; giving back what is not
  held (a null region, a second free) is a fault.
\<close>

datatype resource =
    Mem_region      \<comment> \<open>a reserved range of bus addresses\<close>
  | Mem_desc        \<comment> \<open>the allocated descriptor of the range\<close>
  | Io_map          \<comment> \<open>a mapping made by \<open>ioremap\<close>\<close>
  | Irq_line int
  | Clk_ref         \<comment> \<open>a clock obtained with \<open>clk_get\<close>\<close>
  | Clk_on          \<comment> \<open>that clock, enabled\<close>
  | Misc_dev        \<comment> \<open>a registered character device\<close>
  | Rtc_dev         \<comment> \<open>a device registered with the RTC class\<close>
  | Kmem            \<comment> \<open>memory from \<open>kmalloc\<close>\<close>
  | Page_reserved   \<comment> \<open>the reserved mark on a page\<close>

type_synonym ledger = "resource multiset"

definition take_res :: "resource \<Rightarrow> ledger \<Rightarrow> ledger" where
  "take_res r h = add_mset r h"

definition give_res :: "resource \<Rightarrow> ledger \<Rightarrow> fault + ledger" where
  "give_res r h = (if r \<in># h then Inr (h - {#r#}) else Inl BadRelease)"

fun give_all :: "resource list \<Rightarrow> ledger \<Rightarrow> fault + ledger" where
  "give_all [] h = Inr h"
| "give_all (r # rs) h = seq (give_res r h) (give_all rs)"

locale resource_ledger =
  fixes tk :: "'r \<Rightarrow> 'l \<Rightarrow> 'l" and gv :: "'r \<Rightarrow> 'l \<Rightarrow> fault + 'l" and holds :: "'l \<Rightarrow> 'r \<Rightarrow> bool"
  assumes gv_tk: "gv r (tk r h) = Inr h"
    and tk_comm: "tk r (tk q h) = tk q (tk r h)"
    and holds_tk: "holds (tk r h) q \<longleftrightarrow> q = r \<or> holds h q"
    and gv_held: "holds h r \<Longrightarrow> \<exists>h'. gv r h = Inr h' \<and> tk r h' = h"
    and gv_not_held: "\<not> holds h r \<Longrightarrow> gv r h = Inl BadRelease"
begin

lemma gv_tk_other: "holds h r \<Longrightarrow> gv r (tk q h) = seq (gv r h) (\<lambda>h'. Inr (tk q h'))"
proof -
  assume "holds h r"
  then obtain h' where h': "gv r h = Inr h'" "tk r h' = h" using gv_held by blast
  have "gv r (tk q h) = gv r (tk r (tk q h'))" using h'(2) tk_comm [of r q h'] by simp
  then show ?thesis using h'(1) by (simp add: gv_tk)
qed

lemma unwind: "gv q (tk r (tk q h)) = Inr (tk r h)"
  using gv_tk [of q "tk r h"] by (simp add: tk_comm)

lemma give_succeeds_iff: "(\<exists>h'. gv r h = Inr h') \<longleftrightarrow> holds h r"
  using gv_held gv_not_held by fastforce

end

interpretation led: resource_ledger take_res give_res "\<lambda>h r. r \<in># h"
  by unfold_locales (auto simp: take_res_def give_res_def add_mset_commute)

lemmas [res_simps] = led.gv_tk led.gv_not_held led.unwind

lemma give_res_add [res_simps]: "give_res r (add_mset r h) = Inr h"
  using led.gv_tk by (simp add: take_res_def)

lemma give_res_add_other [res_simps]:
  "r \<noteq> q \<Longrightarrow> give_res r (add_mset q h) = seq (give_res r h) (\<lambda>h'. Inr (add_mset q h'))"
  by (auto simp: give_res_def)

end
