(* ===== verification/Leds.thy ===== *)
theory Leds
  imports Kernel_Api
begin

text \<open>
  The LED driver (\<open>led/driver/leds.c\<close>) and its command-line client (\<open>led/app/unit-test.c\<close>).
  The driver keeps a table of four GPIO pins; \<open>ioctl\<close> drives one of them.  The state is the GPIO
  bank and whether the device node is registered.
\<close>

record leds =
  led_gpio :: gpio
  led_name :: string
  led_held :: ledger

definition led_table :: "gpio_hdr \<Rightarrow> u32 list" where
  "led_table h = [S3C2410_GPB h 5, S3C2410_GPB h 6, S3C2410_GPB h 7, S3C2410_GPB h 8]"

definition led_cfg_table :: "gpio_hdr \<Rightarrow> u32 list" where
  "led_cfg_table h =
     [S3C2410_GPIO_OUTPUT h, S3C2410_GPIO_OUTPUT h, S3C2410_GPIO_OUTPUT h, S3C2410_GPIO_OUTPUT h]"

text \<open>\<open>!cmd\<close>: 1 for command 0, 0 for command 1.\<close>

definition s3c2440_leds_ioctl :: "gpio_hdr \<Rightarrow> u32 \<Rightarrow> u32 \<Rightarrow> leds \<Rightarrow> fault + int result \<times> leds" where
  "s3c2440_leds_ioctl h cmd arg s =
     (if cmd = 0 \<or> cmd = 1 then
        if arg > 4 then Inr (Inl EINVAL, s)
        else seq (array_get (led_table h) (unat arg)) (\<lambda>pin.
          Inr (Inr 0, s\<lparr>led_gpio := s3c2410_gpio_setpin pin (if cmd = 0 then 1 else 0) (led_gpio s)\<rparr>))
      else Inr (Inl EINVAL, s))"

fun leds_init_loop :: "gpio_hdr \<Rightarrow> nat list \<Rightarrow> gpio \<Rightarrow> fault + gpio" where
  "leds_init_loop h [] g = Inr g"
| "leds_init_loop h (i # is) g =
     seq (array_get (led_table h) i) (\<lambda>pin.
     seq (array_get (led_cfg_table h) i) (\<lambda>cfg.
       leds_init_loop h is (s3c2410_gpio_setpin pin 0 (s3c2410_gpio_cfgpin pin cfg g))))"

text \<open>\<open>name\<close> is the module parameter \<open>device_name\<close>, \<open>registered\<close> what \<open>misc_register\<close> returns.\<close>

definition s3c2440_leds_module_init ::
    "gpio_hdr \<Rightarrow> string \<Rightarrow> outcome \<Rightarrow> leds \<Rightarrow> fault + int result \<times> leds" where
  "s3c2440_leds_module_init h name registered s =
     seq (leds_init_loop h [0, 1, 2, 3] (led_gpio s)) (\<lambda>g.
       let s' = s\<lparr>led_gpio := g, led_name := name\<rparr>
       in Inr (outcome_result registered,
            if failed registered then s' else s'\<lparr>led_held := take_res Misc_dev (led_held s')\<rparr>))"

definition s3c2440_leds_module_exit :: "leds \<Rightarrow> fault + leds" where
  "s3c2440_leds_module_exit s =
     seq (give_res Misc_dev (led_held s)) (\<lambda>h. Inr (s\<lparr>led_held := h\<rparr>))"

subsection \<open>The client\<close>

text \<open>
  \<open>argc\<close>, what \<open>sscanf\<close> scanned from each argument (\<open>None\<close> when it does not return 1) and whether
  the device could be opened decide how the program ends or which \<open>ioctl\<close> it issues.
\<close>

datatype led_run = Led_exit nat | Led_ioctl u32 u32

definition led_main :: "int \<Rightarrow> s32 option \<Rightarrow> s32 option \<Rightarrow> bool \<Rightarrow> led_run" where
  "led_main argc scan1 scan2 opened =
     (if argc \<noteq> 3 then Led_exit 1
      else case scan1 of
        None \<Rightarrow> Led_exit 1
      | Some led_id \<Rightarrow>
          (case scan2 of
             None \<Rightarrow> Led_exit 1
           | Some led_switch \<Rightarrow>
               if sint led_id > 4 \<or> sint led_id < 1 \<or> sint led_switch > 1 \<or> sint led_switch < 0
               then Led_exit 1
               else if \<not> opened then Led_exit 2
               else Led_ioctl led_switch (led_id - 1)))"

subsection \<open>Correctness\<close>

lemma length_led_table [simp]: "length (led_table h) = 4"
  by (simp add: led_table_def)

lemma length_led_cfg_table [simp]: "length (led_cfg_table h) = 4"
  by (simp add: led_cfg_table_def)

lemma led_table_nth: "i < 4 \<Longrightarrow> led_table h ! i = S3C2410_GPB h (5 + i)"
  by (auto simp: led_table_def less_Suc_eq numeral_eq_Suc)

lemma led_cfg_table_nth: "i < 4 \<Longrightarrow> led_cfg_table h ! i = S3C2410_GPIO_OUTPUT h"
  by (auto simp: led_cfg_table_def less_Suc_eq numeral_eq_Suc)

lemma led_pins_distinct:
  "gpio_hdr_ok h \<Longrightarrow> i < 4 \<Longrightarrow> j < 4 \<Longrightarrow> led_table h ! i = led_table h ! j \<longleftrightarrow> i = j"
  by (simp add: led_table_nth gpio_hdr_inj)

lemma leds_ioctl_in:
  "cmd = 0 \<or> cmd = 1 \<Longrightarrow> unat arg < 4 \<Longrightarrow>
     s3c2440_leds_ioctl h cmd arg s =
       Inr (Inr 0, s\<lparr>led_gpio :=
         s3c2410_gpio_setpin (led_table h ! unat arg) (if cmd = 0 then 1 else 0) (led_gpio s)\<rparr>)"
  by (auto simp: s3c2440_leds_ioctl_def word_less_nat_alt)

lemma word_gt_4: "(4 < (arg :: u32)) \<longleftrightarrow> 4 < unat arg"
  by (simp add: word_less_nat_alt)

definition leds_start :: leds where
  "leds_start = \<lparr>led_gpio = \<lparr>pin_cfg = (\<lambda>_. 0), pin_out = (\<lambda>_. 0)\<rparr>, led_name = ''mini2440-leds'',
     led_held = {#}\<rparr>"

text \<open>Further (functional). Switching LED \<open>arg\<close> with command 0 or 1 returns 0, drives exactly
  that LED's pin to the complement of the command, and leaves the other three LEDs as they were.\<close>

theorem leds_ioctl_switches_one:
  assumes "gpio_hdr_ok h" and "cmd = 0 \<or> cmd = 1" and "unat arg < 4"
  shows "\<exists>s'. s3c2440_leds_ioctl h cmd arg s = Inr (Inr 0, s') \<and>
     pin_out (led_gpio s') (led_table h ! unat arg) = 1 - cmd \<and>
     (\<forall>j<4. j \<noteq> unat arg \<longrightarrow>
        pin_out (led_gpio s') (led_table h ! j) = pin_out (led_gpio s) (led_table h ! j))"
  using assms by (auto simp: leds_ioctl_in led_pins_distinct)

theorem leds_ioctl_switches_one_witness:
  "\<exists>s'. s3c2440_leds_ioctl mini2440_gpio 1 2 leds_start = Inr (Inr 0, s') \<and>
     pin_out (led_gpio s') (led_table mini2440_gpio ! unat (2 :: u32)) = 1 - 1 \<and>
     (\<forall>j<4. j \<noteq> unat (2 :: u32) \<longrightarrow>
        pin_out (led_gpio s') (led_table mini2440_gpio ! j)
          = pin_out (led_gpio leds_start) (led_table mini2440_gpio ! j))"
  by (rule leds_ioctl_switches_one) (simp_all add: mini2440_gpio_ok)

text \<open>Further (error). The guard \<open>arg > 4\<close> admits one index too many: the ioctl runs off the end of the
  four-entry pin table exactly when the command is 0 or 1 and the argument is 4; every larger
  argument and every other command is answered \<open>EINVAL\<close> with the LEDs untouched.\<close>

theorem leds_ioctl_guard:
  "(s3c2440_leds_ioctl h cmd arg s = Inl OutOfBounds \<longleftrightarrow> (cmd = 0 \<or> cmd = 1) \<and> arg = 4) \<and>
   (s3c2440_leds_ioctl h cmd arg s = Inr (Inl EINVAL, s) \<longleftrightarrow> \<not> ((cmd = 0 \<or> cmd = 1) \<and> arg \<le> 4))"
proof -
  consider "cmd \<noteq> 0 \<and> cmd \<noteq> 1" | "cmd = 0 \<or> cmd = 1" "arg > 4" | "cmd = 0 \<or> cmd = 1" "arg = 4"
    | "cmd = 0 \<or> cmd = 1" "unat arg < 4"
    by (metis linorder_less_linear word_less_nat_alt unat_numeral_u32_4)
  then show ?thesis
  proof cases
    case 4
    then have "arg < 4" by (simp add: word_less_nat_alt)
    with 4 show ?thesis by (simp add: leds_ioctl_in) (auto simp: order_le_less)
  qed (auto simp: s3c2440_leds_ioctl_def)
qed

lemma leds_init_loop_pins:
  "set is \<subseteq> {..<4} \<Longrightarrow>
     \<exists>g'. leds_init_loop h is g = Inr g' \<and>
       (\<forall>p. pin_cfg g' p =
          (if p \<in> (!) (led_table h) ` set is then S3C2410_GPIO_OUTPUT h else pin_cfg g p)) \<and>
       (\<forall>p. pin_out g' p = (if p \<in> (!) (led_table h) ` set is then 0 else pin_out g p))"
proof (induction "is" arbitrary: g)
  case Nil
  then show ?case by simp
next
  case (Cons i "is")
  let ?g = "s3c2410_gpio_setpin (led_table h ! i) 0
              (s3c2410_gpio_cfgpin (led_table h ! i) (led_cfg_table h ! i) g)"
  from Cons.prems have i: "i < 4" and rest: "set is \<subseteq> {..<4}" by auto
  from Cons.IH [OF rest, of ?g] obtain g' where
    "leds_init_loop h is ?g = Inr g'"
    "\<And>p. pin_cfg g' p = (if p \<in> (!) (led_table h) ` set is then S3C2410_GPIO_OUTPUT h else pin_cfg ?g p)"
    "\<And>p. pin_out g' p = (if p \<in> (!) (led_table h) ` set is then 0 else pin_out ?g p)"
    by blast
  with i show ?case
    by (intro exI [of _ g']) (auto simp: led_cfg_table_nth)
qed

text \<open>Further (functional). Loading the module makes all four LED pins outputs driven low, whatever
  they were, and the module is loaded (0) exactly when the device was registered; unloading it
  then gives the registration back.\<close>

theorem leds_init_configures:
  "\<exists>s'. s3c2440_leds_module_init h name reg s = Inr (outcome_result reg, s') \<and>
     (\<forall>j<4. pin_cfg (led_gpio s') (led_table h ! j) = S3C2410_GPIO_OUTPUT h \<and>
            pin_out (led_gpio s') (led_table h ! j) = 0) \<and>
     (reg = None \<longrightarrow> (\<exists>s''. s3c2440_leds_module_exit s' = Inr s'' \<and> led_held s'' = led_held s))"
proof -
  have four: "j \<in> set [0, 1, 2, 3]" if "j < 4" for j :: nat
    using that by auto
  have "set [0, 1, 2, 3] \<subseteq> {..<4 :: nat}" by auto
  from leds_init_loop_pins [OF this, of h "led_gpio s"] obtain g' where
    g': "leds_init_loop h [0, 1, 2, 3] (led_gpio s) = Inr g'"
      "\<And>p. p \<in> (!) (led_table h) ` set [0, 1, 2, 3] \<Longrightarrow>
         pin_cfg g' p = S3C2410_GPIO_OUTPUT h \<and> pin_out g' p = 0"
    by auto
  have "\<forall>j<4. pin_cfg g' (led_table h ! j) = S3C2410_GPIO_OUTPUT h \<and>
      pin_out g' (led_table h ! j) = 0"
    using g'(2) four by blast
  with g'(1) show ?thesis
    by (cases reg)
      (simp_all add: s3c2440_leds_module_init_def s3c2440_leds_module_exit_def Let_def res_simps)
qed

theorem leds_init_configures_witness:
  "\<exists>s'. s3c2440_leds_module_init mini2440_gpio ''leds'' None leds_start = Inr (Inr 0, s') \<and>
     pin_out (led_gpio s') (led_table mini2440_gpio ! 3) = 0 \<and>
     (\<exists>s''. s3c2440_leds_module_exit s' = Inr s'' \<and> led_held s'' = {#})"
proof -
  from leds_init_configures [of mini2440_gpio "''leds''" None leds_start] obtain s' where
    s': "s3c2440_leds_module_init mini2440_gpio ''leds'' None leds_start = Inr (Inr 0, s')"
      "\<forall>j<4. pin_out (led_gpio s') (led_table mini2440_gpio ! j) = 0"
      "\<exists>s''. s3c2440_leds_module_exit s' = Inr s'' \<and> led_held s'' = led_held leds_start"
    by auto
  from s'(2) have "pin_out (led_gpio s') (led_table mini2440_gpio ! 3) = 0" by simp
  with s' show ?thesis by (auto simp: leds_start_def)
qed

lemma led_id_range:
  fixes led_id :: s32
  assumes "\<not> sint led_id > 4" "\<not> sint led_id < 1"
  shows "unat (led_id - 1) < 4" "unat led_id = nat (sint led_id)"
proof -
  have u: "uint led_id = sint led_id"
    using assms by (simp add: sint_nonneg_uint)
  from u show n: "unat led_id = nat (sint led_id)" by (simp add: unat_eq_nat_uint)
  have "1 \<le> led_id" using assms u by (simp add: word_le_def)
  then have "unat (led_id - 1) = unat led_id - 1" by (simp add: unat_sub)
  then show "unat (led_id - 1) < 4" using n assms by simp
qed

text \<open>C33 (safety). Every ioctl the command-line client issues is one the driver handles without
  leaving its table: it returns 0 and switches the LED numbered from 1 that the user named; no
  arguments the client accepts reach the driver's faulty index.\<close>

theorem led_client_safe:
  assumes "gpio_hdr_ok h" and "led_main argc a b opened = Led_ioctl cmd arg"
  shows "\<exists>led_id s'. a = Some led_id \<and> b = Some cmd \<and>
     s3c2440_leds_ioctl h cmd arg s = Inr (Inr 0, s') \<and>
     pin_out (led_gpio s') (led_table h ! (nat (sint led_id) - 1)) = 1 - cmd"
proof -
  from assms(2) obtain led_id where id: "a = Some led_id" "b = Some cmd" "arg = led_id - 1"
    "\<not> sint led_id > 4" "\<not> sint led_id < 1" "\<not> sint cmd > 1" "\<not> sint cmd < 0"
    by (auto simp: led_main_def split: if_splits option.splits)
  have cmd: "cmd = 0 \<or> cmd = 1"
    using id(6,7) by (rule s32_0_or_1)
  note r = led_id_range [OF id(4,5)]
  have "unat (led_id - 1) = nat (sint led_id) - 1"
    using r id(5) by (simp add: unat_sub word_le_nat_alt)
  with r cmd id show ?thesis
    by (auto simp: leds_ioctl_in)
qed

theorem led_client_safe_witness:
  "\<exists>led_id s'. Some (3 :: s32) = Some led_id \<and> Some (1 :: u32) = Some 1 \<and>
     s3c2440_leds_ioctl mini2440_gpio 1 2 leds_start = Inr (Inr 0, s') \<and>
     pin_out (led_gpio s') (led_table mini2440_gpio ! (nat (sint led_id) - 1)) = 1 - 1"
proof -
  have "led_main 3 (Some 3) (Some 1) True = Led_ioctl 1 2"
    by (simp add: led_main_def)
  from led_client_safe [OF mini2440_gpio_ok this] show ?thesis .
qed

end
