(* ===== verification/Scull.thy ===== *)
theory Scull
  imports Kernel_Api
begin

text \<open>
  The in-memory character device (\<open>scull3/driver/scull3.c\<close>).  A device is a linked list of
  quantum sets, each an array of \<open>qset\<close> pointers to quanta of \<open>quantum\<close> bytes; \<open>NULL\<close> pointers
  are \<open>None\<close>.  The list owns its nodes, arrays and quanta (each comes from its own \<open>kmalloc\<close>), so
  it is a HOL list and a pointer into it is a position.  File positions are 64-bit and signed,
  sizes and counts 32-bit.
\<close>

subsection \<open>State\<close>

record scull_qset =
  qs_data :: "u8 list option list option"

record scull_dev =
  dev_data :: "scull_qset list"
  dev_quantum :: s32
  dev_qset :: s32
  dev_size :: u32
  access_key :: u32
  dev_sem :: nat

text \<open>Module parameters, with the defaults of the source.\<close>

record scull_params =
  scull_major :: s32
  scull_minor :: s32
  scull_quantum :: s32
  scull_qset_count :: s32
  scull_nr_devs :: s32

definition scull_defaults :: scull_params where
  "scull_defaults = \<lparr>scull_major = 0, scull_minor = 0, scull_quantum = 1000,
     scull_qset_count = 1000, scull_nr_devs = 4\<rparr>"

datatype access_mode = O_RDONLY | O_WRONLY | O_RDWR

text \<open>The static device before any code ran: all zero.\<close>

definition scull_dev_zero :: scull_dev where
  "scull_dev_zero = \<lparr>dev_data = [], dev_quantum = 0, dev_qset = 0, dev_size = 0, access_key = 0,
     dev_sem = 0\<rparr>"

subsection \<open>Walking and freeing the list\<close>

text \<open>
  The walk of \<open>scull_follow\<close>, from the node at position \<open>p\<close> on: the loop counter \<open>i\<close> is compared
  with \<open>item\<close> but never incremented.
\<close>

fun follow_from :: "scull_qset list \<Rightarrow> nat \<Rightarrow> s32 \<Rightarrow> s32 \<Rightarrow> nat option" where
  "follow_from [] p i item = None"
| "follow_from (d # ds) p i item =
     (if sint i < sint item then follow_from ds (Suc p) i item else Some p)"

definition scull_follow :: "scull_dev \<Rightarrow> s32 \<Rightarrow> nat option" where
  "scull_follow dev item = follow_from (dev_data dev) 0 0 item"

text \<open>Freeing the first \<open>n\<close> quanta of an array, then whole nodes; the result counts the objects
  freed (\<open>kfree(NULL)\<close> frees nothing).\<close>

fun free_quanta :: "nat \<Rightarrow> u8 list option list \<Rightarrow> fault + nat" where
  "free_quanta 0 qs = Inr 0"
| "free_quanta (Suc k) [] = Inl OutOfBounds"
| "free_quanta (Suc k) (q # qs) =
     seq (free_quanta k qs) (\<lambda>n. Inr ((if q = None then 0 else 1) + n))"

fun trim_loop :: "s32 \<Rightarrow> scull_qset list \<Rightarrow> fault + nat" where
  "trim_loop qset [] = Inr 0"
| "trim_loop qset (d # ds) =
     seq (case qs_data d of
            None \<Rightarrow> Inr 0
          | Some qs \<Rightarrow> seq (free_quanta (nat (sint qset)) qs) (\<lambda>n. Inr (n + 1))) (\<lambda>n.
     seq (trim_loop qset ds) (\<lambda>m. Inr (n + 1 + m)))"

definition scull_trim :: "scull_params \<Rightarrow> scull_dev \<Rightarrow> fault + nat \<times> scull_dev" where
  "scull_trim par dev =
     seq (trim_loop (dev_qset dev) (dev_data dev)) (\<lambda>freed.
       Inr (freed, dev\<lparr>dev_size := 0, dev_quantum := scull_quantum par,
                       dev_qset := scull_qset_count par, dev_data := []\<rparr>))"

subsection \<open>File operations\<close>

definition scull_open :: "scull_params \<Rightarrow> access_mode \<Rightarrow> scull_dev \<Rightarrow> fault + int result \<times> scull_dev" where
  "scull_open par mode dev =
     (if mode = O_WRONLY then seq (scull_trim par dev) (\<lambda>(freed, dev'). Inr (Inr 0, dev'))
      else Inr (Inr 0, dev))"

definition scull_release :: "scull_dev \<Rightarrow> int result \<times> scull_dev" where
  "scull_release dev = (Inr 0, dev)"

text \<open>\<open>interrupted\<close>: a signal ended the wait for the semaphore.\<close>

definition down_interruptible :: "bool \<Rightarrow> nat \<Rightarrow> fault + nat \<times> nat" where
  "down_interruptible interrupted c =
     (if interrupted then Inr (1, c) else if c = 0 then Inl Blocked else Inr (0, c - 1))"

text \<open>The common exit \<open>out\<close>: release the semaphore and return.\<close>

definition scull_out :: "int result \<Rightarrow> u8 list \<Rightarrow> s64 \<Rightarrow> scull_dev \<Rightarrow>
    fault + int result \<times> u8 list \<times> s64 \<times> scull_dev" where
  "scull_out ret bs f_pos dev = Inr (ret, bs, f_pos, dev\<lparr>dev_sem := sem_up (dev_sem dev)\<rparr>)"

text \<open>The result: the return value, the bytes that reached the user, the new file position, and
  the device.  The pointer difference \<open>quantum - q_pos\<close> is an \<open>int\<close> compared as \<open>size_t\<close>.\<close>

definition scull_read :: "uaccess \<Rightarrow> bool \<Rightarrow> u32 \<Rightarrow> s64 \<Rightarrow> scull_dev \<Rightarrow>
    fault + int result \<times> u8 list \<times> s64 \<times> scull_dev" where
  "scull_read ua interrupted cnt f_pos dev =
     (let quantum = dev_quantum dev; qset = dev_qset dev; itemsize = quantum * qset in
      seq (down_interruptible interrupted (dev_sem dev)) (\<lambda>(r, c).
        if r \<noteq> 0 then Inr (Inl ERESTARTSYS, [], f_pos, dev) else
        let dev = dev\<lparr>dev_sem := c\<rparr> in
        if sint f_pos \<ge> int (unat (dev_size dev)) then scull_out (Inr 0) [] f_pos dev else
        let cnt = (if sint (f_pos + ucast cnt) > int (unat (dev_size dev))
                     then ucast (ucast (dev_size dev) - f_pos) else cnt) in
        if itemsize = 0 then Inl DivByZero else
        let item = c_div (scast f_pos) itemsize; rest = c_mod (scast f_pos) itemsize;
            s_pos = c_div rest quantum; q_pos = c_mod rest quantum in
        case scull_follow dev item of
          None \<Rightarrow> scull_out (Inr 0) [] f_pos dev
        | Some k \<Rightarrow>
           (case qs_data (dev_data dev ! k) of
              None \<Rightarrow> scull_out (Inr 0) [] f_pos dev
            | Some qs \<Rightarrow>
                seq (array_at qs s_pos) (\<lambda>q.
                case q of
                  None \<Rightarrow> scull_out (Inr 0) [] f_pos dev
                | Some buf \<Rightarrow>
                    let cnt = (if cnt > quantum - q_pos then quantum - q_pos else cnt) in
                    seq (buf_range buf q_pos (unat cnt)) (\<lambda>bs.
                    let (got, left) = to_user ua bs in
                    if left \<noteq> 0 then scull_out (Inl EFAULT) got f_pos dev
                    else scull_out (Inr (sint cnt)) got (f_pos + ucast cnt) dev)))))"

text \<open>
  \<open>ubuf\<close> is the user's memory from \<open>buf\<close> on; \<open>alloc_ptrs\<close> and \<open>alloc_quantum\<close> are what the two
  \<open>kmalloc\<close> calls give: whether the pointer array could be had, and the initial contents of a
  fresh quantum.  \<open>qset * sizeof(char *)\<close> is a 32-bit product.
\<close>

definition scull_write :: "uaccess \<Rightarrow> bool \<Rightarrow> bool \<Rightarrow> (u32 \<Rightarrow> u8 list option) \<Rightarrow> (nat \<Rightarrow> u8) \<Rightarrow> u32 \<Rightarrow>
    s64 \<Rightarrow> scull_dev \<Rightarrow> fault + int result \<times> u8 list \<times> s64 \<times> scull_dev" where
  "scull_write ua interrupted alloc_ptrs alloc_quantum ubuf cnt f_pos dev =
     (let quantum = dev_quantum dev; qset = dev_qset dev; itemsize = quantum * qset in
      seq (down_interruptible interrupted (dev_sem dev)) (\<lambda>(r, c).
        if r \<noteq> 0 then Inr (Inl ERESTARTSYS, [], f_pos, dev) else
        let dev = dev\<lparr>dev_sem := c\<rparr> in
        if itemsize = 0 then Inl DivByZero else
        let item = c_div (scast f_pos) itemsize; rest = c_mod (scast f_pos) itemsize;
            s_pos = c_div rest quantum; q_pos = c_mod rest quantum in
        case scull_follow dev item of
          None \<Rightarrow> scull_out (Inl EINVAL) [] f_pos dev
        | Some k \<Rightarrow>
           (let store = (\<lambda>qs d. d\<lparr>dev_data := (dev_data d)[k := (dev_data d ! k)\<lparr>qs_data := qs\<rparr>]\<rparr>) in
            case (case qs_data (dev_data dev ! k) of
                    Some qs \<Rightarrow> Some qs
                  | None \<Rightarrow> if alloc_ptrs then Some (replicate (unat (qset * 4) div 4) None) else None) of
              None \<Rightarrow> scull_out (Inl EINVAL) [] f_pos dev
            | Some qs \<Rightarrow>
                seq (array_at qs s_pos) (\<lambda>q.
                case (case q of Some buf \<Rightarrow> Some buf | None \<Rightarrow> alloc_quantum quantum) of
                  None \<Rightarrow> scull_out (Inl EINVAL) [] f_pos (store (Some qs) dev)
                | Some buf \<Rightarrow>
                    let cnt = (if cnt > quantum - q_pos then quantum - q_pos else cnt);
                        (got, left) = from_user ua (map ubuf [0..<unat cnt]) in
                    seq (buf_store buf q_pos got) (\<lambda>buf'.
                    let dev = store (Some (qs[nat (sint s_pos) := Some buf'])) dev in
                    if left \<noteq> 0 then scull_out (Inl EFAULT) [] f_pos dev
                    else
                      let f_pos = f_pos + ucast cnt in
                      scull_out (Inr (sint cnt)) [] f_pos
                        (if int (unat (dev_size dev)) < sint f_pos
                         then dev\<lparr>dev_size := ucast f_pos\<rparr> else dev))))))"

subsection \<open>Loading and unloading the module\<close>

text \<open>
  \<open>sc_map\<close> lists the device numbers the kernel maps to the one \<open>cdev\<close>, \<open>sc_cdev\<close> the number that
  \<open>cdev\<close> was last added under; \<open>sc_region\<close> whether a region of numbers is registered.
\<close>

record scull_mod =
  sc_dev :: scull_dev
  sc_par :: scull_params
  sc_cdev :: "(s32 \<times> s32) option"
  sc_map :: "(s32 \<times> s32) list"
  sc_region :: bool

definition scull_setup_cdev :: "(nat \<Rightarrow> outcome) \<Rightarrow> nat \<Rightarrow> scull_mod \<Rightarrow> scull_mod" where
  "scull_setup_cdev added index m =
     (let devno = (scull_major (sc_par m), scull_minor (sc_par m) + of_nat index);
          m = m\<lparr>sc_cdev := None\<rparr>
      in if failed (added index) then m
         else m\<lparr>sc_cdev := Some devno, sc_map := sc_map m @ [devno]\<rparr>)"

text \<open>\<open>region\<close> is what registering or allocating the region returned, \<open>devno_major\<close> the major of
  the allocated number, \<open>added\<close> what each \<open>cdev_add\<close> returned.\<close>

definition scull_module_init ::
    "outcome \<Rightarrow> s32 \<Rightarrow> (nat \<Rightarrow> outcome) \<Rightarrow> scull_mod \<Rightarrow> int result \<times> scull_mod" where
  "scull_module_init region devno_major added m =
     (let m = (if scull_major (sc_par m) \<noteq> 0 then m
               else m\<lparr>sc_par := (sc_par m)\<lparr>scull_major := devno_major\<rparr>\<rparr>);
          m = m\<lparr>sc_region := \<not> failed region\<rparr>;
          m = m\<lparr>sc_dev := (sc_dev m)\<lparr>dev_sem := 1\<rparr>\<rparr>
      in (Inr 0, fold (scull_setup_cdev added) [0..<nat (sint (scull_nr_devs (sc_par m)))] m))"

definition scull_module_exit :: "scull_mod \<Rightarrow> scull_mod" where
  "scull_module_exit m =
     m\<lparr>sc_map := (case sc_cdev m of None \<Rightarrow> sc_map m | Some n \<Rightarrow> removeAll n (sc_map m)),
       sc_cdev := None\<rparr>"

subsection \<open>One step of the device\<close>

text \<open>A file operation that returns, whatever the caller, the copies and the allocator do.\<close>

inductive scull_step :: "scull_params \<Rightarrow> scull_dev \<Rightarrow> scull_dev \<Rightarrow> bool" for par :: scull_params where
  step_open: "scull_open par mode d = Inr (r, d') \<Longrightarrow> scull_step par d d'"
| step_read: "scull_read ua intr n pos d = Inr (r, bs, pos', d') \<Longrightarrow> scull_step par d d'"
| step_write: "scull_write ua intr ap aq ubuf n pos d = Inr (r, bs, pos', d') \<Longrightarrow> scull_step par d d'"
| step_release: "scull_release d = (r, d') \<Longrightarrow> scull_step par d d'"

text \<open>The device as \<open>scull_module_init\<close> leaves it.\<close>

definition scull_loaded :: "scull_dev \<Rightarrow> bool" where
  "scull_loaded d \<longleftrightarrow> d = scull_dev_zero\<lparr>dev_sem := 1\<rparr>"

subsection \<open>The walk never leaves the first node\<close>

lemma follow_from_eq:
  "follow_from ds p i item = (if ds = [] \<or> sint i < sint item then None else Some p)"
  by (induction ds arbitrary: p) auto

text \<open>Further (functional). \<open>scull_follow\<close> gives the first node or nothing: any item above 0 is out of
  its reach however long the list is, because the loop never counts.\<close>

theorem scull_follow_first_only:
  "scull_follow dev item = (if dev_data dev = [] \<or> 0 < sint item then None else Some 0)"
  by (simp add: scull_follow_def follow_from_eq)

subsection \<open>A freshly loaded device stays empty\<close>

lemma down_interruptible_Inr:
  "down_interruptible intr c = Inr (r, c') \<longleftrightarrow>
     (if intr then r = 1 \<and> c' = c else c \<noteq> 0 \<and> r = 0 \<and> c' = c - 1)"
  by (auto simp: down_interruptible_def)

lemma scull_follow_empty [simp]: "dev_data dev = [] \<Longrightarrow> scull_follow dev item = None"
  by (simp add: scull_follow_def)

lemma scull_write_empty:
  assumes "dev_data d = []"
  shows "scull_write ua intr ap aq ubuf n pos d =
     (if intr then Inr (Inl ERESTARTSYS, [], pos, d)
      else if dev_sem d = 0 then Inl Blocked
      else if dev_quantum d * dev_qset d = 0 then Inl DivByZero
      else Inr (Inl EINVAL, [], pos, d))"
  by (cases intr; cases "dev_sem d = 0"; cases "dev_quantum d * dev_qset d = 0")
    (simp_all only: scull_write_def Let_def down_interruptible_def if_True if_False seq_simps
      prod.case, simp_all add: assms scull_out_def sem_up_def)

lemma scull_read_empty:
  assumes "dev_data d = []" "dev_size d = 0"
  shows "scull_read ua intr n pos d =
     (if intr then Inr (Inl ERESTARTSYS, [], pos, d)
      else if dev_sem d = 0 then Inl Blocked
      else if 0 \<le> sint pos then Inr (Inr 0, [], pos, d)
      else if dev_quantum d * dev_qset d = 0 then Inl DivByZero
      else Inr (Inr 0, [], pos, d))"
  by (cases intr; cases "dev_sem d = 0"; cases "0 \<le> sint pos"; cases "dev_quantum d * dev_qset d = 0")
    (simp_all only: scull_read_def Let_def down_interruptible_def if_True if_False seq_simps
      prod.case, simp_all add: assms scull_out_def sem_up_def)

definition scull_empty :: "scull_dev \<Rightarrow> bool" where
  "scull_empty d \<longleftrightarrow> dev_data d = [] \<and> dev_size d = 0 \<and> dev_sem d = 1"

lemma scull_open_empty:
  "dev_data d = [] \<Longrightarrow> \<exists>d'. scull_open par mode d = Inr (Inr 0, d') \<and> dev_data d' = [] \<and>
     dev_sem d' = dev_sem d \<and> (dev_size d' = 0 \<or> dev_size d' = dev_size d)"
  by (simp add: scull_open_def scull_trim_def)

inductive_cases scull_stepE: "scull_step par d d'"

lemma scull_step_empty:
  assumes "scull_empty d" and "scull_step par d d'"
  shows "scull_empty d'"
  using assms(2)
proof (cases rule: scull_step.cases)
  case (step_open mode r)
  then show ?thesis
    using assms(1) scull_open_empty [of d par mode] by (auto simp: scull_empty_def)
next
  case (step_read ua intr n pos r bs pos')
  then show ?thesis
    using assms(1) by (auto simp: scull_empty_def scull_read_empty split: if_splits)
next
  case (step_write ua intr ap aq ubuf n pos r bs pos')
  then show ?thesis
    using assms(1) by (auto simp: scull_empty_def scull_write_empty split: if_splits)
next
  case (step_release r)
  then show ?thesis
    using assms(1) by (auto simp: scull_empty_def scull_release_def)
qed

interpretation scull_fresh: step_invariant scull_loaded "scull_step par" scull_empty for par
proof unfold_locales
  show "scull_loaded s \<Longrightarrow> scull_empty s" for s
    by (simp add: scull_loaded_def scull_empty_def scull_dev_zero_def)
  show "scull_empty s \<Longrightarrow> scull_step par s t \<Longrightarrow> scull_empty t" for s t
    by (rule scull_step_empty)
qed

text \<open>C28 (invariant). A device loaded by this module never stores a byte: in every state that any
  sequence of opens, reads, writes and releases can reach, the list of quantum sets is empty and
  the size is 0, so a write can only report an error and a read can only report end of file (or an
  interrupted wait).  No code path allocates the first node of the list.\<close>

theorem scull_never_stores:
  assumes "reachable scull_loaded (scull_step par) d"
  shows "dev_data d = [] \<and> dev_size d = 0 \<and>
    (\<forall>ua intr ap aq ubuf n pos r bs pos' d'.
       scull_write ua intr ap aq ubuf n pos d = Inr (r, bs, pos', d') \<longrightarrow>
         r = Inl EINVAL \<or> r = Inl ERESTARTSYS) \<and>
    (\<forall>ua intr n pos r bs pos' d'.
       scull_read ua intr n pos d = Inr (r, bs, pos', d') \<longrightarrow>
         bs = [] \<and> (r = Inr 0 \<or> r = Inl ERESTARTSYS))"
  using scull_fresh.inv_reachable [OF assms]
  by (simp add: scull_empty_def scull_write_empty scull_read_empty)

definition scull_after_load :: scull_dev where
  "scull_after_load = scull_dev_zero\<lparr>dev_sem := 1\<rparr>"

theorem scull_never_stores_witness:
  "reachable scull_loaded (scull_step scull_defaults) scull_after_load \<and>
   scull_write uaccess_mapped False True (\<lambda>_. None) (\<lambda>_. 7) 10 0
     (scull_after_load\<lparr>dev_quantum := 1000, dev_qset := 1000\<rparr>)
    = Inr (Inl EINVAL, [], 0, scull_after_load\<lparr>dev_quantum := 1000, dev_qset := 1000\<rparr>)"
proof -
  let ?d = "scull_after_load\<lparr>dev_quantum := 1000, dev_qset := 1000\<rparr>"
  have start: "reachable scull_loaded (scull_step scull_defaults) scull_after_load"
    by (rule reach_init) (simp add: scull_loaded_def scull_after_load_def)
  moreover have "scull_open scull_defaults O_WRONLY scull_after_load = Inr (Inr 0, ?d)"
    by (simp add: scull_open_def scull_trim_def scull_after_load_def scull_dev_zero_def
        scull_defaults_def)
  ultimately have "reachable scull_loaded (scull_step scull_defaults) ?d"
    by (blast intro: reach_step step_open)
  from scull_never_stores [OF this] have "dev_data ?d = []" by simp
  with start show ?thesis
    by (simp add: scull_write_empty) (simp add: scull_after_load_def scull_dev_zero_def)
qed

text \<open>Further (error). The first write after loading, if the device was not opened write-only, divides
  by zero: only \<open>scull_trim\<close> sets the quantum sizes and only a write-only open calls it.  After a
  write-only open with nonzero parameters the same write is refused with \<open>EINVAL\<close>.\<close>

theorem scull_first_write:
  assumes "scull_loaded d" and "scull_quantum par * scull_qset_count par \<noteq> 0"
  shows "scull_open par O_RDWR d = Inr (Inr 0, d) \<and>
    scull_write ua False ap aq ubuf n pos d = Inl DivByZero \<and>
    (\<exists>d'. scull_open par O_WRONLY d = Inr (Inr 0, d') \<and>
       scull_write ua False ap aq ubuf n pos d' = Inr (Inl EINVAL, [], pos, d'))"
  using assms
  by (simp add: scull_loaded_def scull_open_def scull_trim_def scull_dev_zero_def scull_write_empty)

theorem scull_first_write_witness:
  "scull_open scull_defaults O_RDWR scull_after_load = Inr (Inr 0, scull_after_load) \<and>
    scull_write uaccess_mapped False True (\<lambda>_. None) (\<lambda>_. 7) 10 0 scull_after_load = Inl DivByZero \<and>
    (\<exists>d'. scull_open scull_defaults O_WRONLY scull_after_load = Inr (Inr 0, d') \<and>
       scull_write uaccess_mapped False True (\<lambda>_. None) (\<lambda>_. 7) 10 0 d' = Inr (Inl EINVAL, [], 0, d'))"
  by (rule scull_first_write) (simp_all add: scull_loaded_def scull_after_load_def scull_defaults_def)

subsection \<open>Well-formed devices\<close>

text \<open>Array and quantum lengths match the device's sizes, and the sizes fit an \<open>int\<close>.  The
  semaphore is free between operations.\<close>

definition scull_wf :: "scull_dev \<Rightarrow> bool" where
  "scull_wf dev \<longleftrightarrow>
     unat (dev_quantum dev) * unat (dev_qset dev) < 2 ^ 31 \<and>
     unat (dev_quantum dev) < 2 ^ 31 \<and> unat (dev_qset dev) < 2 ^ 29 \<and> dev_sem dev = 1 \<and>
     (\<forall>d\<in>set (dev_data dev). \<forall>qs. qs_data d = Some qs \<longrightarrow>
        length qs = unat (dev_qset dev) \<and>
        (\<forall>buf. Some buf \<in> set qs \<longrightarrow> length buf = unat (dev_quantum dev)))"

definition scull_params_ok :: "scull_params \<Rightarrow> bool" where
  "scull_params_ok par \<longleftrightarrow>
     unat (scull_quantum par) * unat (scull_qset_count par) < 2 ^ 31 \<and>
     unat (scull_quantum par) < 2 ^ 31 \<and> unat (scull_qset_count par) < 2 ^ 29"

lemma free_quanta_ok:
  "n = length qs \<Longrightarrow> free_quanta n qs = Inr (length (filter (\<lambda>q. q \<noteq> None) qs))"
  by (induction n qs rule: free_quanta.induct) auto

text \<open>The heap objects a list owns: its nodes, their arrays, the arrays' quanta.\<close>

definition node_objects :: "scull_qset \<Rightarrow> nat" where
  "node_objects d =
     1 + (case qs_data d of None \<Rightarrow> 0 | Some qs \<Rightarrow> 1 + length (filter (\<lambda>q. q \<noteq> None) qs))"

lemma nat_sint_s32: "unat (x :: s32) < 2 ^ 31 \<Longrightarrow> nat (sint x) = unat x"
  using sint_of_nat_s32 [of "unat x"] by simp

lemma trim_loop_ok:
  "unat q < 2 ^ 29 \<Longrightarrow> \<forall>d\<in>set ds. \<forall>qs. qs_data d = Some qs \<longrightarrow> length qs = unat q \<Longrightarrow>
     trim_loop q ds = Inr (sum_list (map node_objects ds))"
proof (induction ds)
  case Nil
  then show ?case by simp
next
  case (Cons d ds)
  then have "nat (sint q) = unat q" by (simp add: nat_sint_s32)
  then show ?case
    using Cons by (auto simp: node_objects_def free_quanta_ok split: option.splits)
qed

text \<open>C29 (functional). Opening a well-formed device write-only frees every node, array and quantum
  it owned, each once, empties it, and gives it the module's sizes; the device stays well-formed.\<close>

theorem scull_trim_frees_all:
  assumes "scull_wf dev" and "scull_params_ok par"
  shows "\<exists>dev'. scull_trim par dev = Inr (sum_list (map node_objects (dev_data dev)), dev') \<and>
     scull_open par O_WRONLY dev = Inr (Inr 0, dev') \<and>
     dev_data dev' = [] \<and> dev_size dev' = 0 \<and> dev_quantum dev' = scull_quantum par \<and>
     dev_qset dev' = scull_qset_count par \<and> scull_wf dev'"
proof -
  have "trim_loop (dev_qset dev) (dev_data dev) = Inr (sum_list (map node_objects (dev_data dev)))"
    using assms(1) by (intro trim_loop_ok) (auto simp: scull_wf_def)
  then show ?thesis
    using assms by (simp add: scull_trim_def scull_open_def scull_wf_def scull_params_ok_def)
qed

definition scull_full :: scull_dev where
  "scull_full = \<lparr>dev_data = [\<lparr>qs_data = Some [Some [1, 2], None, Some [3, 4]]\<rparr>, \<lparr>qs_data = None\<rparr>],
     dev_quantum = 2, dev_qset = 3, dev_size = 6, access_key = 0, dev_sem = 1\<rparr>"

lemma scull_full_wf: "scull_wf scull_full"
  by (auto simp: scull_wf_def scull_full_def)

lemma scull_full_objects: "sum_list (map node_objects (dev_data scull_full)) = 5"
  by (simp add: scull_full_def node_objects_def)

lemma scull_defaults_ok: "scull_params_ok scull_defaults"
  by (simp add: scull_params_ok_def scull_defaults_def)

lemma scull_defaults_sizes [simp]:
  "scull_quantum scull_defaults = 1000" "scull_qset_count scull_defaults = 1000"
  "scull_major scull_defaults = 0" "scull_minor scull_defaults = 0" "scull_nr_devs scull_defaults = 4"
  by (simp_all add: scull_defaults_def)

theorem scull_trim_frees_all_witness:
  "\<exists>dev'. scull_trim scull_defaults scull_full = Inr (5, dev') \<and>
     scull_open scull_defaults O_WRONLY scull_full = Inr (Inr 0, dev') \<and>
     dev_data dev' = [] \<and> dev_size dev' = 0 \<and> dev_quantum dev' = 1000 \<and>
     dev_qset dev' = 1000 \<and> scull_wf dev'"
  using scull_trim_frees_all [OF scull_full_wf scull_defaults_ok]
  by (simp only: scull_full_objects scull_defaults_sizes)

subsection \<open>Positions\<close>

text \<open>Where position \<open>p\<close> lies in a well-formed device: in the first set exactly when it is below
  the item size, at quantum \<open>p div quantum\<close>, offset \<open>p mod quantum\<close>.\<close>

lemma sint_word_of_int_s64: "- (2 ^ 63) \<le> k \<Longrightarrow> k < 2 ^ 63 \<Longrightarrow> sint (word_of_int k :: s64) = k"
  by (subst sint_sbintrunc') (simp add: signed_take_bit_int_eq_self)

lemma sint_of_nat_s64 [simp]: "n < 2 ^ 63 \<Longrightarrow> sint (of_nat n :: s64) = int n"
  using sint_word_of_int_s64 [of "int n"] by simp

lemma ucast_of_nat_u32: "m < 2 ^ 32 \<Longrightarrow> (ucast (of_nat m :: u32) :: s64) = of_nat m"
  by (simp add: unsigned_of_nat take_bit_nat_eq_self)

lemma ucast_of_nat_s64: "m < 2 ^ 64 \<Longrightarrow> (ucast (of_nat m :: s64) :: u32) = of_nat m"
  by (simp add: unsigned_of_nat take_bit_nat_eq_self)

lemma scast_of_nat_s64: "p < 2 ^ 31 \<Longrightarrow> (scast (of_nat p :: s64) :: s32) = of_nat p"
  by (simp add: scast_eq)

lemma scull_wf_sizes:
  assumes "scull_wf dev"
  obtains Q S where "dev_quantum dev = of_nat Q" "dev_qset dev = of_nat S" "Q * S < 2 ^ 31"
    "Q < 2 ^ 31" "S < 2 ^ 29"
    "dev_quantum dev * dev_qset dev = of_nat (Q * S)"
proof
  show "dev_quantum dev = of_nat (unat (dev_quantum dev))" by simp
  show "dev_qset dev = of_nat (unat (dev_qset dev))" by simp
qed (use assms in \<open>simp_all add: scull_wf_def\<close>)

lemma of_nat_s32_eq_0_iff:
  assumes "n < 2 ^ 31"
  shows "(of_nat n :: s32) = 0 \<longleftrightarrow> n = 0"
proof -
  have "unat (of_nat n :: s32) = n" using assms by simp
  then show ?thesis by (metis unat_eq_0)
qed

lemma scull_coordinates:
  assumes "Q * S < 2 ^ 31" "Q < 2 ^ 31" "0 < Q" "0 < S" "p < 2 ^ 31"
  defines "item \<equiv> c_div (scast (of_nat p :: s64)) (of_nat (Q * S))"
    and "rst \<equiv> c_mod (scast (of_nat p :: s64)) (of_nat (Q * S))"
  shows "0 < sint item \<longleftrightarrow> Q * S \<le> p"
    and "c_div rst (of_nat Q) = of_nat (p mod (Q * S) div Q)"
    and "c_mod rst (of_nat Q) = of_nat (p mod Q)"
proof -
  have pos: "0 < Q * S" using assms(3,4) by simp
  have item: "item = of_nat (p div (Q * S))"
    unfolding item_def scast_of_nat_s64 [OF assms(5)] by (rule c_div_of_nat [OF assms(5,1) pos])
  have rst: "rst = of_nat (p mod (Q * S))"
    unfolding rst_def scast_of_nat_s64 [OF assms(5)] by (rule c_mod_of_nat [OF assms(5,1) pos])
  have small: "p mod (Q * S) < 2 ^ 31"
    using assms(5) by (meson le_less_trans mod_less_eq_dividend)
  have "p div (Q * S) < 2 ^ 31"
    using assms(5) by (meson div_le_dividend le_less_trans)
  then show "0 < sint item \<longleftrightarrow> Q * S \<le> p"
    unfolding item using pos by (simp add: div_greater_zero_iff)
  show "c_div rst (of_nat Q) = of_nat (p mod (Q * S) div Q)"
    unfolding rst by (rule c_div_of_nat [OF small assms(2,3)])
  show "c_mod rst (of_nat Q) = of_nat (p mod Q)"
    unfolding rst c_mod_of_nat [OF small assms(2,3)] by (simp add: mod_mod_cancel)
qed

subsection \<open>What a write and a read do on the first quantum set\<close>

text \<open>At most one quantum per call: the chunk of a transfer of \<open>n\<close> bytes at position \<open>p\<close>.\<close>

definition scull_chunk :: "nat \<Rightarrow> u32 \<Rightarrow> nat \<Rightarrow> nat" where
  "scull_chunk Q n p = min (unat n) (Q - p mod Q)"

lemma scull_chunk_word:
  assumes "0 < Q" "Q < 2 ^ 31"
  shows "(if n > of_nat Q - of_nat (p mod Q) then of_nat Q - of_nat (p mod Q) else n)
     = (of_nat (scull_chunk Q n p) :: u32)"
proof -
  have le: "p mod Q \<le> Q" using assms(1) by (simp add: less_imp_le)
  then have d: "of_nat Q - of_nat (p mod Q) = (of_nat (Q - p mod Q) :: u32)" by simp
  have u: "unat (of_nat (Q - p mod Q) :: u32) = Q - p mod Q"
    using assms(2) by (intro unat_of_nat_s32) simp
  show ?thesis
    unfolding d scull_chunk_def min_def word_less_nat_alt u by auto
qed

lemma scull_chunk_bounds:
  assumes "0 < Q"
  shows "p mod Q + scull_chunk Q n p \<le> Q" "scull_chunk Q n p \<le> unat n" "scull_chunk Q n p \<le> Q"
  using assms mod_less_divisor [OF assms, of p] by (auto simp: scull_chunk_def)

text \<open>The contents of the device at position \<open>k\<close> of the first set, where there is a quantum.\<close>

definition scull_quantum_at :: "scull_dev \<Rightarrow> nat \<Rightarrow> u8 list option" where
  "scull_quantum_at dev k =
     (case dev_data dev of
        [] \<Rightarrow> None
      | d # _ \<Rightarrow>
          (case qs_data d of
             None \<Rightarrow> None
           | Some qs \<Rightarrow> if k < length qs then qs ! k else None))"

definition scull_byte :: "scull_dev \<Rightarrow> nat \<Rightarrow> u8 option" where
  "scull_byte dev k =
     (let Q = unat (dev_quantum dev) in
      map_option (\<lambda>buf. buf ! (k mod Q)) (scull_quantum_at dev (k div Q)))"

text \<open>The pointer array a write finds or makes, and the quantum it finds or makes.\<close>

definition scull_array :: "scull_dev \<Rightarrow> u8 list option list" where
  "scull_array dev = (case qs_data (hd (dev_data dev)) of
     Some qs \<Rightarrow> qs | None \<Rightarrow> replicate (unat (dev_qset dev)) None)"

definition scull_buffer :: "(u32 \<Rightarrow> u8 list option) \<Rightarrow> scull_dev \<Rightarrow> nat \<Rightarrow> u8 list option" where
  "scull_buffer aq dev s = (case scull_array dev ! s of
     Some buf \<Rightarrow> Some buf | None \<Rightarrow> aq (dev_quantum dev))"

lemma unat_of_nat_times4: "S < 2 ^ 29 \<Longrightarrow> unat (of_nat S * 4 :: s32) div 4 = S"
  by (simp add: unat_word_ariths)

lemma scull_index_bound: "0 < (Q :: nat) \<Longrightarrow> p < Q * S \<Longrightarrow> p div Q < S"
  by (rule less_mult_imp_div_less) (simp add: mult.commute)

lemma scull_write_eval:
  assumes wf: "scull_wf dev"
    and geo: "dev_quantum dev = of_nat Q" "dev_qset dev = of_nat S" "Q * S < 2 ^ 31" "Q < 2 ^ 31"
      "S < 2 ^ 29" "p < Q * S"
    and list: "dev_data dev = d0 # ds"
    and buf: "scull_buffer aq dev (p div Q) = Some buf" "length buf = Q"
    and ua: "uaccess_ok ua" "snd (from_user ua (map ubuf [0..<scull_chunk Q n p])) = 0"
  shows "scull_write ua False True aq ubuf n (of_nat p) dev =
    (let m = scull_chunk Q n p; bytes = map ubuf [0..<m] in
     Inr (Inr (int m), [], of_nat (p + m),
       dev\<lparr>dev_data := d0\<lparr>qs_data := Some ((scull_array dev)[p div Q :=
              Some (overwrite buf (p mod Q) bytes)])\<rparr> # ds,
           dev_size := of_nat (max (unat (dev_size dev)) (p + m))\<rparr>))"
proof -
  let ?m = "scull_chunk Q n p"
  have Q: "0 < Q" and S: "0 < S" using geo(6) by (auto intro: gr0I)
  have p: "p < 2 ^ 31" using geo(3,6) by linarith
  have prod: "(of_nat Q * of_nat S :: s32) \<noteq> 0"
    using of_nat_s32_eq_0_iff [OF geo(3)] Q S by simp
  note co = scull_coordinates [OF geo(3,4) Q S p]
  have pm: "p mod (Q * S) = p" using geo(6) by simp
  have s: "p div Q < S" "p div Q < 2 ^ 31"
    using scull_index_bound [OF Q geo(6)] geo(5) by simp_all
  have q: "p mod Q < 2 ^ 31" using geo(4) mod_less_divisor [OF Q, of p] by linarith
  have m: "?m < 2 ^ 31" "p mod Q + ?m \<le> Q" using scull_chunk_bounds [OF Q, where p = p and n = n] geo(4) by linarith+
  have follow: "scull_follow (dev\<lparr>dev_sem := c\<rparr>) (c_div (scast (of_nat p :: s64)) (of_nat Q * of_nat S))
      = Some 0" for c
    using co(1) geo(6) list by (simp add: scull_follow_first_only)
  have arr: "length (scull_array dev) = S"
    using wf list geo by (auto simp: scull_array_def scull_wf_def split: option.splits)
  have fromu: "from_user ua (map ubuf [0..<?m]) = (map ubuf [0..<?m], 0)"
    using uaccess_from_done [OF ua] ua(2) by (metis prod.collapse)
  have store: "buf_store buf (of_nat (p mod Q)) (map ubuf [0..<?m])
      = Inr (overwrite buf (p mod Q) (map ubuf [0..<?m]))"
    using m(2) buf(2) by (intro buf_store_of_nat [OF q]) simp
  have down: "down_interruptible False (dev_sem dev) = Inr (0, 0)"
    using wf by (simp add: scull_wf_def down_interruptible_def)
  have arrsel: "(case qs_data d0 of
      None \<Rightarrow> Some (replicate (unat (of_nat S * 4 :: s32) div 4) None)
    | Some qs \<Rightarrow> Some qs) = Some (scull_array dev)"
    using list geo(2,5)
    by (simp add: scull_array_def unat_of_nat_times4 split: option.splits)
  have bufsel: "(case scull_array dev ! (p div Q) of None \<Rightarrow> aq (of_nat Q) | Some b \<Rightarrow> Some b)
      = Some buf"
    using buf(1) geo(1) by (simp add: scull_buffer_def split: option.splits)
  have at: "array_at (scull_array dev) (of_nat (p div Q)) = Inr (scull_array dev ! (p div Q))"
    using s arr by (simp add: array_at_of_nat)
  have um: "unat (of_nat ?m :: u32) = ?m" "sint (of_nat ?m :: s32) = int ?m"
    using m(1) by simp_all
  have ip: "nat (sint (of_nat (p div Q) :: s32)) = p div Q" using s(2) by simp
  have sel: "dev_data (d\<lparr>dev_sem := c\<rparr>) = dev_data d" for d :: scull_dev and c
    by simp
  note co' = co [unfolded of_nat_mult pm]
  note chunk = scull_chunk_word [OF Q geo(4), of p n]
  have step: "scull_write ua False True aq ubuf n (of_nat p) dev =
    scull_out (Inr (int ?m)) [] (of_nat p + ucast (of_nat ?m :: u32))
       (let d = dev\<lparr>dev_sem := 0, dev_data := d0\<lparr>qs_data := Some ((scull_array dev)[p div Q :=
              Some (overwrite buf (p mod Q) (map ubuf [0..<?m]))])\<rparr> # ds\<rparr>;
            f_pos = of_nat p + ucast (of_nat ?m :: u32) :: s64 in
        if int (unat (dev_size d)) < sint f_pos then d\<lparr>dev_size := ucast f_pos\<rparr> else d)"
    by (simp only: scull_write_def Let_def geo(1,2) down seq_simps prod.case prod follow co' pm sel
       not_True_eq_False if_False if_True refl option.case list nth_Cons_0 list_update_code(2)
       arrsel at bufsel chunk um fromu store ip not_not)
  have pos: "of_nat p + ucast (of_nat ?m :: u32) = (of_nat (p + ?m) :: s64)"
    using m(1) by (simp add: ucast_of_nat_u32)
  have sz: "sint (of_nat (p + ?m) :: s64) = int (p + ?m)"
    "(ucast (of_nat (p + ?m) :: s64) :: u32) = of_nat (p + ?m)"
    using m(1) p sint_of_nat_s64 [of "p + ?m"] ucast_of_nat_s64 [of "p + ?m"]
    by (simp_all del: of_nat_add)
  show ?thesis
  proof (cases "unat (dev_size dev) < p + ?m")
    case True
    then have lt: "int (unat (dev_size dev)) < int (p + ?m)" by (simp only: of_nat_less_iff)
    have mx: "max (unat (dev_size dev)) (p + ?m) = p + ?m" using True by simp
    show ?thesis
      unfolding step pos Let_def sz mx scull_out_def using wf lt
      by (cases dev) (simp add: sem_up_def scull_wf_def del: of_nat_add)
  next
    case False
    then have le: "\<not> int (unat (dev_size dev)) < int (p + ?m)"
      by (simp only: of_nat_less_iff not_False_eq_True)
    have mx: "max (unat (dev_size dev)) (p + ?m) = unat (dev_size dev)" using False by simp
    show ?thesis
      unfolding step pos Let_def sz mx scull_out_def using wf le
      by (cases dev) (simp add: sem_up_def scull_wf_def del: of_nat_add)
  qed
qed

text \<open>The transfer a read makes is cut at the end of the device and at the end of the quantum.\<close>

lemma scull_read_eval:
  assumes wf: "scull_wf dev"
    and geo: "dev_quantum dev = of_nat Q" "dev_qset dev = of_nat S" "Q * S < 2 ^ 31" "Q < 2 ^ 31"
      "S < 2 ^ 29" "p < Q * S"
    and content: "scull_quantum_at dev (p div Q) = Some buf"
    and end_: "p < unat (dev_size dev)" "unat n \<le> unat (dev_size dev) - p"
    and ua: "uaccess_ok ua"
      "snd (to_user ua (take (scull_chunk Q n p) (drop (p mod Q) buf))) = 0"
  shows "scull_read ua False n (of_nat p) dev =
    (let m = scull_chunk Q n p in
     Inr (Inr (int m), take m (drop (p mod Q) buf), of_nat (p + m), dev))"
proof -
  let ?m = "scull_chunk Q n p"
  obtain d0 ds qs where list: "dev_data dev = d0 # ds" "qs_data d0 = Some qs"
      "p div Q < length qs" "qs ! (p div Q) = Some buf"
    using content by (auto simp: scull_quantum_at_def split: list.splits option.splits if_splits)
  have Q: "0 < Q" and S: "0 < S" using geo(6) by (auto intro: gr0I)
  have p: "p < 2 ^ 31" using geo(3,6) by linarith
  have prod: "(of_nat Q * of_nat S :: s32) \<noteq> 0"
    using of_nat_s32_eq_0_iff [OF geo(3)] Q S by simp
  note co = scull_coordinates [OF geo(3,4) Q S p]
  have pm: "p mod (Q * S) = p" using geo(6) by simp
  have s: "p div Q < 2 ^ 31" using scull_index_bound [OF Q geo(6)] geo(5) by simp
  have q: "p mod Q < 2 ^ 31" using geo(4) mod_less_divisor [OF Q, of p] by linarith
  have m: "?m < 2 ^ 31" "p mod Q + ?m \<le> Q"
    using scull_chunk_bounds [OF Q, where p = p and n = n] geo(4) by linarith+
  have len: "length buf = Q"
    using wf list geo(1,4) nth_mem [OF list(3)] by (auto simp: scull_wf_def)
  have follow: "scull_follow (dev\<lparr>dev_sem := c\<rparr>) (c_div (scast (of_nat p :: s64)) (of_nat Q * of_nat S))
      = Some 0" for c
    using co(1) geo(6) list by (simp add: scull_follow_first_only)
  have at: "array_at qs (of_nat (p div Q)) = Inr (Some buf)"
    using s list(3,4) by (simp add: array_at_of_nat)
  have range: "buf_range buf (of_nat (p mod Q)) ?m = Inr (take ?m (drop (p mod Q) buf))"
    using m(2) len by (intro buf_range_of_nat [OF q]) simp
  have tou: "to_user ua (take ?m (drop (p mod Q) buf)) = (take ?m (drop (p mod Q) buf), 0)"
    using uaccess_to_done [OF ua] ua(2) by (metis prod.collapse)
  have down: "down_interruptible False (dev_sem dev) = Inr (0, 0)"
    using wf by (simp add: scull_wf_def down_interruptible_def)
  have sel: "dev_data (d\<lparr>dev_sem := c\<rparr>) = dev_data d" "dev_size (d\<lparr>dev_sem := c\<rparr>) = dev_size d"
    for d :: scull_dev and c by simp_all
  have nsmall: "p + unat n < 2 ^ 33" using p unat_lt_u32 [of n] by simp
  have nw: "of_nat p + ucast n = (of_nat (p + unat n) :: s64)"
    using ucast_of_nat_u32 [of "unat n"] unat_lt_u32 [of n] by simp
  have past: "\<not> int (unat (dev_size dev)) \<le> sint (of_nat p :: s64)"
    "\<not> int (unat (dev_size dev)) < sint (of_nat (p + unat n) :: s64)"
  proof -
    have s: "sint (of_nat p :: s64) = int p" "sint (of_nat (p + unat n) :: s64) = int (p + unat n)"
      using p nsmall by (intro sint_of_nat_s64; simp)+
    show "\<not> int (unat (dev_size dev)) \<le> sint (of_nat p :: s64)"
      unfolding s of_nat_le_iff using end_(1) by simp
    show "\<not> int (unat (dev_size dev)) < sint (of_nat (p + unat n) :: s64)"
      unfolding s of_nat_less_iff using end_ by simp
  qed
  have um: "unat (of_nat ?m :: u32) = ?m" "sint (of_nat ?m :: s32) = int ?m"
    using m(1) by simp_all
  note co' = co [unfolded of_nat_mult pm]
  note chunk = scull_chunk_word [OF Q geo(4), of p n]
  have pos: "of_nat p + ucast (of_nat ?m :: u32) = (of_nat (p + ?m) :: s64)"
    using m(1) by (simp add: ucast_of_nat_u32)
  have "scull_read ua False n (of_nat p) dev =
    scull_out (Inr (int ?m)) (take ?m (drop (p mod Q) buf)) (of_nat (p + ?m)) (dev\<lparr>dev_sem := 0\<rparr>)"
    by (simp only: scull_read_def Let_def geo(1,2) down seq_simps prod.case prod follow co' pm sel
       not_True_eq_False if_False if_True refl option.case list nth_Cons_0 nw past
       at chunk um tou range pos not_not)
  then show ?thesis
    using wf by (simp add: scull_out_def sem_up_def scull_wf_def Let_def)
qed

lemma scull_array_length:
  "scull_wf dev \<Longrightarrow> dev_data dev = d0 # ds \<Longrightarrow> length (scull_array dev) = unat (dev_qset dev)"
  by (auto simp: scull_array_def scull_wf_def split: option.splits)

lemma scull_array_quanta:
  "scull_wf dev \<Longrightarrow> dev_data dev = d0 # ds \<Longrightarrow> Some buf \<in> set (scull_array dev) \<Longrightarrow>
     length buf = unat (dev_quantum dev)"
  by (auto simp: scull_array_def scull_wf_def split: option.splits)

lemma scull_quantum_at_array:
  "scull_wf dev \<Longrightarrow> dev_data dev = d0 # ds \<Longrightarrow>
     scull_quantum_at dev k = (if k < unat (dev_qset dev) then scull_array dev ! k else None)"
  by (auto simp: scull_quantum_at_def scull_array_def scull_wf_def split: option.splits)

lemma scull_same_quantum:
  assumes "0 < Q" "i < scull_chunk Q n p"
  shows "(p + i) div Q = p div Q" "(p + i) mod Q = p mod Q + i"
proof -
  have k: "p + i = p div Q * Q + (p mod Q + i)" by simp
  have lt: "p mod Q + i < Q"
    using assms(2) scull_chunk_bounds(1) [OF assms(1), of p n] by linarith
  show "(p + i) div Q = p div Q"
    using lt assms(1) by (subst k, subst div_mult_self3) simp_all
  show "(p + i) mod Q = p mod Q + i"
    using lt by (subst k, subst mod_mult_self3) simp
qed

lemma scull_buffer_eq:
  assumes "scull_wf dev" "dev_data dev \<noteq> []" "scull_quantum_at dev k = Some b"
  shows "scull_buffer aq dev k = Some b"
proof -
  obtain d0 ds where l: "dev_data dev = d0 # ds" using assms(2) by (cases "dev_data dev") auto
  show ?thesis
    using assms(3) by (auto simp: scull_quantum_at_array [OF assms(1) l] scull_buffer_def split: if_splits)
qed

text \<open>The device after a write of \<open>bytes\<close> at \<open>p\<close> into the quantum \<open>buf\<close>.\<close>

definition scull_written :: "scull_dev \<Rightarrow> nat \<Rightarrow> u8 list \<Rightarrow> u8 list \<Rightarrow> scull_dev" where
  "scull_written dev p buf bytes =
     (let Q = unat (dev_quantum dev) in
      dev\<lparr>dev_data := (hd (dev_data dev))\<lparr>qs_data := Some ((scull_array dev)[p div Q :=
              Some (overwrite buf (p mod Q) bytes)])\<rparr> # tl (dev_data dev),
          dev_size := of_nat (max (unat (dev_size dev)) (p + length bytes))\<rparr>)"

lemma scull_written_quantum_at:
  assumes "scull_wf dev" "dev_data dev \<noteq> []" "p < unat (dev_quantum dev) * unat (dev_qset dev)"
  shows "scull_quantum_at (scull_written dev p buf bytes) k =
     (if k = p div unat (dev_quantum dev)
      then Some (overwrite buf (p mod unat (dev_quantum dev)) bytes) else scull_quantum_at dev k)"
proof -
  obtain d0 ds where l: "dev_data dev = d0 # ds" using assms(2) by (cases "dev_data dev") auto
  have "0 < unat (dev_quantum dev)" using assms(3) by (auto intro: gr0I)
  then have "p div unat (dev_quantum dev) < unat (dev_qset dev)"
    using assms(3) by (rule scull_index_bound)
  then show ?thesis
    using scull_array_length [OF assms(1) l]
    by (auto simp: scull_quantum_at_array [OF assms(1) l])
      (auto simp: scull_written_def Let_def scull_quantum_at_def l)
qed

lemma scull_written_wf:
  assumes "scull_wf dev" "dev_data dev \<noteq> []" "p < unat (dev_quantum dev) * unat (dev_qset dev)"
    and "length buf = unat (dev_quantum dev)"
    and "p mod unat (dev_quantum dev) + length bytes \<le> length buf"
  shows "scull_wf (scull_written dev p buf bytes)"
proof -
  obtain d0 ds where l: "dev_data dev = d0 # ds" using assms(2) by (cases "dev_data dev") auto
  have "length b = unat (dev_quantum dev)"
    if "Some b \<in> set ((scull_array dev)[i := Some (overwrite buf (p mod unat (dev_quantum dev)) bytes)])"
    for b i
    using that scull_array_quanta [OF assms(1) l] assms(4,5)
    by (auto dest!: set_update_subset_insert [THEN subsetD])
  then show ?thesis
    using assms(1) scull_array_length [OF assms(1) l]
    by (auto simp: scull_wf_def scull_written_def Let_def l)
qed

lemma scull_write_written:
  fixes n :: u32
  assumes wf: "scull_wf dev" "dev_data dev \<noteq> []"
    and p: "p < unat (dev_quantum dev) * unat (dev_qset dev)"
    and buf: "scull_buffer aq dev (p div unat (dev_quantum dev)) = Some buf"
      "length buf = unat (dev_quantum dev)"
  defines "m \<equiv> scull_chunk (unat (dev_quantum dev)) n p"
  shows "scull_write uaccess_mapped False True aq ubuf n (of_nat p) dev =
     Inr (Inr (int m), [], of_nat (p + m), scull_written dev p buf (map ubuf [0..<m]))"
proof -
  obtain d0 ds where l: "dev_data dev = d0 # ds" using wf(2) by (cases "dev_data dev") auto
  show ?thesis
    unfolding m_def
    by (subst scull_write_eval [where Q = "unat (dev_quantum dev)" and S = "unat (dev_qset dev)",
          OF wf(1) _ _ _ _ _ p l buf uaccess_mapped_ok])
      (use wf(1) in \<open>simp_all add: scull_wf_def scull_written_def Let_def l uaccess_mapped_def\<close>)
qed

subsection \<open>Every outcome of a write\<close>

text \<open>Refusals: beyond the first set, without memory for the array, without memory for the quantum.  In the
  last case the array that was made stays.\<close>

definition scull_arrayed :: "scull_dev \<Rightarrow> scull_dev" where
  "scull_arrayed dev = dev\<lparr>dev_data := (hd (dev_data dev))\<lparr>qs_data := Some (scull_array dev)\<rparr> # tl (dev_data dev)\<rparr>"

lemma scull_write_any_ptrs:
  assumes "dev_data dev = d0 # ds" and "qs_data d0 \<noteq> None"
  shows "scull_write ua intr ap aq ubuf n pos dev = scull_write ua intr True aq ubuf n pos dev"
proof -
  have "scull_follow (dev\<lparr>dev_sem := c\<rparr>) item = Some k \<Longrightarrow> qs_data (dev_data dev ! k) \<noteq> None" for c item k
    using assms by (auto simp: scull_follow_first_only split: if_splits)
  then have none: "qs_data (dev_data dev ! k) = None \<Longrightarrow> scull_follow (dev\<lparr>dev_sem := c\<rparr>) item \<noteq> Some k" for c item k
    by blast
  then show ?thesis
    unfolding scull_write_def Let_def
    by (cases "down_interruptible intr (dev_sem dev)")
      (auto simp: case_prod_unfold split: option.split dest: none)
qed

lemma scull_write_refused:
  assumes wf: "scull_wf dev"
    and geo: "dev_quantum dev = of_nat Q" "dev_qset dev = of_nat S" "Q * S < 2 ^ 31" "Q < 2 ^ 31"
      "S < 2 ^ 29" "0 < Q * S" "p < 2 ^ 31"
  shows "dev_data dev = [] \<or> Q * S \<le> p \<Longrightarrow>
      scull_write ua False ap aq ubuf n (of_nat p) dev = Inr (Inl EINVAL, [], of_nat p, dev)"
    and "dev_data dev = d0 # ds \<Longrightarrow> p < Q * S \<Longrightarrow> qs_data d0 = None \<Longrightarrow>
      scull_write ua False False aq ubuf n (of_nat p) dev = Inr (Inl EINVAL, [], of_nat p, dev)"
    and "dev_data dev = d0 # ds \<Longrightarrow> p < Q * S \<Longrightarrow> scull_buffer aq dev (p div Q) = None \<Longrightarrow>
      scull_write ua False True aq ubuf n (of_nat p) dev = Inr (Inl EINVAL, [], of_nat p, scull_arrayed dev)"
proof -
  have Q: "0 < Q" and S: "0 < S" using geo(6) by simp_all
  have prod: "(of_nat Q * of_nat S :: s32) \<noteq> 0"
    using of_nat_s32_eq_0_iff [OF geo(3)] Q S by simp
  note co = scull_coordinates [OF geo(3,4) Q S geo(7), unfolded of_nat_mult]
  have down: "down_interruptible False (dev_sem dev) = Inr (0, 0)"
    using wf by (simp add: scull_wf_def down_interruptible_def)
  have sem: "dev\<lparr>dev_sem := sem_up 0\<rparr> = dev" using wf by (cases dev) (simp add: sem_up_def scull_wf_def)
  have sel: "dev_data (d\<lparr>dev_sem := c\<rparr>) = dev_data d" for d :: scull_dev and c
    by simp
  note start = scull_write_def Let_def geo(1,2) down seq_simps prod.case prod not_True_eq_False if_False if_True refl
    option.case sel scull_out_def not_not
  show "scull_write ua False ap aq ubuf n (of_nat p) dev = Inr (Inl EINVAL, [], of_nat p, dev)"
    if "dev_data dev = [] \<or> Q * S \<le> p"
  proof -
    have follow: "scull_follow (dev\<lparr>dev_sem := 0\<rparr>) (c_div (scast (of_nat p :: s64)) (of_nat Q * of_nat S)) = None"
      using co(1) that by (auto simp: scull_follow_first_only)
    show ?thesis by (simp only: start follow) (simp add: sem)
  qed
  show "scull_write ua False False aq ubuf n (of_nat p) dev = Inr (Inl EINVAL, [], of_nat p, dev)"
    if "dev_data dev = d0 # ds" "p < Q * S" "qs_data d0 = None"
  proof -
    have follow: "scull_follow (dev\<lparr>dev_sem := 0\<rparr>) (c_div (scast (of_nat p :: s64)) (of_nat Q * of_nat S)) = Some 0"
      using co(1) that by (auto simp: scull_follow_first_only)
    show ?thesis by (simp only: start follow that(1,3) nth_Cons_0) (simp add: sem)
  qed
  show "scull_write ua False True aq ubuf n (of_nat p) dev = Inr (Inl EINVAL, [], of_nat p, scull_arrayed dev)"
    if l: "dev_data dev = d0 # ds" and p: "p < Q * S" and buf: "scull_buffer aq dev (p div Q) = None"
  proof -
    have follow: "scull_follow (dev\<lparr>dev_sem := 0\<rparr>) (c_div (scast (of_nat p :: s64)) (of_nat Q * of_nat S)) = Some 0"
      using co(1) l p by (auto simp: scull_follow_first_only)
    have arrsel: "(case qs_data d0 of
        None \<Rightarrow> Some (replicate (unat (of_nat S * 4 :: s32) div 4) None)
      | Some qs \<Rightarrow> Some qs) = Some (scull_array dev)"
      using l geo(2,5) by (simp add: scull_array_def unat_of_nat_times4 split: option.splits)
    have bufsel: "(case scull_array dev ! (p div Q) of None \<Rightarrow> aq (of_nat Q) | Some b \<Rightarrow> Some b) = None"
      using buf geo(1) by (simp add: scull_buffer_def split: option.splits)
    have arr: "length (scull_array dev) = S"
      using wf l geo by (auto simp: scull_array_def scull_wf_def split: option.splits)
    have "p div Q < S" "p div Q < 2 ^ 31"
      using scull_index_bound [OF Q p] geo(5) by simp_all
    then have at: "array_at (scull_array dev) (of_nat (p div Q)) = Inr (scull_array dev ! (p div Q))"
      using arr by (simp add: array_at_of_nat)
    have pm: "p mod (Q * S) = p" using p by simp
    show ?thesis
      by (simp only: start follow l nth_Cons_0 arrsel co(2) pm at bufsel list_update_code(2))
        (use sem l in \<open>cases dev; simp add: scull_arrayed_def sem_up_def\<close>)
  qed
qed

lemma scull_arrayed_wf:
  assumes "scull_wf dev" and "dev_data dev \<noteq> []"
  shows "scull_wf (scull_arrayed dev)" "scull_byte (scull_arrayed dev) k = scull_byte dev k"
proof -
  obtain d0 ds where l: "dev_data dev = d0 # ds" using assms(2) by (cases "dev_data dev") auto
  show wf: "scull_wf (scull_arrayed dev)"
    using assms(1) scull_array_length [OF assms(1) l] scull_array_quanta [OF assms(1) l]
    by (auto simp: scull_wf_def scull_arrayed_def l)
  have "scull_quantum_at (scull_arrayed dev) i = scull_quantum_at dev i" for i
    using scull_array_length [OF assms(1) l]
    by (auto simp: scull_quantum_at_array [OF assms(1) l])
      (simp_all add: scull_arrayed_def scull_quantum_at_def l)
  then show "scull_byte (scull_arrayed dev) k = scull_byte dev k"
    by (simp add: scull_byte_def Let_def) (simp add: scull_arrayed_def)
qed

text \<open>The quantum a write at \<open>p\<close> stores into, if there is one or one can be had.\<close>

definition scull_target :: "bool \<Rightarrow> (u32 \<Rightarrow> u8 list option) \<Rightarrow> scull_dev \<Rightarrow> nat \<Rightarrow> u8 list option" where
  "scull_target ap aq dev p =
     (if dev_data dev = [] \<or> unat (dev_quantum dev) * unat (dev_qset dev) \<le> p \<or>
         qs_data (hd (dev_data dev)) = None \<and> \<not> ap then None
      else scull_buffer aq dev (p div unat (dev_quantum dev)))"

text \<open>Every outcome of an uninterrupted write with mapped memory.\<close>

lemma scull_write_outcomes:
  fixes n :: u32
  assumes wf: "scull_wf dev" and geo: "0 < unat (dev_quantum dev) * unat (dev_qset dev)" "p < 2 ^ 31"
    and aq: "\<forall>b. aq (dev_quantum dev) = Some b \<longrightarrow> length b = unat (dev_quantum dev)"
  defines "m \<equiv> scull_chunk (unat (dev_quantum dev)) n p"
  shows "case scull_target ap aq dev p of
      None \<Rightarrow> \<exists>dev'. scull_write uaccess_mapped False ap aq ubuf n (of_nat p) dev
          = Inr (Inl EINVAL, [], of_nat p, dev') \<and> (dev' = dev \<or> dev_data dev \<noteq> [] \<and> dev' = scull_arrayed dev)
    | Some buf \<Rightarrow> dev_data dev \<noteq> [] \<and> p < unat (dev_quantum dev) * unat (dev_qset dev) \<and>
        scull_buffer aq dev (p div unat (dev_quantum dev)) = Some buf \<and> length buf = unat (dev_quantum dev) \<and>
        scull_write uaccess_mapped False ap aq ubuf n (of_nat p) dev
          = Inr (Inr (int m), [], of_nat (p + m), scull_written dev p buf (map ubuf [0..<m]))"
proof -
  let ?Q = "unat (dev_quantum dev)" and ?S = "unat (dev_qset dev)"
  have g: "dev_quantum dev = of_nat ?Q" "dev_qset dev = of_nat ?S" "?Q * ?S < 2 ^ 31" "?Q < 2 ^ 31" "?S < 2 ^ 29"
    using wf by (simp_all add: scull_wf_def)
  note refused = scull_write_refused [OF wf g geo]
  show ?thesis
  proof (cases "dev_data dev = [] \<or> ?Q * ?S \<le> p")
    case True
    then have "scull_target ap aq dev p = None" by (auto simp: scull_target_def)
    then show ?thesis using refused(1) [OF True] by simp
  next
    case False
    then obtain d0 ds where l: "dev_data dev = d0 # ds" by (cases "dev_data dev") auto
    have p: "p < ?Q * ?S" using False by simp
    show ?thesis
    proof (cases "qs_data d0 = None \<and> \<not> ap")
      case True
      then show ?thesis using refused(2) [OF l p] l by (simp add: scull_target_def)
    next
      case got: False
      then have any: "scull_write ua False ap aq ubuf n pos dev = scull_write ua False True aq ubuf n pos dev" for ua pos
        using scull_write_any_ptrs [OF l] by (cases ap) auto
      have target: "scull_target ap aq dev p = scull_buffer aq dev (p div ?Q)"
        using got False l by (auto simp: scull_target_def)
      show ?thesis
      proof (cases "scull_buffer aq dev (p div ?Q)")
        case None
        then show ?thesis using refused(3) [OF l p None] l by (simp add: target any)
      next
        case (Some buf)
        have "length buf = ?Q"
        proof (cases "scull_array dev ! (p div ?Q)")
          case None
          then show ?thesis using Some aq by (simp add: scull_buffer_def)
        next
          case (Some b)
          have Q: "0 < ?Q" using geo(1) by simp
          have "Some b \<in> set (scull_array dev)"
            using Some scull_index_bound [OF Q p] scull_array_length [OF wf l] by (metis nth_mem)
          then show ?thesis
            using scull_array_quanta [OF wf l] Some \<open>scull_buffer aq dev (p div ?Q) = Some buf\<close>
            by (simp add: scull_buffer_def)
        qed
        then show ?thesis
          using scull_write_written [OF wf _ p Some] l p Some by (simp add: target any m_def)
      qed
    qed
  qed
qed

subsection \<open>A stored write\<close>

lemma scull_stored_read_back:
  assumes wf: "scull_wf dev" "dev_data dev \<noteq> []"
    and p: "p < unat (dev_quantum dev) * unat (dev_qset dev)"
    and buf: "scull_buffer aq dev (p div unat (dev_quantum dev)) = Some buf"
      "length buf = unat (dev_quantum dev)"
    and n: "0 < n"
  shows "\<exists>m dev'. m = min (unat n) (unat (dev_quantum dev) - p mod unat (dev_quantum dev)) \<and>
     scull_write uaccess_mapped False True aq ubuf n (of_nat p) dev
       = Inr (Inr (int m), [], of_nat (p + m), dev') \<and>
     scull_wf dev' \<and>
     scull_read uaccess_mapped False (of_nat m) (of_nat p) dev'
       = Inr (Inr (int m), map ubuf [0..<m], of_nat (p + m), dev')"
proof -
  let ?Q = "unat (dev_quantum dev)" and ?S = "unat (dev_qset dev)"
  let ?m = "scull_chunk ?Q n p"
  let ?dev = "scull_written dev p buf (map ubuf [0..<?m])"
  have Q: "0 < ?Q" using p by (auto intro: gr0I)
  have sizes: "?Q * ?S < 2 ^ 31" "?Q < 2 ^ 31" "?S < 2 ^ 29" using wf(1) by (simp_all add: scull_wf_def)
  note b = scull_chunk_bounds [OF Q, where p = p and n = n]
  have mpos: "0 < ?m"
    using n mod_less_divisor [OF Q, of p] by (simp add: scull_chunk_def word_less_nat_alt)
  have m31: "?m < 2 ^ 31" "p + ?m < 2 ^ 32" using b(3) sizes p by simp_all
  have wf': "scull_wf ?dev"
    using b(1) buf(2) by (intro scull_written_wf [OF wf p]) simp_all
  have same: "dev_quantum ?dev = dev_quantum dev" "dev_qset ?dev = dev_qset dev"
    by (simp_all add: scull_written_def Let_def)
  have um: "unat (of_nat ?m :: u32) = ?m" using m31 by simp
  have chunk: "scull_chunk ?Q (of_nat ?m) p = ?m"
  proof -
    have "scull_chunk ?Q (of_nat ?m) p = min (unat (of_nat ?m :: u32)) (?Q - p mod ?Q)"
      by (rule scull_chunk_def)
    then show ?thesis using b(1) um by simp
  qed
  have size: "unat (dev_size ?dev) = max (unat (dev_size dev)) (p + ?m)"
    using m31 unat_lt_u32 [of "dev_size dev"] by (simp add: scull_written_def Let_def max_def)
  have content: "scull_quantum_at ?dev (p div ?Q) = Some (overwrite buf (p mod ?Q) (map ubuf [0..<?m]))"
    by (simp add: scull_written_quantum_at [OF wf p])
  have "scull_read uaccess_mapped False (of_nat ?m) (of_nat p) ?dev =
     (let m = scull_chunk ?Q (of_nat ?m) p in
      Inr (Inr (int m), take m (drop (p mod ?Q) (overwrite buf (p mod ?Q) (map ubuf [0..<?m]))),
        of_nat (p + m), ?dev))"
    by (rule scull_read_eval [OF wf' _ _ sizes p content _ _ uaccess_mapped_ok])
      (use mpos size um in \<open>simp_all add: same uaccess_mapped_def\<close>)
  then have "scull_read uaccess_mapped False (of_nat ?m) (of_nat p) ?dev =
      Inr (Inr (int ?m), map ubuf [0..<?m], of_nat (p + ?m), ?dev)"
    using overwrite_range [of "p mod ?Q" "map ubuf [0..<?m]" buf] b(1) buf(2)
    by (simp add: chunk Let_def)
  then show ?thesis
    using scull_write_written [OF wf p buf, of ubuf n] wf'
    by (intro exI [of _ ?m] exI [of _ ?dev]) (simp add: scull_chunk_def)
qed

lemma scull_stored_bytes:
  fixes n :: u32 and ubuf :: "nat \<Rightarrow> u8" and p :: nat and dev :: scull_dev and buf :: "u8 list"
  assumes wf: "scull_wf dev" "dev_data dev \<noteq> []"
    and p: "p < unat (dev_quantum dev) * unat (dev_qset dev)"
    and buf: "scull_buffer aq dev (p div unat (dev_quantum dev)) = Some buf"
      "length buf = unat (dev_quantum dev)"
  defines "m \<equiv> scull_chunk (unat (dev_quantum dev)) n p"
    and "dev' \<equiv> scull_written dev p buf (map ubuf [0..<scull_chunk (unat (dev_quantum dev)) n p])"
  shows "(\<forall>k. p \<le> k \<and> k < p + m \<longrightarrow> scull_byte dev' k = Some (ubuf (k - p))) \<and>
     (\<forall>k. \<not> (p \<le> k \<and> k < p + m) \<and> scull_byte dev k \<noteq> None \<longrightarrow> scull_byte dev' k = scull_byte dev k) \<and>
     unat (dev_size dev') = max (unat (dev_size dev)) (p + m)"
proof -
  let ?Q = "unat (dev_quantum dev)" and ?S = "unat (dev_qset dev)"
  let ?m = "scull_chunk ?Q n p"
  let ?dev = "scull_written dev p buf (map ubuf [0..<?m])"
  have Q: "0 < ?Q" using p by (auto intro: gr0I)
  note b = scull_chunk_bounds [OF Q, where p = p and n = n]
  have m31: "p + ?m < 2 ^ 32" using b(3) wf(1) p by (simp add: scull_wf_def)
  have same: "dev_quantum ?dev = dev_quantum dev"
    by (simp add: scull_written_def Let_def)
  note at = scull_written_quantum_at [OF wf p, of buf "map ubuf [0..<?m]"]
  have inside: "scull_byte ?dev k = Some (ubuf (k - p))" if k: "p \<le> k" "k < p + ?m" for k
  proof -
    obtain i where i: "k = p + i" using le_Suc_ex [OF k(1)] by blast
    then have im: "i < ?m" using k(2) by simp
    show ?thesis
      using im b(1) buf(2) scull_same_quantum [OF Q im]
      by (simp add: i scull_byte_def Let_def same at nth_overwrite)
  qed
  have outside: "scull_byte ?dev k = scull_byte dev k"
    if "\<not> (p \<le> k \<and> k < p + ?m)" "scull_byte dev k \<noteq> None" for k
  proof (cases "k div ?Q = p div ?Q")
    case False
    then show ?thesis by (simp add: scull_byte_def Let_def same at)
  next
    case True
    with that(2) have old: "scull_quantum_at dev (p div ?Q) = Some buf"
      using buf(1) wf by (auto simp: scull_byte_def Let_def scull_buffer_eq)
    have "k mod ?Q < p mod ?Q \<or> p mod ?Q + ?m \<le> k mod ?Q"
    proof -
      define c where "c = p div ?Q * ?Q"
      have "k = c + k mod ?Q" using True by (metis c_def div_mult_mod_eq)
      moreover have "p = c + p mod ?Q" by (simp add: c_def)
      ultimately show ?thesis using that(1) by linarith
    qed
    then show ?thesis
      using True old b(1) buf(2) mod_less_divisor [OF Q, of k]
      by (auto simp: scull_byte_def Let_def same at nth_overwrite)
  qed
  have size: "unat (dev_size ?dev) = max (unat (dev_size dev)) (p + ?m)"
    using m31 unat_lt_u32 [of "dev_size dev"] by (simp add: scull_written_def Let_def max_def)
  show ?thesis
    unfolding m_def dev'_def using inside outside size by blast
qed

subsection \<open>Round trip and refinement of a byte store\<close>



definition fresh_quantum :: "u32 \<Rightarrow> u8 list option" where
  "fresh_quantum n = Some (replicate (unat n) 0)"

lemma scull_full_facts:
  "scull_wf scull_full" "dev_data scull_full \<noteq> []" "unat (dev_quantum scull_full) = 2"
  "unat (dev_qset scull_full) = 3"
  "scull_buffer fresh_quantum scull_full 1 = Some (replicate 2 0)"
  by (rule scull_full_wf)
    (simp_all add: scull_full_def scull_buffer_def scull_array_def fresh_quantum_def)



subsection \<open>Every exit releases the semaphore\<close>

text \<open>An operation in progress leaves the semaphore at \<open>c\<close> whenever it returns.\<close>

definition leaves_sem :: "nat \<Rightarrow> fault + int result \<times> u8 list \<times> s64 \<times> scull_dev \<Rightarrow> bool" where
  "leaves_sem c m \<longleftrightarrow> (\<forall>r bs pos d. m = Inr (r, bs, pos, d) \<longrightarrow> dev_sem d = c)"

lemma leaves_sem_fault: "leaves_sem c (Inl f)"
  by (simp add: leaves_sem_def)

lemma leaves_sem_out: "Suc (dev_sem d) = c \<Longrightarrow> leaves_sem c (scull_out ret bs pos d)"
  by (auto simp: leaves_sem_def scull_out_def sem_up_def)

lemma leaves_sem_seq: "(\<And>a. leaves_sem c (f a)) \<Longrightarrow> leaves_sem c (seq m f)"
  by (cases m) (auto simp: leaves_sem_fault)

lemma leaves_sem_if: "leaves_sem c x \<Longrightarrow> leaves_sem c y \<Longrightarrow> leaves_sem c (if b then x else y)"
  by simp

lemma leaves_sem_option:
  "leaves_sem c x \<Longrightarrow> (\<And>a. leaves_sem c (f a)) \<Longrightarrow>
     leaves_sem c (case z of None \<Rightarrow> x | Some a \<Rightarrow> f a)"
  by (cases z) auto

lemma leaves_sem_prod:
  "(\<And>a b. leaves_sem c (f a b)) \<Longrightarrow> leaves_sem c (case z of (a, b) \<Rightarrow> f a b)"
  by (cases z) auto

lemmas leaves_sem_intros =
  leaves_sem_fault leaves_sem_seq leaves_sem_if leaves_sem_option leaves_sem_prod leaves_sem_out

lemma scull_read_leaves_sem: "leaves_sem (dev_sem d) (scull_read ua intr n pos d)"
proof (cases "intr \<or> dev_sem d = 0")
  case True
  then show ?thesis by (auto simp: leaves_sem_def scull_read_def down_interruptible_def Let_def)
next
  case False
  then have "down_interruptible intr (dev_sem d) = Inr (0, dev_sem d - 1)" "dev_sem d \<noteq> 0"
    by (simp_all add: down_interruptible_def)
  then show ?thesis
    unfolding scull_read_def Let_def
    by (simp only: seq_simps prod.case not_True_eq_False if_False refl)
      (intro leaves_sem_intros; simp)
qed

lemma scull_write_leaves_sem: "leaves_sem (dev_sem d) (scull_write ua intr ap aq ubuf n pos d)"
proof (cases "intr \<or> dev_sem d = 0")
  case True
  then show ?thesis by (auto simp: leaves_sem_def scull_write_def down_interruptible_def Let_def)
next
  case False
  then have "down_interruptible intr (dev_sem d) = Inr (0, dev_sem d - 1)" "dev_sem d \<noteq> 0"
    by (simp_all add: down_interruptible_def)
  then show ?thesis
    unfolding scull_write_def Let_def
    by (simp only: seq_simps prod.case not_True_eq_False if_False refl)
      (intro leaves_sem_intros; simp)
qed

text \<open>Further (safety). Whatever path a read or a write takes out (end of file, missing quantum, failed
  allocation, failed copy, success), when it returns the semaphore is as it found it: it is
  released exactly when it was acquired.\<close>

theorem scull_semaphore_balanced:
  "(\<forall>r bs pos' d'. scull_read ua intr n pos d = Inr (r, bs, pos', d') \<longrightarrow> dev_sem d' = dev_sem d) \<and>
   (\<forall>r bs pos' d'. scull_write ua intr ap aq ubuf n pos d = Inr (r, bs, pos', d') \<longrightarrow>
      dev_sem d' = dev_sem d)"
  using scull_read_leaves_sem [of d ua intr n pos]
    scull_write_leaves_sem [of d ua intr ap aq ubuf n pos]
  by (simp add: leaves_sem_def)

theorem scull_semaphore_balanced_witness:
  "scull_read uaccess_mapped True 4 0 scull_full = Inr (Inl ERESTARTSYS, [], 0, scull_full) \<and>
   dev_sem scull_full = 1"
proof -
  have r: "scull_read uaccess_mapped True 4 0 scull_full = Inr (Inl ERESTARTSYS, [], 0, scull_full)"
    by (simp add: scull_read_def down_interruptible_def)
  have "dev_sem scull_full = dev_sem scull_full"
    using conjunct1 [OF scull_semaphore_balanced] r by blast
  with r show ?thesis by (simp add: scull_full_def)
qed

subsection \<open>Unloading\<close>

lemma scull_setup_all:
  "added = (\<lambda>_. None) \<Longrightarrow>
     fold (scull_setup_cdev added) [0..<k] m =
       m\<lparr>sc_cdev := (if k = 0 then sc_cdev m
                     else Some (scull_major (sc_par m), scull_minor (sc_par m) + of_nat (k - 1))),
         sc_map := sc_map m @
           map (\<lambda>i. (scull_major (sc_par m), scull_minor (sc_par m) + of_nat i)) [0..<k]\<rparr>"
  by (induction k) (simp_all add: scull_setup_cdev_def Let_def)

lemma of_nat_u32_inj: "i < 2 ^ 32 \<Longrightarrow> j < 2 ^ 32 \<Longrightarrow> (of_nat i :: u32) = of_nat j \<longleftrightarrow> i = j"
  by (metis unat_of_nat_s32)

text \<open>Further (error). Unloading undoes only the last of the device numbers the module added: with
  \<open>n\<close> devices, \<open>n - 1\<close> numbers stay mapped to the unloaded module's \<open>cdev\<close>, and the region it
  registered stays registered.\<close>

theorem scull_exit_leaves_mappings:
  fixes devno_major :: s32
  assumes "sc_map m = []" "0 < sint (scull_nr_devs (sc_par m))"
  defines "n \<equiv> nat (sint (scull_nr_devs (sc_par m)))"
    and "maj \<equiv> (if scull_major (sc_par m) \<noteq> 0 then scull_major (sc_par m) else devno_major)"
  shows "\<exists>m'. scull_module_init None devno_major (\<lambda>_. None) m = (Inr 0, m') \<and>
     length (sc_map m') = n \<and> sc_region m' \<and>
     sc_map (scull_module_exit m') =
       map (\<lambda>i. (maj, scull_minor (sc_par m) + of_nat i)) [0..<n - 1] \<and>
     sc_region (scull_module_exit m')"
proof -
  let ?f = "\<lambda>i. (maj, scull_minor (sc_par m) + of_nat i)"
  have n: "0 < n" "n < 2 ^ 32"
    using assms(2) sint_lt [of "scull_nr_devs (sc_par m)"] by (simp_all add: n_def)
  then have split: "[0..<n] = [0..<n - 1] @ [n - 1]"
    by (metis One_nat_def Suc_pred upt_Suc_append zero_le)
  have "?f (n - 1) \<notin> ?f ` set [0..<n - 1]"
  proof
    assume "?f (n - 1) \<in> ?f ` set [0..<n - 1]"
    then obtain i where i: "i < n - 1" "(of_nat (n - 1) :: u32) = of_nat i" by auto
    have "n - 1 < 2 ^ 32" "i < 2 ^ 32" using i(1) n(2) by linarith+
    then have "n - 1 = i" using i(2) by (rule of_nat_u32_inj [THEN iffD1])
    then show False using i(1) by simp
  qed
  then have rm: "removeAll (?f (n - 1)) (map ?f [0..<n]) = map ?f [0..<n - 1]"
    unfolding split by (simp add: removeAll_id)
  have nn: "nat (sint (scull_nr_devs (sc_par m))) = n" by (simp only: n_def)
  note added = scull_setup_all [OF refl, where k = n]
  show ?thesis
    using assms(1) n(1) rm
    by (cases "scull_major (sc_par m) = 0")
      (simp_all add: scull_module_init_def scull_module_exit_def Let_def nn added maj_def)
qed

definition scull_unloaded :: scull_mod where
  "scull_unloaded = \<lparr>sc_dev = scull_dev_zero, sc_par = scull_defaults, sc_cdev = None, sc_map = [],
     sc_region = False\<rparr>"

theorem scull_exit_leaves_mappings_witness:
  "\<exists>m'. scull_module_init None 251 (\<lambda>_. None) scull_unloaded = (Inr 0, m') \<and>
     sc_map (scull_module_exit m') = [(251, 0), (251, 1), (251, 2)]"
proof -
  have "sc_map scull_unloaded = []" "0 < sint (scull_nr_devs (sc_par scull_unloaded))"
    by (simp_all add: scull_unloaded_def)
  from scull_exit_leaves_mappings [OF this, of 251] show ?thesis
    by (auto simp: scull_unloaded_def upt_rec)
qed

end
