(* ===== verification/Scull_Concurrent.thy ===== *)
theory Scull_Concurrent
  imports Scull Step_Systems
begin

text \<open>
  Several processes using one device at once (\<open>scull3/driver/scull3.c\<close>).  A transfer is taken apart
  at its copy from or to user memory, where it may sleep once it has found its quantum: until then
  it runs under the semaphore from \<open>down_interruptible\<close> on, and afterwards it updates position and
  size and releases the semaphore.  \<open>scull_open\<close> may come in between, because it takes no semaphore.
  The copy is the one point of interruption here; a write that sleeps in \<open>kmalloc\<close> before it is not
  taken apart further.
\<close>

subsection \<open>The two halves of a transfer\<close>

text \<open>The sizes of quanta and of pointer arrays, which a call reads before it takes the semaphore.\<close>

record scull_sizes =
  read_quantum :: s32
  read_qset :: s32

definition scull_sizes :: "scull_dev \<Rightarrow> scull_sizes" where
  "scull_sizes dev = \<lparr>read_quantum = dev_quantum dev, read_qset = dev_qset dev\<rparr>"

text \<open>The place a transfer has found: the quantum set, the entry of its array, the offset in the
  quantum, and the bytes to copy.\<close>

record scull_place =
  at_set :: nat
  at_entry :: s32
  at_offset :: s32
  to_copy :: u32

text \<open>\<open>goto out\<close> before the copy.\<close>

definition out_early :: "int result \<Rightarrow> scull_dev \<Rightarrow> fault + (int result + scull_place) \<times> scull_dev" where
  "out_early ret dev = Inr (Inl ret, dev\<lparr>dev_sem := sem_up (dev_sem dev)\<rparr>)"

definition scull_read_begin ::
    "scull_sizes \<Rightarrow> bool \<Rightarrow> u32 \<Rightarrow> s64 \<Rightarrow> scull_dev \<Rightarrow> fault + (int result + scull_place) \<times> scull_dev" where
  "scull_read_begin sizes interrupted cnt f_pos dev =
     (let quantum = read_quantum sizes; qset = read_qset sizes; itemsize = quantum * qset in
      seq (down_interruptible interrupted (dev_sem dev)) (\<lambda>(r, c).
        if r \<noteq> 0 then Inr (Inl (Inl ERESTARTSYS), dev) else
        let dev = dev\<lparr>dev_sem := c\<rparr> in
        if sint f_pos \<ge> int (unat (dev_size dev)) then out_early (Inr 0) dev else
        let cnt = (if sint (f_pos + ucast cnt) > int (unat (dev_size dev))
                     then ucast (ucast (dev_size dev) - f_pos) else cnt) in
        if itemsize = 0 then Inl DivByZero else
        let item = c_div (scast f_pos) itemsize; rest = c_mod (scast f_pos) itemsize;
            s_pos = c_div rest quantum; q_pos = c_mod rest quantum in
        case scull_follow dev item of
          None \<Rightarrow> out_early (Inr 0) dev
        | Some k \<Rightarrow>
           (case qs_data (dev_data dev ! k) of
              None \<Rightarrow> out_early (Inr 0) dev
            | Some qs \<Rightarrow>
                seq (array_at qs s_pos) (\<lambda>q.
                case q of
                  None \<Rightarrow> out_early (Inr 0) dev
                | Some buf \<Rightarrow>
                    Inr (Inr \<lparr>at_set = k, at_entry = s_pos, at_offset = q_pos,
                       to_copy = (if cnt > quantum - q_pos then quantum - q_pos else cnt)\<rparr>, dev)))))"

definition scull_read_finish :: "uaccess \<Rightarrow> scull_place \<Rightarrow> s64 \<Rightarrow> scull_dev \<Rightarrow>
    fault + int result \<times> u8 list \<times> s64 \<times> scull_dev" where
  "scull_read_finish ua x f_pos dev =
     (case qs_data (dev_data dev ! at_set x) of
        None \<Rightarrow> Inl NullDeref
      | Some qs \<Rightarrow>
          seq (array_at qs (at_entry x)) (\<lambda>q.
          case q of
            None \<Rightarrow> Inl NullDeref
          | Some buf \<Rightarrow>
              seq (buf_range buf (at_offset x) (unat (to_copy x))) (\<lambda>bs.
              let (got, left) = to_user ua bs in
              if left \<noteq> 0 then scull_out (Inl EFAULT) got f_pos dev
              else scull_out (Inr (sint (to_copy x))) got (f_pos + ucast (to_copy x)) dev)))"

definition scull_write_begin ::
    "scull_sizes \<Rightarrow> bool \<Rightarrow> bool \<Rightarrow> (u32 \<Rightarrow> u8 list option) \<Rightarrow> u32 \<Rightarrow> s64 \<Rightarrow> scull_dev \<Rightarrow>
       fault + (int result + scull_place) \<times> scull_dev" where
  "scull_write_begin sizes interrupted alloc_ptrs alloc_quantum cnt f_pos dev =
     (let quantum = read_quantum sizes; qset = read_qset sizes; itemsize = quantum * qset in
      seq (down_interruptible interrupted (dev_sem dev)) (\<lambda>(r, c).
        if r \<noteq> 0 then Inr (Inl (Inl ERESTARTSYS), dev) else
        let dev = dev\<lparr>dev_sem := c\<rparr> in
        if itemsize = 0 then Inl DivByZero else
        let item = c_div (scast f_pos) itemsize; rest = c_mod (scast f_pos) itemsize;
            s_pos = c_div rest quantum; q_pos = c_mod rest quantum in
        case scull_follow dev item of
          None \<Rightarrow> out_early (Inl EINVAL) dev
        | Some k \<Rightarrow>
           (let store = (\<lambda>qs d. d\<lparr>dev_data := (dev_data d)[k := (dev_data d ! k)\<lparr>qs_data := qs\<rparr>]\<rparr>) in
            case (case qs_data (dev_data dev ! k) of
                    Some qs \<Rightarrow> Some qs
                  | None \<Rightarrow> if alloc_ptrs then Some (replicate (unat (qset * 4) div 4) None) else None) of
              None \<Rightarrow> out_early (Inl EINVAL) dev
            | Some qs \<Rightarrow>
                seq (array_at qs s_pos) (\<lambda>q.
                case (case q of Some buf \<Rightarrow> Some buf | None \<Rightarrow> alloc_quantum quantum) of
                  None \<Rightarrow> out_early (Inl EINVAL) (store (Some qs) dev)
                | Some buf \<Rightarrow>
                    Inr (Inr \<lparr>at_set = k, at_entry = s_pos, at_offset = q_pos,
                        to_copy = (if cnt > quantum - q_pos then quantum - q_pos else cnt)\<rparr>,
                      store (Some (qs[nat (sint s_pos) := Some buf])) dev)))))"

definition scull_write_finish :: "uaccess \<Rightarrow> (nat \<Rightarrow> u8) \<Rightarrow> scull_place \<Rightarrow> s64 \<Rightarrow> scull_dev \<Rightarrow>
    fault + int result \<times> u8 list \<times> s64 \<times> scull_dev" where
  "scull_write_finish ua ubuf x f_pos dev =
     (case qs_data (dev_data dev ! at_set x) of
        None \<Rightarrow> Inl NullDeref
      | Some qs \<Rightarrow>
          seq (array_at qs (at_entry x)) (\<lambda>q.
          case q of
            None \<Rightarrow> Inl NullDeref
          | Some buf \<Rightarrow>
              (let (got, left) = from_user ua (map ubuf [0..<unat (to_copy x)]) in
               seq (buf_store buf (at_offset x) got) (\<lambda>buf'.
               let dev = dev\<lparr>dev_data := (dev_data dev)[at_set x :=
                     (dev_data dev ! at_set x)\<lparr>qs_data := Some (qs[nat (sint (at_entry x)) := Some buf'])\<rparr>]\<rparr> in
               if left \<noteq> 0 then scull_out (Inl EFAULT) [] f_pos dev
               else
                 let f_pos = f_pos + ucast (to_copy x) in
                 scull_out (Inr (sint (to_copy x))) [] f_pos
                   (if int (unat (dev_size dev)) < sint f_pos
                    then dev\<lparr>dev_size := ucast f_pos\<rparr> else dev)))))"

subsection \<open>Without interruption the halves are the operation\<close>

text \<open>Further (equivalence). A transfer whose two halves follow each other is \<^const>\<open>scull_read\<close>.\<close>

theorem scull_read_halves:
  "scull_read ua intr n pos dev =
     seq (scull_read_begin (scull_sizes dev) intr n pos dev) (\<lambda>(x, d). case x of
       Inl r \<Rightarrow> Inr (r, [], pos, d) | Inr x \<Rightarrow> scull_read_finish ua x pos d)"
proof (cases "down_interruptible intr (dev_sem dev)")
  case (Inl f)
  then show ?thesis by (simp add: scull_read_def scull_read_begin_def scull_sizes_def Let_def)
next
  case (Inr rc)
  then show ?thesis
    by (auto simp: scull_read_def scull_read_begin_def scull_read_finish_def scull_sizes_def Let_def out_early_def
        scull_out_def seq_def split: prod.splits option.splits sum.splits)
qed

lemma scull_follow_inside: "scull_follow dev item = Some k \<Longrightarrow> k < length (dev_data dev)"
  by (auto simp: scull_follow_first_only split: if_splits)

lemma array_at_inside: "array_at xs i = Inr v \<Longrightarrow> nat (sint i) < length xs \<and> \<not> sint i < 0"
  by (auto simp: array_at_def array_get_def split: if_splits)

lemma array_at_update:
  "array_at xs i = Inr v \<Longrightarrow> array_at (xs[nat (sint i) := w]) i = Inr w"
  by (auto simp: array_at_def array_get_def split: if_splits)

text \<open>The second half of a write on the device that the first half has prepared.\<close>

lemma scull_write_finish_stored:
  assumes "k < length (dev_data dev)" and "array_at qs s = Inr q"
  shows "scull_write_finish ua ubuf \<lparr>at_set = k, at_entry = s, at_offset = off, to_copy = cnt\<rparr> f_pos
      (dev\<lparr>dev_data := (dev_data dev)[k := (dev_data dev ! k)\<lparr>qs_data := Some (qs[nat (sint s) := Some buf])\<rparr>]\<rparr>) =
    (let store = (\<lambda>qs d. d\<lparr>dev_data := (dev_data d)[k := (dev_data d ! k)\<lparr>qs_data := qs\<rparr>]\<rparr>);
         (got, left) = from_user ua (map ubuf [0..<unat cnt]) in
     seq (buf_store buf off got) (\<lambda>buf'.
     let dev = store (Some (qs[nat (sint s) := Some buf'])) dev in
     if left \<noteq> 0 then scull_out (Inl EFAULT) [] f_pos dev
     else
       let f_pos = f_pos + ucast cnt in
       scull_out (Inr (sint cnt)) [] f_pos
         (if int (unat (dev_size dev)) < sint f_pos then dev\<lparr>dev_size := ucast f_pos\<rparr> else dev)))"
  by (cases "from_user ua (map ubuf [0..<unat cnt])")
    (use assms in \<open>simp add: scull_write_finish_def array_at_update Let_def cong: if_cong\<close>)

text \<open>Further (equivalence). Likewise for \<^const>\<open>scull_write\<close>.\<close>

theorem scull_write_halves:
  "scull_write ua intr ap aq ubuf n pos dev =
     seq (scull_write_begin (scull_sizes dev) intr ap aq n pos dev) (\<lambda>(x, d). case x of
       Inl r \<Rightarrow> Inr (r, [], pos, d) | Inr x \<Rightarrow> scull_write_finish ua ubuf x pos d)"
  (is "_ = seq _ ?finish")
proof (cases "down_interruptible intr (dev_sem dev)")
  case (Inl f)
  then show ?thesis by (simp add: scull_write_def scull_write_begin_def scull_sizes_def Let_def)
next
  case (Inr rc)
  obtain r c where rc: "rc = (r, c)" by (cases rc)
  let ?d = "dev\<lparr>dev_sem := c\<rparr>"
  let ?size = "dev_quantum dev * dev_qset dev"
  let ?rest = "c_mod (scast pos) ?size"
  define item where "item = c_div (scast pos) ?size"
  define s where "s = c_div ?rest (dev_quantum dev)"
  define off where "off = c_mod ?rest (dev_quantum dev)"
  define cnt where "cnt = (if n > dev_quantum dev - off then dev_quantum dev - off else n)"
  note names = item_def [symmetric] s_def [symmetric] off_def [symmetric] cnt_def [symmetric]
  note early = out_early_def scull_out_def
  show ?thesis
  proof (cases "r \<noteq> 0 \<or> ?size = 0")
    case True
    then show ?thesis using Inr by (auto simp: scull_write_def scull_write_begin_def scull_sizes_def Let_def rc)
  next
    case False
    then have go: "(r \<noteq> 0) = False" "(?size = 0) = False" by simp_all
    note unfold = scull_write_def scull_write_begin_def scull_sizes_def scull_sizes.select_convs Let_def Inr rc seq_simps prod.case go if_False names
    show ?thesis
    proof (cases "scull_follow ?d item")
      case None
      show ?thesis by (simp only: unfold None option.case) (simp add: early)
    next
      case (Some k)
      then have k: "k < length (dev_data ?d)" by (rule scull_follow_inside)
      define qsr where "qsr = (case qs_data (dev_data ?d ! k) of Some qs \<Rightarrow> Some qs
        | None \<Rightarrow> if ap then Some (replicate (unat (dev_qset dev * 4) div 4) None) else None)"
      show ?thesis
      proof (cases qsr)
        case None
        show ?thesis by (simp only: unfold Some option.case qsr_def [symmetric] None) (simp add: early)
      next
        case (Some qs)
        note unfold' = unfold \<open>scull_follow ?d item = Some k\<close> option.case qsr_def [symmetric] Some
        show ?thesis
        proof (cases "array_at qs s")
          case (Inl f)
          show ?thesis by (simp only: unfold' Inl)
        next
          case (Inr q)
          note stored = scull_write_finish_stored [OF k Inr]
          show ?thesis
            by (cases "case q of None \<Rightarrow> aq (dev_quantum dev) | Some buf \<Rightarrow> Some buf")
              (simp_all only: unfold' Inr option.case prod.case sum.case stored early)
        qed
      qed
    qed
  qed
qed

subsection \<open>Processes on one device\<close>

datatype scull_call =
    Do_open access_mode
  | Do_release
  | Do_read uaccess bool u32
  | Do_write uaccess bool bool "u32 \<Rightarrow> u8 list option" "nat \<Rightarrow> u8" u32

text \<open>The device, the file position of each process, the answers given so far, with the call that
  each answers, and the fault that has stopped the system, if any.\<close>

record scull_world =
  scull_shared :: scull_dev
  positions :: "nat \<Rightarrow> s64"
  answers :: "(nat \<times> scull_call \<times> int result \<times> u8 list) list"
  halted :: "fault option"

definition answered ::
    "nat \<Rightarrow> scull_call \<Rightarrow> fault + int result \<times> u8 list \<times> s64 \<times> scull_dev \<Rightarrow> scull_world \<Rightarrow> scull_world" where
  "answered p c res w =
     (case res of
        Inl f \<Rightarrow> w\<lparr>halted := Some f\<rparr>
      | Inr (r, bs, pos, d) \<Rightarrow>
          w\<lparr>scull_shared := d, positions := (positions w)(p := pos), answers := answers w @ [(p, c, r, bs)]\<rparr>)"

text \<open>A call that nothing interrupts.\<close>

fun scull_perform :: "scull_params \<Rightarrow> scull_call \<Rightarrow> s64 \<Rightarrow> scull_dev \<Rightarrow>
    fault + int result \<times> u8 list \<times> s64 \<times> scull_dev" where
  "scull_perform par (Do_open m) pos d = seq (scull_open par m d) (\<lambda>(r, d'). Inr (r, [], 0, d'))"
| "scull_perform par Do_release pos d = (let (r, d') = scull_release d in Inr (r, [], pos, d'))"
| "scull_perform par (Do_read ua intr n) pos d = scull_read ua intr n pos d"
| "scull_perform par (Do_write ua intr ap aq ubuf n) pos d = scull_write ua intr ap aq ubuf n pos d"

definition atomically :: "scull_params \<Rightarrow> nat \<times> scull_call \<Rightarrow> scull_world \<Rightarrow> scull_world" where
  "atomically par = (\<lambda>(p, c) w.
     if halted w \<noteq> None then w
     else answered p c (scull_perform par c (positions w p) (scull_shared w)) w)"

text \<open>A process that waits for the semaphore holds the sizes it has read.  A process inside a transfer
  holds the place it found, and how often the device had been trimmed by then: a trim frees every
  quantum, array and node there is, so that a later copy to or from that place touches freed memory.\<close>

datatype scull_pc =
    Idle
  | Waiting scull_call scull_sizes
  | Copying nat scull_call scull_place

fun is_copying :: "scull_pc \<Rightarrow> bool" where
  "is_copying (Copying t c x) \<longleftrightarrow> True"
| "is_copying pc \<longleftrightarrow> False"

record scull_procs =
  world :: scull_world
  trims :: nat
  procs :: "nat \<Rightarrow> scull_pc"
  used_freed :: bool

text \<open>A process calls; the semaphore has become free for a waiting one; a signal ends its wait; a transfer
  goes on from its copy.\<close>

datatype scull_event = Call nat scull_call | Wake nat | Signal nat | Finish nat

fun transfer :: "scull_call \<Rightarrow> bool" where
  "transfer (Do_open m) \<longleftrightarrow> False"
| "transfer Do_release \<longleftrightarrow> False"
| "transfer c \<longleftrightarrow> True"

fun signalled :: "scull_call \<Rightarrow> scull_call" where
  "signalled (Do_read ua intr n) = Do_read ua True n"
| "signalled (Do_write ua intr ap aq ubuf n) = Do_write ua True ap aq ubuf n"
| "signalled c = c"

fun scull_begin :: "scull_call \<Rightarrow> scull_sizes \<Rightarrow> s64 \<Rightarrow> scull_dev \<Rightarrow>
    fault + (int result + scull_place) \<times> scull_dev" where
  "scull_begin (Do_read ua intr n) sz pos d = scull_read_begin sz intr n pos d"
| "scull_begin (Do_write ua intr ap aq ubuf n) sz pos d = scull_write_begin sz intr ap aq n pos d"
| "scull_begin c sz pos d = Inr (Inl (Inr 0), d)"

fun scull_finish :: "scull_call \<Rightarrow> scull_place \<Rightarrow> s64 \<Rightarrow> scull_dev \<Rightarrow>
    fault + int result \<times> u8 list \<times> s64 \<times> scull_dev" where
  "scull_finish (Do_read ua intr n) x pos d = scull_read_finish ua x pos d"
| "scull_finish (Do_write ua intr ap aq ubuf n) x pos d = scull_write_finish ua ubuf x pos d"
| "scull_finish c x pos d = Inr (Inr 0, [], pos, d)"

text \<open>What the first half of a transfer does: wait, fault, answer at once, or go on to the copy.\<close>

definition entered :: "nat \<Rightarrow> scull_call \<Rightarrow> scull_sizes \<Rightarrow> scull_procs \<Rightarrow> scull_procs" where
  "entered p c sz s =
     (case scull_begin c sz (positions (world s) p) (scull_shared (world s)) of
        Inl Blocked \<Rightarrow> s\<lparr>procs := (procs s)(p := Waiting c sz)\<rparr>
      | Inl f \<Rightarrow> s\<lparr>world := (world s)\<lparr>halted := Some f\<rparr>\<rparr>
      | Inr (Inl r, d) \<Rightarrow>
          s\<lparr>world := answered p c (Inr (r, [], positions (world s) p, d)) (world s),
            procs := (procs s)(p := Idle)\<rparr>
      | Inr (Inr x, d) \<Rightarrow>
          s\<lparr>world := (world s)\<lparr>scull_shared := d\<rparr>, procs := (procs s)(p := Copying (trims s) c x)\<rparr>)"

definition finished :: "nat \<Rightarrow> scull_procs \<Rightarrow> scull_procs" where
  "finished p s =
     (case procs s p of
        Copying t c x \<Rightarrow>
          if t \<noteq> trims s then s\<lparr>used_freed := True\<rparr>
          else s\<lparr>world := answered p c (scull_finish c x (positions (world s) p) (scull_shared (world s)))
                   (world s),
                 procs := (procs s)(p := Idle)\<rparr>
      | _ \<Rightarrow> s)"

fun scull_event_step :: "scull_params \<Rightarrow> scull_event \<Rightarrow> scull_procs \<Rightarrow> scull_procs" where
  "scull_event_step par (Call p c) s =
     (if procs s p \<noteq> Idle then s
      else if transfer c then entered p c (scull_sizes (scull_shared (world s))) s
      else s\<lparr>world := atomically par (p, c) (world s),
             trims := (if c = Do_open O_WRONLY then trims s + 1 else trims s)\<rparr>)"
| "scull_event_step par (Wake p) s =
     (case procs s p of Waiting c sz \<Rightarrow> entered p c sz s | _ \<Rightarrow> s)"
| "scull_event_step par (Signal p) s =
     (case procs s p of Waiting c sz \<Rightarrow> entered p (signalled c) sz s | _ \<Rightarrow> s)"
| "scull_event_step par (Finish p) s = finished p s"

definition scull_concurrent :: "scull_params \<Rightarrow> scull_event \<Rightarrow> scull_procs \<Rightarrow> scull_procs" where
  "scull_concurrent par e s =
     (if halted (world s) \<noteq> None \<or> used_freed s then s else scull_event_step par e s)"

text \<open>The schedules in which no process opens the device write-only while a read or write of another is
  under way, from its call to its answer.\<close>

fun undisturbed :: "scull_event \<Rightarrow> scull_procs \<Rightarrow> bool" where
  "undisturbed (Call p (Do_open O_WRONLY)) s \<longleftrightarrow> (\<forall>q. procs s q = Idle)"
| "undisturbed e s \<longleftrightarrow> True"

inductive scull_sched :: "scull_params \<Rightarrow> scull_procs \<Rightarrow> scull_procs \<Rightarrow> bool" for par :: scull_params where
  sched_event: "undisturbed e s \<Longrightarrow> scull_sched par s (scull_concurrent par e s)"

definition scull_idle :: "scull_dev \<Rightarrow> scull_procs" where
  "scull_idle d = \<lparr>world = \<lparr>scull_shared = d, positions = (\<lambda>_. 0), answers = [], halted = None\<rparr>,
     trims = 0, procs = (\<lambda>_. Idle), used_freed = False\<rparr>"

text \<open>The calls answered, in the order of their answers, carried out one after the other.\<close>

definition one_by_one :: "scull_params \<Rightarrow> scull_dev \<Rightarrow> scull_procs \<Rightarrow> scull_world" where
  "one_by_one par d s =
     fold (atomically par) (map (\<lambda>(p, c, r, bs). (p, c)) (answers (world s))) (world (scull_idle d))"

subsection \<open>The schedules without a trim in the way\<close>

lemma transfer_signalled [simp]: "transfer (signalled c) = transfer c"
  by (cases c) simp_all

lemma scull_perform_halves:
  "transfer c \<Longrightarrow> scull_perform par c pos d =
     seq (scull_begin c (scull_sizes d) pos d) (\<lambda>(x, d). case x of
       Inl r \<Rightarrow> Inr (r, [], pos, d) | Inr x \<Rightarrow> scull_finish c x pos d)"
  by (cases c) (simp_all only: transfer.simps scull_perform.simps scull_begin.simps scull_finish.simps
      scull_read_halves scull_write_halves)

lemma scull_open_sem: "scull_open par m d = Inr (r, d') \<Longrightarrow> dev_sem d' = dev_sem d"
  by (auto simp: scull_open_def scull_trim_def seq_eq_Inr split: if_splits)

lemma scull_perform_sem:
  assumes "scull_perform par c pos d = Inr (r, bs, pos', d')"
  shows "dev_sem d' = dev_sem d"
  using assms scull_read_leaves_sem scull_write_leaves_sem scull_open_sem
  by (cases c) (auto simp: leaves_sem_def scull_release_def seq_eq_Inr)

lemma scull_read_begin_step:
  "scull_read_begin sz intr n pos d = Inr (x, d') \<Longrightarrow>
     scull_sizes d' = scull_sizes d \<and> (\<forall>y. x = Inr y \<longrightarrow> dev_sem d = Suc (dev_sem d'))"
  by (auto simp: scull_read_begin_def Let_def seq_eq_Inr down_interruptible_Inr out_early_def scull_sizes_def
      split: if_splits option.splits prod.splits)

lemma scull_write_begin_step:
  "scull_write_begin sz intr ap aq n pos d = Inr (x, d') \<Longrightarrow>
     scull_sizes d' = scull_sizes d \<and> (\<forall>y. x = Inr y \<longrightarrow> dev_sem d = Suc (dev_sem d'))"
  by (auto simp: scull_write_begin_def Let_def seq_eq_Inr down_interruptible_Inr out_early_def scull_sizes_def
      split: if_splits option.splits prod.splits)

lemma scull_begin_step:
  "scull_begin c sz pos d = Inr (x, d') \<Longrightarrow>
     scull_sizes d' = scull_sizes d \<and> (\<forall>y. x = Inr y \<longrightarrow> dev_sem d = Suc (dev_sem d'))"
  by (cases c) (auto dest: scull_read_begin_step scull_write_begin_step)

lemma scull_out_sizes: "scull_out r bs pos d = Inr (r', bs', pos', d') \<Longrightarrow> scull_sizes d' = scull_sizes d"
  by (auto simp: scull_out_def scull_sizes_def)

lemma scull_sizes_update [simp]:
  "scull_sizes (d\<lparr>dev_data := a\<rparr>) = scull_sizes d" "scull_sizes (d\<lparr>dev_size := b\<rparr>) = scull_sizes d"
  by (simp_all add: scull_sizes_def)

lemma scull_finish_sizes:
  "scull_finish c x pos d = Inr (r, bs, pos', d') \<Longrightarrow> scull_sizes d' = scull_sizes d"
proof (cases c)
  case (Do_read ua intr n)
  assume "scull_finish c x pos d = Inr (r, bs, pos', d')"
  then show ?thesis
    by (clarsimp simp: Do_read scull_read_finish_def Let_def seq_eq_Inr split: option.splits)
      (auto dest!: scull_out_sizes split: prod.splits if_splits)
next
  case (Do_write ua intr ap aq ubuf n)
  assume "scull_finish c x pos d = Inr (r, bs, pos', d')"
  then show ?thesis
    by (cases "from_user ua (map ubuf [0..<unat (to_copy x)])")
      (auto simp: Do_write scull_write_finish_def Let_def seq_eq_Inr dest!: scull_out_sizes
        split: option.splits if_splits)
qed simp_all

text \<open>Only a trim changes the sizes.\<close>

lemma scull_perform_sizes:
  assumes "scull_perform par c pos d = Inr (r, bs, pos', d')" and "c \<noteq> Do_open O_WRONLY"
  shows "scull_sizes d' = scull_sizes d"
proof (cases "transfer c")
  case True
  with assms(1) obtain x d1 where b: "scull_begin c (scull_sizes d) pos d = Inr (x, d1)"
    and f: "(case x of Inl r \<Rightarrow> Inr (r, [], pos, d1) | Inr x \<Rightarrow> scull_finish c x pos d1) = Inr (r, bs, pos', d')"
    by (auto simp: scull_perform_halves seq_eq_Inr)
  from f have "scull_sizes d' = scull_sizes d1"
    by (cases x) (auto dest: scull_finish_sizes)
  then show ?thesis using scull_begin_step [OF b] by simp
next
  case False
  then show ?thesis
    using assms by (cases c) (auto simp: scull_open_def scull_release_def split: if_splits)
qed

lemma scull_begin_waits:
  assumes "transfer c" and "dev_sem d = 0"
  shows "scull_begin c sz pos d = Inl Blocked \<or>
    (\<forall>sz d'. scull_begin c sz pos d' = Inr (Inl (Inl ERESTARTSYS), d'))"
  using assms
  by (cases c) (auto simp: scull_read_begin_def scull_write_begin_def down_interruptible_def Let_def
      split: prod.splits)

lemma answered_Inr [simp]:
  "answered p c (Inr (r, bs, pos, d)) w =
     w\<lparr>scull_shared := d, positions := (positions w)(p := pos), answers := answers w @ [(p, c, r, bs)]\<rparr>"
  by (simp add: answered_def)

lemma answered_Inl [simp]: "answered p c (Inl f) w = w\<lparr>halted := Some f\<rparr>"
  by (simp add: answered_def)

lemma one_by_one_next:
  "answers (world s') = answers (world s) @ [(p, c, r, bs)] \<Longrightarrow>
     one_by_one par d s' = atomically par (p, c) (one_by_one par d s)"
  by (simp add: one_by_one_def)

lemma one_by_one_same: "answers (world s') = answers (world s) \<Longrightarrow> one_by_one par d s' = one_by_one par d s"
  by (simp add: one_by_one_def)

text \<open>At most one process is inside a transfer, which began on the device of \<open>w\<close>.  The processes that wait
  hold the sizes that the device still has.\<close>

definition in_transfer :: "nat \<Rightarrow> scull_procs \<Rightarrow> scull_world \<Rightarrow> bool" where
  "in_transfer p s w \<longleftrightarrow>
     (\<exists>c x d. transfer c \<and> procs s p = Copying (trims s) c x \<and> (\<forall>q. q \<noteq> p \<longrightarrow> \<not> is_copying (procs s q)) \<and>
        scull_begin c (scull_sizes (scull_shared w)) (positions w p) (scull_shared w) = Inr (Inr x, d) \<and>
        world s = w\<lparr>scull_shared := d\<rparr>)"

definition waiting_ok :: "scull_procs \<Rightarrow> scull_dev \<Rightarrow> bool" where
  "waiting_ok s d \<longleftrightarrow> (\<forall>p c sz. procs s p = Waiting c sz \<longrightarrow> transfer c \<and> sz = scull_sizes d)"

definition agrees :: "scull_procs \<Rightarrow> scull_world \<Rightarrow> bool" where
  "agrees s w \<longleftrightarrow> dev_sem (scull_shared w) = 1 \<and> halted w = None \<and> waiting_ok s (scull_shared w) \<and>
     ((\<forall>p. \<not> is_copying (procs s p)) \<and> world s = w \<or> (\<exists>p. in_transfer p s w))"

definition scull_linear :: "scull_params \<Rightarrow> scull_dev \<Rightarrow> scull_procs \<Rightarrow> bool" where
  "scull_linear par d s \<longleftrightarrow> \<not> used_freed s \<and>
     (halted (world s) = None \<longrightarrow> agrees s (one_by_one par d s))"

lemma agrees_cases:
  assumes "agrees s w"
  obtains (rest) "\<forall>p. \<not> is_copying (procs s p)" "world s = w" "dev_sem (scull_shared w) = 1" "halted w = None"
      "waiting_ok s (scull_shared w)"
  | (copying) p c x d where "transfer c" "procs s p = Copying (trims s) c x"
      "\<forall>q. q \<noteq> p \<longrightarrow> \<not> is_copying (procs s q)"
      "scull_begin c (scull_sizes (scull_shared w)) (positions w p) (scull_shared w) = Inr (Inr x, d)"
      "world s = w\<lparr>scull_shared := d\<rparr>"
      "dev_sem (scull_shared w) = 1" "halted w = None" "waiting_ok s (scull_shared w)"
      "dev_sem d = 0" "scull_sizes d = scull_sizes (scull_shared w)"
proof -
  have w: "dev_sem (scull_shared w) = 1" "halted w = None" "waiting_ok s (scull_shared w)"
    and "(\<forall>p. \<not> is_copying (procs s p)) \<and> world s = w \<or> (\<exists>p. in_transfer p s w)"
    using assms by (simp_all add: agrees_def)
  then consider "\<forall>p. \<not> is_copying (procs s p)" "world s = w" | p where "in_transfer p s w" by blast
  then show ?thesis
  proof cases
    case 1
    then show ?thesis using rest w by blast
  next
    case 2
    then obtain c x d where t: "transfer c" "procs s p = Copying (trims s) c x"
      "\<forall>q. q \<noteq> p \<longrightarrow> \<not> is_copying (procs s q)"
      "scull_begin c (scull_sizes (scull_shared w)) (positions w p) (scull_shared w) = Inr (Inr x, d)"
      "world s = w\<lparr>scull_shared := d\<rparr>"
      by (auto simp: in_transfer_def)
    then show ?thesis using copying [OF t w] scull_begin_step [OF t(4)] w(1) by simp
  qed
qed

text \<open>Answering a call between transfers is carrying it out.\<close>

lemma linear_answered:
  fixes s :: scull_procs and par :: scull_params and d :: scull_dev
  defines "w \<equiv> one_by_one par d s"
  assumes w: "halted w = None" "dev_sem (scull_shared w) = 1" "answers (world s) = answers w"
    and s': "world s' = answered p c (scull_perform par c (positions w p) (scull_shared w)) (w\<lparr>scull_shared := during\<rparr>)"
      "\<forall>q. \<not> is_copying (procs s' q)" "\<not> used_freed s'"
    and wait: "waiting_ok s' (scull_shared w)" "c = Do_open O_WRONLY \<longrightarrow> (\<forall>q. procs s' q = Idle)"
  shows "scull_linear par d s'"
proof (cases "scull_perform par c (positions w p) (scull_shared w)")
  case (Inl f)
  then show ?thesis using s' by (simp add: scull_linear_def)
next
  case (Inr a)
  then obtain r bs pos d1 where a: "scull_perform par c (positions w p) (scull_shared w) = Inr (r, bs, pos, d1)"
    by (cases a) auto
  have one: "one_by_one par d s' = atomically par (p, c) w"
    unfolding w_def by (rule one_by_one_next [where r = r and bs = bs]) (use s'(1) w(3) a in simp)
  have "waiting_ok s' d1"
    using wait scull_perform_sizes [OF a] by (cases "c = Do_open O_WRONLY") (auto simp: waiting_ok_def)
  then have "agrees s' (atomically par (p, c) w)"
    using scull_perform_sem [OF a] w s' by (simp add: agrees_def atomically_def a)
  then show ?thesis using s'(3) by (simp add: scull_linear_def one)
qed

text \<open>Nor does a call that leaves the device alone disturb the transfer of another process.\<close>

lemma linear_beside:
  fixes s s' :: scull_procs and par :: scull_params and d :: scull_dev
  defines "w \<equiv> one_by_one par d s"
  assumes copying: "transfer c'" "procs s p' = Copying (trims s) c' x"
      "\<forall>q. q \<noteq> p' \<longrightarrow> \<not> is_copying (procs s q)"
      "scull_begin c' (scull_sizes (scull_shared w)) (positions w p') (scull_shared w) = Inr (Inr x, during)"
      "world s = w\<lparr>scull_shared := during\<rparr>" "dev_sem (scull_shared w) = 1" "halted w = None"
      "waiting_ok s (scull_shared w)"
    and p: "p \<noteq> p'"
    and perf: "\<And>d1. scull_perform par c (positions w p) d1 = Inr (r, [], pos, d1)"
    and s': "world s' = answered p c (Inr (r, [], pos, during)) (w\<lparr>scull_shared := during\<rparr>)"
      "procs s' = (procs s)(p := Idle)" "trims s' = trims s" "\<not> used_freed s'"
  shows "scull_linear par d s'"
proof -
  have one: "one_by_one par d s' = atomically par (p, c) w"
    unfolding w_def by (rule one_by_one_next [where r = r and bs = "[]"]) (use s'(1) copying(5) in \<open>simp add: w_def\<close>)
  have at: "atomically par (p, c) w = w\<lparr>positions := (positions w)(p := pos), answers := answers w @ [(p, c, r, [])]\<rparr>"
    using copying(7) perf by (simp add: atomically_def)
  have "in_transfer p' s' (atomically par (p, c) w)"
    unfolding in_transfer_def at
    by (intro exI [of _ c'] exI [of _ x] exI [of _ during]) (use copying p s' in simp)
  moreover have "waiting_ok s' (scull_shared w)"
    using copying(8) s'(2) by (auto simp: waiting_ok_def split: if_splits)
  ultimately show ?thesis
    using s'(4) copying(6,7) unfolding scull_linear_def one agrees_def at by auto
qed

text \<open>Each event keeps the agreement: an open or a release, the first half of a transfer, with the sizes
  the device has, and the second half.\<close>

lemma linear_plain:
  assumes lin: "scull_linear par d s" "halted (world s) = None"
    and p: "procs s p = Idle" and c: "\<not> transfer c" and quiet: "undisturbed (Call p c) s"
  shows "scull_linear par d (scull_concurrent par (Call p c) s)"
proof -
  let ?w = "one_by_one par d s"
  let ?s = "scull_concurrent par (Call p c) s"
  have u: "\<not> used_freed s" and ag: "agrees s ?w" using lin by (simp_all add: scull_linear_def)
  have s': "?s = s\<lparr>world := atomically par (p, c) (world s),
      trims := (if c = Do_open O_WRONLY then trims s + 1 else trims s)\<rparr>"
    using u p c lin(2) by (simp add: scull_concurrent_def)
  from ag show ?thesis
  proof (cases rule: agrees_cases)
    case rest
    have wait: "waiting_ok ?s (scull_shared ?w)" using rest(5) unfolding s' by (simp add: waiting_ok_def)
    have trim: "c = Do_open O_WRONLY \<longrightarrow> (\<forall>q. procs ?s q = Idle)" unfolding s' using quiet by auto
    show ?thesis
      by (rule linear_answered [where s = s and p = p and c = c and during = "scull_shared ?w", OF _ _ _ _ _ _ wait trim])
        (use rest u in \<open>simp_all add: s' atomically_def\<close>)
  next
    case (copying p' c' x d')
    then have pp: "p \<noteq> p'" using p by auto
    have "c \<noteq> Do_open O_WRONLY" using quiet copying(2) by auto
    moreover from this obtain r where perf: "scull_perform par c (positions ?w p) d1 = Inr (Inr 0, [], r, d1)" for d1
      using c by (cases c) (auto simp: scull_open_def scull_release_def)
    ultimately show ?thesis
      by (intro linear_beside [OF copying(1-8) pp perf]) (use copying(5,7) perf u p in \<open>simp_all add: s' atomically_def fun_upd_idem\<close>)
  qed
qed

lemma linear_entered:
  assumes lin: "scull_linear par d s" "halted (world s) = None"
    and p: "\<not> is_copying (procs s p)" and c: "transfer c" and sz: "sz = scull_sizes (scull_shared (world s))"
  shows "scull_linear par d (entered p c sz s)"
proof -
  let ?w = "one_by_one par d s"
  let ?s = "entered p c sz s"
  have u: "\<not> used_freed s" and ag: "agrees s ?w" using lin by (simp_all add: scull_linear_def)
  from ag show ?thesis
  proof (cases rule: agrees_cases)
    case rest
    note half = scull_perform_halves [OF c, of par "positions ?w p" "scull_shared ?w"]
    have sz: "sz = scull_sizes (scull_shared ?w)" using sz rest(2) by simp
    show ?thesis
    proof (cases "scull_begin c sz (positions ?w p) (scull_shared ?w)")
      case (Inl f)
      show ?thesis
      proof (cases "f = Blocked")
        case True
        then have s': "?s = s\<lparr>procs := (procs s)(p := Waiting c sz)\<rparr>"
          using Inl rest(2) by (simp add: entered_def)
        then have "one_by_one par d ?s = ?w" by (simp add: one_by_one_def)
        moreover have "agrees ?s ?w"
          unfolding s' agrees_def using rest c sz by (auto simp: waiting_ok_def)
        ultimately show ?thesis using u by (simp add: scull_linear_def s')
      next
        case False
        then show ?thesis using Inl rest u by (cases f) (simp_all add: entered_def scull_linear_def)
      qed
    next
      case (Inr a)
      then obtain r d1 where "a = (r, d1)" by (cases a)
      note b = Inr [unfolded this]
      show ?thesis
      proof (cases r)
        case (Inl r')
        have "waiting_ok ?s (scull_shared ?w)"
          using rest(2,5) b Inl by (auto simp: entered_def waiting_ok_def split: if_splits)
        then show ?thesis
          by (intro linear_answered [where s = s and p = p and c = c and during = "scull_shared ?w"])
            (use rest u half b Inl sz c in \<open>auto simp: entered_def\<close>)
      next
        case (Inr x)
        have s': "?s = s\<lparr>world := ?w\<lparr>scull_shared := d1\<rparr>, procs := (procs s)(p := Copying (trims s) c x)\<rparr>"
          using b Inr rest(2) by (simp add: entered_def)
        then have "one_by_one par d ?s = ?w"
          by (intro one_by_one_same) (simp add: rest(2))
        moreover have "in_transfer p ?s ?w"
          unfolding in_transfer_def s' using rest b Inr c sz by auto
        moreover have "waiting_ok ?s (scull_shared ?w)"
          using rest(5) unfolding s' by (auto simp: waiting_ok_def)
        ultimately show ?thesis
          using rest(3,4) u unfolding scull_linear_def agrees_def by (auto simp: s')
      qed
    qed
  next
    case (copying p' c' x d')
    have pp: "p \<noteq> p'" using p copying(2) by auto
    have sz: "sz = scull_sizes (scull_shared ?w)" using sz copying(5,10) by simp
    show ?thesis
    proof (cases "scull_begin c sz (positions (world s) p) (scull_shared (world s)) = Inl Blocked")
      case True
      then have s': "?s = s\<lparr>procs := (procs s)(p := Waiting c sz)\<rparr>" by (simp add: entered_def)
      then have "one_by_one par d ?s = ?w" by (simp add: one_by_one_def)
      moreover have "in_transfer p' ?s ?w"
        unfolding in_transfer_def s'
        by (intro exI [of _ c'] exI [of _ x] exI [of _ d']) (use copying pp in simp)
      moreover have "waiting_ok ?s (scull_shared ?w)"
        using copying(8) c sz unfolding s' by (auto simp: waiting_ok_def)
      ultimately show ?thesis using u copying(6,7) unfolding scull_linear_def agrees_def by (auto simp: s')
    next
      case False
      then have at_once: "scull_begin c sz (positions ?w p) d1 = Inr (Inl (Inl ERESTARTSYS), d1)" for d1 sz
        using scull_begin_waits [OF c, of "scull_shared (world s)" sz "positions (world s) p"] copying(5,9)
          scull_begin_waits [OF c, of "scull_shared (world s)" _ "positions (world s) p"] by auto
      have perf: "scull_perform par c (positions ?w p) d1 = Inr (Inl ERESTARTSYS, [], positions ?w p, d1)" for d1
        by (simp add: scull_perform_halves [OF c] at_once)
      show ?thesis
        by (rule linear_beside [OF copying(1-8) pp perf]) (use copying(5) u in \<open>simp_all add: entered_def at_once\<close>)
    qed
  qed
qed

lemma linear_finish:
  assumes lin: "scull_linear par d s" "halted (world s) = None"
  shows "scull_linear par d (finished p s)"
proof (cases "is_copying (procs s p)")
  case False
  then show ?thesis using lin by (cases "procs s p") (simp_all add: finished_def)
next
  case True
  then obtain t c x where Copying: "procs s p = Copying t c x" by (cases "procs s p") simp_all
  let ?w = "one_by_one par d s"
  have u: "\<not> used_freed s" and ag: "agrees s ?w" using lin by (simp_all add: scull_linear_def)
  from ag show ?thesis
  proof (cases rule: agrees_cases)
    case rest
    then show ?thesis using True by simp
  next
    case (copying p' c' x' d')
    have "p' = p" using copying(3) True by metis
    then have p: "p' = p" "t = trims s" "c' = c" "x' = x" using copying(2) Copying by simp_all
    have half: "scull_perform par c (positions ?w p) (scull_shared ?w) = scull_finish c x (positions ?w p) d'"
      using scull_perform_halves [OF copying(1), of par "positions ?w p" "scull_shared ?w"] copying(4) p by simp
    have s': "finished p s = s\<lparr>world := answered p c (scull_finish c x (positions (world s) p) (scull_shared (world s)))
                   (world s), procs := (procs s)(p := Idle)\<rparr>"
      using Copying p by (simp add: finished_def)
    have wait: "waiting_ok (finished p s) (scull_shared ?w)"
      using copying(8) unfolding s' by (auto simp: waiting_ok_def split: if_splits)
    show ?thesis
      by (rule linear_answered [where s = s and p = p and c = c and during = d'])
        (use copying lin(2) u half p wait in \<open>auto simp: s'\<close>)
  qed
qed

lemma linear_step:
  assumes "scull_linear par d s" and "scull_sched par s t"
  shows "scull_linear par d t"
  using assms(2)
proof (cases rule: scull_sched.cases)
  case (sched_event e)
  show ?thesis
  proof (cases "halted (world s) = None")
    case False
    then show ?thesis using assms(1) sched_event(1) by (simp add: scull_concurrent_def)
  next
    case True
    have u: "\<not> used_freed s" using assms(1) by (simp add: scull_linear_def)
    have waiting: "transfer c \<and> sz = scull_sizes (scull_shared (world s))" if "procs s p = Waiting c sz" for p c sz
    proof -
      have "agrees s (one_by_one par d s)" using assms(1) True by (simp add: scull_linear_def)
      then show ?thesis
      proof (cases rule: agrees_cases)
        case rest
        then show ?thesis using that unfolding waiting_ok_def by metis
      next
        case (copying p' c' x d')
        then show ?thesis using that unfolding waiting_ok_def by simp
      qed
    qed
    note enter = linear_entered [OF assms(1) True]
    show ?thesis
    proof (cases e)
      case (Call p c)
      show ?thesis
      proof (cases "procs s p = Idle \<and> \<not> transfer c")
        case True
        then show ?thesis using linear_plain [OF assms(1) \<open>halted (world s) = None\<close>] sched_event Call by simp
      next
        case False
        then show ?thesis
          using assms(1) sched_event(1) Call True u enter [of p c] by (auto simp: scull_concurrent_def)
      qed
    next
      case (Wake p)
      then show ?thesis
        using assms(1) sched_event(1) True u enter [of p] waiting [of p]
        by (auto simp: scull_concurrent_def split: scull_pc.split)
    next
      case (Signal p)
      then show ?thesis
        using assms(1) sched_event(1) True u enter [of p] waiting [of p]
        by (auto simp: scull_concurrent_def split: scull_pc.split)
    next
      case (Finish p)
      then show ?thesis
        using linear_finish [OF assms(1) True, of p] sched_event(1) True u by (simp add: scull_concurrent_def)
    qed
  qed
qed

definition scull_ready :: "scull_dev \<Rightarrow> scull_procs \<Rightarrow> bool" where
  "scull_ready d s \<longleftrightarrow> s = scull_idle d \<and> dev_sem d = 1"

interpretation scull_lin: step_invariant "scull_ready d" "scull_sched par" "scull_linear par d" for par d
proof unfold_locales
  show "scull_ready d s \<Longrightarrow> scull_linear par d s" for s
    by (auto simp: scull_ready_def scull_linear_def agrees_def one_by_one_def scull_idle_def waiting_ok_def)
  show "scull_linear par d s \<Longrightarrow> scull_sched par s t \<Longrightarrow> scull_linear par d t" for s t
    by (rule linear_step)
qed

text \<open>C8 (equivalence). Over all interleavings of any number of processes, waits and signals included, in
  which nobody opens the device write-only while a read or write is under way, no transfer touches
  freed memory, at most one is inside its copy, and the answers given are those of the same calls
  carried out one after the other; whenever no transfer is inside its copy the device and the
  positions are too.\<close>

theorem scull_transfers_linear:
  assumes "reachable (scull_ready d) (scull_sched par) s"
  shows "\<not> used_freed s \<and>
    (halted (world s) = None \<longrightarrow>
       (\<forall>p q. is_copying (procs s p) \<and> is_copying (procs s q) \<longrightarrow> p = q) \<and>
       answers (world s) = answers (one_by_one par d s) \<and>
       ((\<forall>p. \<not> is_copying (procs s p)) \<longrightarrow> world s = one_by_one par d s))"
proof -
  have lin: "scull_linear par d s" using assms by (rule scull_lin.inv_reachable)
  have "(\<forall>p q. is_copying (procs s p) \<and> is_copying (procs s q) \<longrightarrow> p = q) \<and>
      answers (world s) = answers (one_by_one par d s) \<and>
      ((\<forall>p. \<not> is_copying (procs s p)) \<longrightarrow> world s = one_by_one par d s)"
    if "agrees s (one_by_one par d s)"
    using that
  proof (cases rule: agrees_cases)
    case rest
    then show ?thesis by simp
  next
    case (copying p c x d')
    have "p' = p" if "is_copying (procs s p')" for p' using that copying(3) by blast
    then show ?thesis using copying(2,5) by (metis is_copying.simps(1) scull_world.select_convs(3) scull_world.surjective scull_world.update_convs(1))
  qed
  then show ?thesis using lin by (simp add: scull_linear_def)
qed

subsection \<open>A trim in the way\<close>

text \<open>The arrays of a device as a trim expects them.\<close>

definition arrays_fit :: "scull_dev \<Rightarrow> bool" where
  "arrays_fit d \<longleftrightarrow> unat (dev_qset d) < 2 ^ 29 \<and>
     (\<forall>n\<in>set (dev_data d). \<forall>qs. qs_data n = Some qs \<longrightarrow> length qs = unat (dev_qset d))"

lemma arrays_fit_trim: "arrays_fit d \<Longrightarrow> \<exists>d'. scull_open par O_WRONLY d = Inr (Inr 0, d')"
  using trim_loop_ok [of "dev_qset d" "dev_data d"]
  by (simp add: arrays_fit_def scull_open_def scull_trim_def)

lemma arrays_fit_update:
  assumes "arrays_fit d" and "length qs = unat (dev_qset d)"
  shows "arrays_fit (d\<lparr>dev_data := (dev_data d)[k := (dev_data d ! k)\<lparr>qs_data := Some qs\<rparr>]\<rparr>)"
  using assms by (auto simp: arrays_fit_def dest!: set_update_subset_insert [THEN subsetD])

lemma arrays_fit_sem [simp]: "arrays_fit (d\<lparr>dev_sem := c\<rparr>) = arrays_fit d"
  by (simp add: arrays_fit_def)

lemma unat_times4: "unat (q :: s32) < 2 ^ 29 \<Longrightarrow> unat (q * 4) div 4 = unat q"
  using unat_of_nat_times4 [of "unat q"] by simp

lemma scull_begin_arrays:
  assumes "arrays_fit d" and "scull_begin c (scull_sizes d) pos d = Inr (Inr x, d')"
  shows "arrays_fit d'"
proof (cases c)
  case (Do_read ua intr n)
  then show ?thesis
    using assms by (auto simp: scull_read_begin_def scull_sizes_def Let_def seq_eq_Inr down_interruptible_Inr out_early_def
      split: if_splits option.splits)
next
  case (Do_write ua intr ap aq ubuf n)
  have k: "length qs = unat (dev_qset d)"
    if "scull_follow (d\<lparr>dev_sem := m\<rparr>) item = Some k" "qs_data (dev_data d ! k) = Some qs" for m item k qs
    using that scull_follow_inside [OF that(1)] assms(1) by (auto simp: arrays_fit_def)
  have store: "arrays_fit (d\<lparr>dev_sem := m, dev_data := (dev_data d)[k := (dev_data d ! k)\<lparr>qs_data := Some qs\<rparr>]\<rparr>)"
    if "length qs = unat (dev_qset d)" for k qs m
    using arrays_fit_update [of "d\<lparr>dev_sem := m\<rparr>" qs k] that assms(1) by simp
  have q: "unat (dev_qset d * 4) div 4 = unat (dev_qset d)"
    using assms(1) by (intro unat_times4) (simp add: arrays_fit_def)
  show ?thesis
    using assms(2) Do_write
    by (auto simp: scull_write_begin_def scull_sizes_def Let_def seq_eq_Inr down_interruptible_Inr out_early_def q
      intro!: store split: if_splits option.splits) (rule k; assumption)+
qed (use assms in simp_all)

text \<open>Further (error). The semaphore does not keep a trim out: when a transfer that has found its quantum on
  a well-formed device is followed by a write-only open of another process, which succeeds, the
  transfer goes on to copy from or to memory that the open has freed; without that open it does not.
  This needs a device that stores data, such as one whose first set has been made; this module never
  makes one, which hides the race.\<close>

theorem scull_trim_frees_under_transfer:
  assumes "scull_wf (scull_shared (world s))" and "halted (world s) = None" and "\<not> used_freed s"
    and "procs s p = Idle" and "procs s q = Idle" and "p \<noteq> q" and "transfer c"
    and "scull_begin c (scull_sizes (scull_shared (world s))) (positions (world s) p) (scull_shared (world s))
      = Inr (Inr x, d)"
  shows "used_freed (fold (scull_concurrent par) [Call p c, Call q (Do_open O_WRONLY), Finish p] s) \<and>
    \<not> used_freed (fold (scull_concurrent par) [Call p c, Finish p] s)"
proof -
  have "arrays_fit (scull_shared (world s))" using assms(1) by (simp add: arrays_fit_def scull_wf_def)
  then obtain d' where o: "scull_open par O_WRONLY d = Inr (Inr 0, d')"
    using scull_begin_arrays arrays_fit_trim assms(8) by blast
  have c: "scull_concurrent par (Call p c) s =
      s\<lparr>world := (world s)\<lparr>scull_shared := d\<rparr>, procs := (procs s)(p := Copying (trims s) c x)\<rparr>"
    using assms(2-4,7,8) by (simp add: scull_concurrent_def entered_def)
  show ?thesis
    unfolding fold_simps o_apply c using assms(2,3,5,6) o by (simp add: scull_concurrent_def finished_def atomically_def)
qed

definition two_procs :: scull_procs where
  "two_procs = scull_idle scull_full"

lemma two_procs_begin:
  "scull_begin (Do_read uaccess_mapped False 5) (scull_sizes (scull_shared (world two_procs)))
     (positions (world two_procs) 0) (scull_shared (world two_procs)) =
     Inr (Inr \<lparr>at_set = 0, at_entry = 0, at_offset = 0, to_copy = 2\<rparr>, scull_full\<lparr>dev_sem := 0\<rparr>)"
  by (simp add: two_procs_def scull_idle_def scull_read_begin_def scull_sizes_def down_interruptible_def scull_full_def
      scull_follow_first_only c_div_def c_mod_def array_at_def Let_def)

theorem scull_trim_frees_under_transfer_witness:
  "used_freed (fold (scull_concurrent scull_defaults)
     [Call 0 (Do_read uaccess_mapped False 5), Call 1 (Do_open O_WRONLY), Finish 0] two_procs)"
  by (rule conjunct1 [OF scull_trim_frees_under_transfer [OF _ _ _ _ _ _ _ two_procs_begin]])
    (simp_all add: two_procs_def scull_idle_def scull_full_wf)

text \<open>A reader is inside its transfer while another process opens the device for reading, and a third waits
  until a signal comes.\<close>

definition shared_run :: scull_procs where
  "shared_run = fold (scull_concurrent scull_defaults)
     [Call 0 (Do_read uaccess_mapped False 5), Call 1 (Do_open O_RDONLY), Call 2 (Do_read uaccess_mapped False 9),
      Signal 2, Finish 0] two_procs"

lemma shared_run_state:
  "shared_run = two_procs\<lparr>world := (world two_procs)\<lparr>answers :=
     [(1, Do_open O_RDONLY, Inr 0, []), (2, Do_read uaccess_mapped True 9, Inl ERESTARTSYS, []),
      (0, Do_read uaccess_mapped False 5, Inr 2, [1, 2])],
     positions := (\<lambda>_. 0)(0 := 2)\<rparr>\<rparr>"
proof -
  let ?x = "\<lparr>at_set = 0, at_entry = 0, at_offset = 0, to_copy = 2\<rparr> :: scull_place"
  let ?d = "scull_full\<lparr>dev_sem := 0\<rparr>"
  have first: "scull_read_begin (scull_sizes scull_full) False 5 0 scull_full = Inr (Inr ?x, ?d)"
    using two_procs_begin by (simp add: two_procs_def scull_idle_def)
  have second: "scull_read_finish uaccess_mapped ?x 0 ?d = Inr (Inr 2, [1, 2], 2, scull_full)"
    by (simp add: scull_read_finish_def scull_full_def array_at_def buf_range_def uaccess_mapped_def
        scull_out_def sem_up_def)
  have busy: "scull_read_begin sz False n pos ?d = Inl Blocked"
    "scull_read_begin sz True n pos ?d = Inr (Inl (Inl ERESTARTSYS), ?d)" for sz n pos
    by (simp_all add: scull_read_begin_def down_interruptible_def Let_def)
  show ?thesis
    by (simp add: shared_run_def two_procs_def scull_idle_def scull_concurrent_def entered_def finished_def
        first second busy atomically_def scull_open_def) (simp add: fun_eq_iff)
qed

lemma shared_run_reached: "reachable (scull_ready scull_full) (scull_sched scull_defaults) shared_run"
proof -
  have "scull_ready scull_full two_procs" by (simp add: scull_ready_def two_procs_def scull_full_def)
  then have start: "reachable (scull_ready scull_full) (scull_sched scull_defaults) two_procs" by (rule reach_init)
  note next_event = reach_step [where step = "scull_sched par" for par, OF _ sched_event]
  show ?thesis
    unfolding shared_run_def fold_simps o_apply
    by (intro next_event start) simp_all
qed

theorem scull_transfers_linear_witness:
  "answers (world shared_run) = answers (one_by_one scull_defaults scull_full shared_run) \<and>
   length (answers (world shared_run)) = 3"
  using scull_transfers_linear [OF shared_run_reached]
  by (simp add: shared_run_state) (simp add: two_procs_def scull_idle_def)

end
