(* ===== verification/Watchdog.thy ===== *)
theory Watchdog
  imports Kernel_Api
begin

text \<open>
  The watchdog driver (\<open>watchdog/driver/watchdog.c\<close>): its globals, the timer routines and the
  arithmetic that turns a timeout in seconds into a prescaler and a count.  The spin lock
  \<open>wdt_lock\<close> only brackets register accesses, so each routine is one step here; debug output is
  left out.  The bit layout of the control register comes from a header outside the repository
  and is a parameter (\<open>wdt_hdr\<close>); \<open>wdt_hdr_ok\<close> states the documented layout.
\<close>

datatype wdt_reg = WTCON | WTDAT | WTCNT

record wdt_hdr =
  S3C2410_WTCON_ENABLE :: u32
  S3C2410_WTCON_RSTEN :: u32
  S3C2410_WTCON_INTEN :: u32
  S3C2410_WTCON_DIV128 :: u32
  S3C2410_WTCON_PRESCALE_MASK :: u32
  S3C2410_WTCON_PRESCALE :: "u32 \<Rightarrow> u32"

definition wdt_hdr_ok :: "wdt_hdr \<Rightarrow> bool" where
  "wdt_hdr_ok h \<longleftrightarrow>
     S3C2410_WTCON_ENABLE h = 0x20 \<and> S3C2410_WTCON_RSTEN h = 0x01 \<and> S3C2410_WTCON_INTEN h = 0x04 \<and>
     S3C2410_WTCON_DIV128 h = 0x18 \<and> S3C2410_WTCON_PRESCALE_MASK h = 0xff00 \<and>
     S3C2410_WTCON_PRESCALE h = push_bit 8"

definition s3c2440_wdt :: wdt_hdr where
  "s3c2440_wdt = \<lparr>S3C2410_WTCON_ENABLE = 0x20, S3C2410_WTCON_RSTEN = 0x01,
     S3C2410_WTCON_INTEN = 0x04, S3C2410_WTCON_DIV128 = 0x18,
     S3C2410_WTCON_PRESCALE_MASK = 0xff00, S3C2410_WTCON_PRESCALE = push_bit 8\<rparr>"

lemma s3c2440_wdt_ok [simp]: "wdt_hdr_ok s3c2440_wdt"
  by (simp add: wdt_hdr_ok_def s3c2440_wdt_def)

text \<open>The module's globals: \<open>nowayout\<close>, \<open>tmr_margin\<close>, \<open>tmr_atboot\<close> and \<open>soft_noboot\<close> are its
  parameters, \<open>open_lock\<close> is the bit \<open>test_and_set_bit\<close> works on.  \<open>mod_refs\<close> counts the references \<open>__module_get\<close> took; \<open>wdt_held\<close> is
  the ledger of platform resources.\<close>

record wdt =
  nowayout :: s32
  tmr_margin :: s32
  tmr_atboot :: s32
  soft_noboot :: s32
  open_lock :: bool
  wdt_count :: u32
  expect_close :: u8
  wdt_regs :: "wdt_reg \<Rightarrow> u32"
  wtcon_save :: u32
  wtdat_save :: u32
  mod_refs :: nat
  wdt_mem :: bool   \<comment> \<open>not \<open>NULL\<close>\<close>
  wdt_irq :: "int option"
  wdt_held :: ledger

definition wdt_readl :: "wdt_reg \<Rightarrow> wdt \<Rightarrow> u32" where
  "wdt_readl r s = readl (wdt_regs s) r"

definition wdt_writel :: "u32 \<Rightarrow> wdt_reg \<Rightarrow> wdt \<Rightarrow> wdt" where
  "wdt_writel v r s = s\<lparr>wdt_regs := writel v r (wdt_regs s)\<rparr>"

subsection \<open>Timer routines\<close>

definition watchdog_keepalive :: "wdt \<Rightarrow> wdt" where
  "watchdog_keepalive s = wdt_writel (wdt_count s) WTCNT s"

definition watchdog_stop_unlocked :: "wdt_hdr \<Rightarrow> wdt \<Rightarrow> wdt" where
  "watchdog_stop_unlocked h s =
     (let wtcon = wdt_readl WTCON s;
          wtcon = wtcon AND NOT (S3C2410_WTCON_ENABLE h OR S3C2410_WTCON_RSTEN h)
      in wdt_writel wtcon WTCON s)"

definition watchdog_stop :: "wdt_hdr \<Rightarrow> wdt \<Rightarrow> wdt" where
  "watchdog_stop h s = watchdog_stop_unlocked h s"

definition watchdog_start :: "wdt_hdr \<Rightarrow> wdt \<Rightarrow> wdt" where
  "watchdog_start h s =
     (let s = watchdog_stop_unlocked h s;
          wtcon = wdt_readl WTCON s;
          wtcon = wtcon OR (S3C2410_WTCON_ENABLE h OR S3C2410_WTCON_DIV128 h);
          wtcon = (if soft_noboot s \<noteq> 0
                   then (wtcon OR S3C2410_WTCON_INTEN h) AND NOT (S3C2410_WTCON_RSTEN h)
                   else (wtcon AND NOT (S3C2410_WTCON_INTEN h)) OR S3C2410_WTCON_RSTEN h);
          s = wdt_writel (wdt_count s) WTDAT s;
          s = wdt_writel (wdt_count s) WTCNT s
      in wdt_writel wtcon WTCON s)"

subsection \<open>From seconds to prescaler and count\<close>

text \<open>The search loop: the first divisor up to \<open>0x100\<close> that brings the count below \<open>0x10000\<close>;
  when there is none the loop ends with \<open>0x101\<close>.\<close>

function wdt_divisor :: "u32 \<Rightarrow> u32 \<Rightarrow> u32" where
  "wdt_divisor cnt divisor =
     (if divisor \<le> 0x100
      then if cnt div divisor < 0x10000 then divisor else wdt_divisor cnt (divisor + 1)
      else divisor)"
  by pat_completeness auto
termination
proof (relation "measure (\<lambda>(cnt, divisor). 0x101 - unat divisor)")
  fix cnt divisor :: u32
  assume "divisor \<le> 0x100"
  then have "unat divisor \<le> 256" by (simp add: word_le_nat_alt)
  then have "unat (divisor + 1) = unat divisor + 1" by (simp add: unat_word_ariths)
  then show "((cnt, divisor + 1), cnt, divisor) \<in> measure (\<lambda>(cnt, divisor). 0x101 - unat divisor)"
    using \<open>unat divisor \<le> 256\<close> by simp
qed simp

declare wdt_divisor.simps [simp del]

text \<open>\<open>rate\<close> is what \<open>clk_get_rate\<close> gives; the product \<open>timeout * freq\<close> is an \<open>unsigned int\<close>.\<close>

definition watchdog_set_heartbeat :: "wdt_hdr \<Rightarrow> u32 \<Rightarrow> s32 \<Rightarrow> wdt \<Rightarrow> int result \<times> wdt" where
  "watchdog_set_heartbeat h rate timeout s =
     (if sint timeout < 1 then (Inl EINVAL, s) else
      let freq = rate div 128;
          cnt = timeout * freq;
          divisor = (if cnt \<ge> 0x10000 then wdt_divisor cnt 1 else 1)
      in if cnt \<ge> 0x10000 \<and> cnt div divisor \<ge> 0x10000 then (Inl EINVAL, s)
         else
           let s = s\<lparr>tmr_margin := timeout\<rparr>;
               cnt = cnt div divisor;
               s = s\<lparr>wdt_count := cnt\<rparr>;
               wtcon = wdt_readl WTCON s;
               wtcon = wtcon AND NOT (S3C2410_WTCON_PRESCALE_MASK h);
               wtcon = wtcon OR S3C2410_WTCON_PRESCALE h (divisor - 1);
               s = wdt_writel cnt WTDAT s
           in (Inr 0, wdt_writel wtcon WTCON s))"

subsection \<open>File operations\<close>

text \<open>\<open>open_lock\<close> is tested and set in one step; \<open>nonseekable_open\<close> always returns 0.\<close>

definition watchdog_open :: "wdt_hdr \<Rightarrow> wdt \<Rightarrow> int result \<times> wdt" where
  "watchdog_open h s =
     (if open_lock s then (Inl EBUSY, s)
      else let s = s\<lparr>open_lock := True\<rparr>;
               s = (if nowayout s \<noteq> 0 then s\<lparr>mod_refs := mod_refs s + 1\<rparr> else s);
               s = s\<lparr>expect_close := 0\<rparr>
           in (Inr 0, watchdog_start h s))"

definition watchdog_release :: "wdt_hdr \<Rightarrow> wdt \<Rightarrow> int result \<times> wdt" where
  "watchdog_release h s =
     (let s = (if expect_close s = 42 then watchdog_stop h s else watchdog_keepalive s);
          s = s\<lparr>expect_close := 0\<rparr>
      in (Inr 0, s\<lparr>open_lock := False\<rparr>))"

text \<open>The scan for the magic character; \<open>None\<close> is a byte \<open>get_user\<close> cannot read.  The flag is
  whether the scan reached the end.\<close>

fun write_scan :: "u8 option list \<Rightarrow> wdt \<Rightarrow> bool \<times> wdt" where
  "write_scan [] s = (True, s)"
| "write_scan (None # cs) s = (False, s)"
| "write_scan (Some c # cs) s = write_scan cs (if c = 86 then s\<lparr>expect_close := 42\<rparr> else s)"

definition watchdog_write :: "u8 option list \<Rightarrow> wdt \<Rightarrow> int result \<times> wdt" where
  "watchdog_write data s =
     (if data = [] then (Inr 0, s)
      else let (ok, s) = (if nowayout s = 0 then write_scan data (s\<lparr>expect_close := 0\<rparr>) else (True, s))
           in if ok then (Inr (int (length data)), watchdog_keepalive s) else (Inl EFAULT, s))"

datatype wdiof = WDIOF_SETTIMEOUT | WDIOF_KEEPALIVEPING | WDIOF_MAGICCLOSE

record watchdog_info =
  options :: "wdiof list"
  firmware_version :: u32
  identity :: string

definition watchdog_ident :: watchdog_info where
  "watchdog_ident = \<lparr>options = [WDIOF_SETTIMEOUT, WDIOF_KEEPALIVEPING, WDIOF_MAGICCLOSE],
     firmware_version = 0, identity = ''mini2440 Watchdog''\<rparr>"

datatype wdioc =
    WDIOC_GETSUPPORT | WDIOC_GETSTATUS | WDIOC_GETBOOTSTATUS | WDIOC_KEEPALIVE
  | WDIOC_SETTIMEOUT | WDIOC_GETTIMEOUT | WDIOC_other u32

text \<open>What a call wrote to the user's buffer.\<close>

datatype wdt_reply = Reply_none | Reply_ident watchdog_info | Reply_int s32

text \<open>\<open>got\<close> is the user's word, if it can be read; \<open>put\<close> whether the user's buffer can be written.\<close>

definition put_reply :: "bool \<Rightarrow> wdt_reply \<Rightarrow> wdt \<Rightarrow> int result \<times> wdt_reply \<times> wdt" where
  "put_reply put r s = (if put then (Inr 0, r, s) else (Inl EFAULT, Reply_none, s))"

definition watchdog_ioctl ::
    "wdt_hdr \<Rightarrow> u32 \<Rightarrow> wdioc \<Rightarrow> s32 option \<Rightarrow> bool \<Rightarrow> wdt \<Rightarrow> int result \<times> wdt_reply \<times> wdt" where
  "watchdog_ioctl h rate cmd got put s =
     (case cmd of
        WDIOC_GETSUPPORT \<Rightarrow> put_reply put (Reply_ident watchdog_ident) s
      | WDIOC_GETSTATUS \<Rightarrow> put_reply put (Reply_int 0) s
      | WDIOC_GETBOOTSTATUS \<Rightarrow> put_reply put (Reply_int 0) s
      | WDIOC_KEEPALIVE \<Rightarrow> (Inr 0, Reply_none, watchdog_keepalive s)
      | WDIOC_SETTIMEOUT \<Rightarrow>
          (case got of
             None \<Rightarrow> (Inl EFAULT, Reply_none, s)
           | Some new_margin \<Rightarrow>
               (case watchdog_set_heartbeat h rate new_margin s of
                  (Inl _, s) \<Rightarrow> (Inl EINVAL, Reply_none, s)
                | (Inr n, s) \<Rightarrow>
                    if n \<noteq> 0 then (Inl EINVAL, Reply_none, s)
                    else let s = watchdog_keepalive s
                         in put_reply put (Reply_int (tmr_margin s)) s))
      | WDIOC_GETTIMEOUT \<Rightarrow> put_reply put (Reply_int (tmr_margin s)) s
      | WDIOC_other _ \<Rightarrow> (Inl ENOTTY, Reply_none, s))"

definition watchdog_irq :: "wdt \<Rightarrow> wdt" where
  "watchdog_irq s = watchdog_keepalive s"

subsection \<open>The platform driver\<close>

text \<open>What the platform and the kernel answer to the calls of \<open>watchdog_probe\<close>.\<close>

record wdt_platform =
  pf_mem :: bool           \<comment> \<open>the memory resource exists\<close>
  pf_region :: bool        \<comment> \<open>\<open>request_mem_region\<close> grants it\<close>
  pf_map :: bool           \<comment> \<open>\<open>ioremap\<close> succeeds\<close>
  pf_irq :: "int option"   \<comment> \<open>the interrupt resource\<close>
  pf_irq_req :: outcome    \<comment> \<open>\<open>request_irq\<close>\<close>
  pf_clk :: outcome        \<comment> \<open>\<open>clk_get\<close>\<close>
  pf_rate :: u32           \<comment> \<open>\<open>clk_get_rate\<close>\<close>
  pf_misc :: outcome       \<comment> \<open>\<open>misc_register\<close>\<close>

definition wdt_hold :: "resource \<Rightarrow> wdt \<Rightarrow> wdt" where
  "wdt_hold r s = s\<lparr>wdt_held := take_res r (wdt_held s)\<rparr>"

definition wdt_drop :: "resource list \<Rightarrow> wdt \<Rightarrow> fault + wdt" where
  "wdt_drop rs s = seq (give_all rs (wdt_held s)) (\<lambda>l. Inr (s\<lparr>wdt_held := l\<rparr>))"

text \<open>\<open>release_resource\<close> follows its argument's parent pointer; \<open>kfree\<close> then frees it.\<close>

definition wdt_release_mem :: "wdt \<Rightarrow> fault + wdt" where
  "wdt_release_mem s =
     (if \<not> wdt_mem s then Inl NullDeref else wdt_drop [Mem_region, Mem_desc] s)"

definition wdt_free_irq :: "wdt \<Rightarrow> fault + wdt" where
  "wdt_free_irq s = (case wdt_irq s of None \<Rightarrow> Inl NullDeref | Some n \<Rightarrow> wdt_drop [Irq_line n] s)"

text \<open>The error exits of \<open>watchdog_probe\<close>, each falling through to the next.\<close>

definition wdt_err_req :: "errno \<Rightarrow> wdt \<Rightarrow> fault + int result \<times> wdt" where
  "wdt_err_req e s = seq (wdt_release_mem s) (\<lambda>s. Inr (Inl e, s))"

definition wdt_err_map :: "errno \<Rightarrow> wdt \<Rightarrow> fault + int result \<times> wdt" where
  "wdt_err_map e s = seq (wdt_drop [Io_map] s) (wdt_err_req e)"

definition wdt_err_irq :: "errno \<Rightarrow> wdt \<Rightarrow> fault + int result \<times> wdt" where
  "wdt_err_irq e s = seq (wdt_free_irq s) (wdt_err_map e)"

definition wdt_err_clk :: "errno \<Rightarrow> wdt \<Rightarrow> fault + int result \<times> wdt" where
  "wdt_err_clk e s = seq (wdt_drop [Clk_on, Clk_ref] s) (wdt_err_irq e)"

text \<open>The timer setting of \<open>watchdog_probe\<close>: the parameter, else the default of 15 seconds.\<close>

definition wdt_probe_margin :: "wdt_hdr \<Rightarrow> u32 \<Rightarrow> wdt \<Rightarrow> int result \<times> wdt" where
  "wdt_probe_margin h rate s =
     (let (r, s) = watchdog_set_heartbeat h rate (tmr_margin s) s
      in if r \<noteq> Inr 0 then watchdog_set_heartbeat h rate 15 s else (Inr 0, s))"

definition wdt_probe_start :: "wdt_hdr \<Rightarrow> int result \<Rightarrow> wdt \<Rightarrow> wdt" where
  "wdt_probe_start h started s =
     (if tmr_atboot s \<noteq> 0 \<and> started = Inr 0 then watchdog_start h s
      else if tmr_atboot s = 0 then watchdog_stop h s else s)"

definition watchdog_probe :: "wdt_hdr \<Rightarrow> wdt_platform \<Rightarrow> wdt \<Rightarrow> fault + int result \<times> wdt" where
  "watchdog_probe h pf s =
     (if \<not> pf_mem pf then Inr (Inl ENOENT, s) else
      let s = s\<lparr>wdt_mem := pf_region pf\<rparr> in
      if \<not> pf_region pf then wdt_err_req ENOENT s else
      let s = wdt_hold Mem_desc (wdt_hold Mem_region s) in
      if \<not> pf_map pf then wdt_err_req EINVAL s else
      let s = wdt_hold Io_map s;
          s = s\<lparr>wdt_irq := pf_irq pf\<rparr> in
      (case pf_irq pf of
         None \<Rightarrow> wdt_err_map ENOENT s
       | Some irq \<Rightarrow>
           (case pf_irq_req pf of
              Some e \<Rightarrow> wdt_err_map e s
            | None \<Rightarrow>
                let s = wdt_hold (Irq_line irq) s in
                (case pf_clk pf of
                   Some e \<Rightarrow> wdt_err_irq e s
                 | None \<Rightarrow>
                     let s = wdt_hold Clk_on (wdt_hold Clk_ref s);
                         (started, s) = wdt_probe_margin h (pf_rate pf) s in
                     (case pf_misc pf of
                        Some e \<Rightarrow> wdt_err_clk e s
                      | None \<Rightarrow> Inr (Inr 0, wdt_probe_start h started (wdt_hold Misc_dev s)))))))"

definition watchdog_remove :: "wdt \<Rightarrow> fault + int result \<times> wdt" where
  "watchdog_remove s =
     seq (wdt_release_mem s) (\<lambda>s.
     let s = s\<lparr>wdt_mem := False\<rparr> in
     seq (wdt_free_irq s) (\<lambda>s.
     let s = s\<lparr>wdt_irq := None\<rparr> in
     seq (wdt_drop [Clk_on, Clk_ref] s) (\<lambda>s.
     seq (wdt_drop [Io_map, Misc_dev] s) (\<lambda>s. Inr (Inr 0, s)))))"

definition watchdog_shutdown :: "wdt_hdr \<Rightarrow> wdt \<Rightarrow> wdt" where
  "watchdog_shutdown h s = watchdog_stop h s"

definition watchdog_suspend :: "wdt_hdr \<Rightarrow> wdt \<Rightarrow> int result \<times> wdt" where
  "watchdog_suspend h s =
     (let s = s\<lparr>wtcon_save := wdt_readl WTCON s\<rparr>;
          s = s\<lparr>wtdat_save := wdt_readl WTDAT s\<rparr>
      in (Inr 0, watchdog_stop h s))"

text \<open>The source writes \<open>WTCNT\<close> through \<open>wtd_base\<close>, a name it declares nowhere; \<open>wdt_base\<close> is
  what it can only mean.\<close>

definition watchdog_resume :: "wdt \<Rightarrow> int result \<times> wdt" where
  "watchdog_resume s =
     (let s = wdt_writel (wtdat_save s) WTDAT s;
          s = wdt_writel (wtdat_save s) WTCNT s
      in (Inr 0, wdt_writel (wtcon_save s) WTCON s))"

subsection \<open>Calls between an open and a release\<close>

datatype wdt_call =
    Call_write "u8 option list"
  | Call_ioctl wdioc "s32 option" bool
  | Call_irq

fun wdt_other :: "wdt_hdr \<Rightarrow> u32 \<Rightarrow> wdt_call \<Rightarrow> wdt \<Rightarrow> wdt" where
  "wdt_other h rate (Call_write data) s = snd (watchdog_write data s)"
| "wdt_other h rate (Call_ioctl cmd got put) s = snd (snd (watchdog_ioctl h rate cmd got put s))"
| "wdt_other h rate Call_irq s = watchdog_irq s"

datatype wdt_op = Op_open | Op_release | Op_call wdt_call

fun wdt_step :: "wdt_hdr \<Rightarrow> u32 \<Rightarrow> wdt_op \<Rightarrow> wdt \<Rightarrow> wdt" where
  "wdt_step h rate Op_open s = snd (watchdog_open h s)"
| "wdt_step h rate Op_release s = snd (watchdog_release h s)"
| "wdt_step h rate (Op_call c) s = wdt_other h rate c s"

subsection \<open>Registers after each routine\<close>

lemma wdt_readl_writel [simp, reg_simps]:
  "wdt_readl q (wdt_writel v r s) = (if q = r then v else wdt_readl q s)"
  by (simp add: wdt_readl_def wdt_writel_def readl_def writel_def)

lemma wdt_writel_fields [simp]:
  "nowayout (wdt_writel v r s) = nowayout s" "tmr_margin (wdt_writel v r s) = tmr_margin s"
  "soft_noboot (wdt_writel v r s) = soft_noboot s" "open_lock (wdt_writel v r s) = open_lock s"
  "wdt_count (wdt_writel v r s) = wdt_count s" "expect_close (wdt_writel v r s) = expect_close s"
  "wdt_held (wdt_writel v r s) = wdt_held s" "mod_refs (wdt_writel v r s) = mod_refs s"
  "tmr_atboot (wdt_writel v r s) = tmr_atboot s" "wtcon_save (wdt_writel v r s) = wtcon_save s"
  "wtdat_save (wdt_writel v r s) = wtdat_save s" "wdt_mem (wdt_writel v r s) = wdt_mem s"
  "wdt_irq (wdt_writel v r s) = wdt_irq s"
  by (simp_all add: wdt_writel_def)

lemma wdt_readl_update [simp]:
  "wdt_readl r (s\<lparr>tmr_margin := a\<rparr>) = wdt_readl r s" "wdt_readl r (s\<lparr>wdt_count := b\<rparr>) = wdt_readl r s"
  "wdt_readl r (s\<lparr>open_lock := c\<rparr>) = wdt_readl r s" "wdt_readl r (s\<lparr>expect_close := d\<rparr>) = wdt_readl r s"
  "wdt_readl r (s\<lparr>mod_refs := e\<rparr>) = wdt_readl r s" "wdt_readl r (s\<lparr>wdt_held := f\<rparr>) = wdt_readl r s"
  "wdt_readl r (s\<lparr>wdt_mem := a'\<rparr>) = wdt_readl r s" "wdt_readl r (s\<lparr>wdt_irq := b'\<rparr>) = wdt_readl r s"
  "wdt_readl r (s\<lparr>wtcon_save := g\<rparr>) = wdt_readl r s" "wdt_readl r (s\<lparr>wtdat_save := g\<rparr>) = wdt_readl r s"
  by (simp_all add: wdt_readl_def)

text \<open>The timer runs; it resets the board when it runs out.\<close>

definition wdt_enabled :: "wdt_hdr \<Rightarrow> wdt \<Rightarrow> bool" where
  "wdt_enabled h s \<longleftrightarrow> wdt_readl WTCON s AND S3C2410_WTCON_ENABLE h \<noteq> 0"

definition wdt_resets :: "wdt_hdr \<Rightarrow> wdt \<Rightarrow> bool" where
  "wdt_resets h s \<longleftrightarrow> wdt_readl WTCON s AND S3C2410_WTCON_RSTEN h \<noteq> 0"

subsection \<open>The divisor search\<close>

lemma wdt_divisor_spec:
  "1 \<le> unat d \<Longrightarrow> unat d \<le> 257 \<Longrightarrow>
     unat d \<le> unat (wdt_divisor cnt d) \<and> unat (wdt_divisor cnt d) \<le> 257 \<and>
     (\<forall>e. unat d \<le> e \<and> e < unat (wdt_divisor cnt d) \<longrightarrow> 65536 \<le> unat cnt div e) \<and>
     (unat (wdt_divisor cnt d) \<le> 256 \<longrightarrow> unat cnt div unat (wdt_divisor cnt d) < 65536)"
proof (induction cnt d rule: wdt_divisor.induct)
  case (1 cnt d)
  show ?case
  proof (cases "d \<le> 0x100")
    case False
    then have "unat d = 257" using 1(3) by (simp add: word_le_nat_alt)
    then show ?thesis using False by (subst (1 2 3 4 5) wdt_divisor.simps) simp
  next
    case True
    then have le: "unat d \<le> 256" by (simp add: word_le_nat_alt)
    then have s: "unat (d + 1) = unat d + 1" by (simp add: unat_word_ariths)
    have lt: "cnt div d < 0x10000 \<longleftrightarrow> unat cnt div unat d < 65536"
      by (simp add: word_less_nat_alt unat_div)
    show ?thesis
    proof (cases "cnt div d < 0x10000")
      case True': True
      then have "wdt_divisor cnt d = d" using True by (subst wdt_divisor.simps) simp
      then show ?thesis using lt True' le by simp
    next
      case False
      have eq: "wdt_divisor cnt d = wdt_divisor cnt (d + 1)"
        using True False by (subst wdt_divisor.simps) simp
      have IH: "unat d + 1 \<le> unat (wdt_divisor cnt (d + 1)) \<and> unat (wdt_divisor cnt (d + 1)) \<le> 257 \<and>
          (\<forall>e. unat d + 1 \<le> e \<and> e < unat (wdt_divisor cnt (d + 1)) \<longrightarrow> 65536 \<le> unat cnt div e) \<and>
          (unat (wdt_divisor cnt (d + 1)) \<le> 256 \<longrightarrow>
             unat cnt div unat (wdt_divisor cnt (d + 1)) < 65536)"
        using 1(1) [OF True False] s le by simp
      have "65536 \<le> unat cnt div unat d" using False lt by simp
      then show ?thesis unfolding eq using IH
        by (metis add_leD1 le_neq_implies_less less_eq_Suc_le Suc_eq_plus1)
    qed
  qed
qed

text \<open>The divisor that \<open>watchdog_set_heartbeat\<close> uses for a count.\<close>

definition wdt_divisor_for :: "u32 \<Rightarrow> u32" where
  "wdt_divisor_for cnt = (if cnt \<ge> 0x10000 then wdt_divisor cnt 1 else 1)"

lemma wdt_divisor_for_spec:
  "1 \<le> unat (wdt_divisor_for cnt) \<and> unat (wdt_divisor_for cnt) \<le> 257 \<and>
   (\<forall>e. 1 \<le> e \<and> e < unat (wdt_divisor_for cnt) \<longrightarrow> 65536 \<le> unat cnt div e) \<and>
   (unat (wdt_divisor_for cnt) \<le> 256 \<longrightarrow> unat cnt div unat (wdt_divisor_for cnt) < 65536)"
  using wdt_divisor_spec [of 1 cnt]
  by (auto simp: wdt_divisor_for_def word_le_nat_alt not_le)

lemma wdt_divisor_for_small:
  assumes "unat cnt < 2 ^ 24"
  shows "unat (wdt_divisor_for cnt) \<le> 256"
proof (rule ccontr)
  assume "\<not> unat (wdt_divisor_for cnt) \<le> 256"
  then have "65536 \<le> unat cnt div 256" using wdt_divisor_for_spec [of cnt] by auto
  with assms show False by (simp add: div_le_mono)
qed

lemma wdt_divisor_for_large:
  assumes "2 ^ 24 \<le> unat cnt"
  shows "wdt_divisor_for cnt = 257"
proof -
  have "unat (wdt_divisor_for cnt) > 256"
  proof (rule ccontr)
    assume "\<not> unat (wdt_divisor_for cnt) > 256"
    then have le: "unat (wdt_divisor_for cnt) \<le> 256" by simp
    then have "unat cnt div 256 \<le> unat cnt div unat (wdt_divisor_for cnt)"
      using wdt_divisor_for_spec [of cnt] by (intro div_le_mono2) auto
    also have "\<dots> < 65536" using le wdt_divisor_for_spec [of cnt] by blast
    finally show False using assms by (simp add: div_less_iff_less_mult)
  qed
  then have "unat (wdt_divisor_for cnt) = unat (257 :: u32)"
    using wdt_divisor_for_spec [of cnt] by auto
  then show ?thesis by (rule word_unat_eq_iff [THEN iffD2])
qed

text \<open>\<open>watchdog_set_heartbeat\<close> in one equation.\<close>

lemma watchdog_set_heartbeat_eq:
  "watchdog_set_heartbeat h rate timeout s =
     (let cnt = timeout * (rate div 128); d = wdt_divisor_for cnt in
      if sint timeout < 1 \<or> 0x1010000 \<le> unat cnt then (Inl EINVAL, s)
      else (Inr 0, wdt_writel ((wdt_readl WTCON s AND NOT (S3C2410_WTCON_PRESCALE_MASK h))
                               OR S3C2410_WTCON_PRESCALE h (d - 1)) WTCON
                  (wdt_writel (cnt div d) WTDAT
                    (s\<lparr>tmr_margin := timeout, wdt_count := cnt div d\<rparr>))))"
proof -
  define cnt where "cnt = timeout * (rate div 128)"
  define d where "d = wdt_divisor_for cnt"
  have "(cnt \<ge> 0x10000 \<and> cnt div d \<ge> 0x10000) \<longleftrightarrow> 0x1010000 \<le> unat cnt"
  proof (cases "unat cnt < 2 ^ 24")
    case True
    then have "unat cnt div unat d < 65536"
      using wdt_divisor_for_small wdt_divisor_for_spec unfolding d_def by blast
    then show ?thesis using True by (simp add: word_le_nat_alt unat_div)
  next
    case False
    then have "d = 257" using wdt_divisor_for_large unfolding d_def by simp
    then show ?thesis using False
      by (auto simp: word_le_nat_alt unat_div less_eq_div_iff_mult_less_eq)
  qed
  then show ?thesis
    unfolding watchdog_set_heartbeat_def wdt_divisor_for_def [symmetric] Let_def
      cnt_def [symmetric] d_def [symmetric]
    by auto
qed

lemma unat_heartbeat_count:
  "unat (timeout * (rate div 128) :: u32) = unat timeout * (unat rate div 128) mod 2 ^ 32"
  by (simp add: unat_word_ariths(2) unat_div)

lemma bit_u32_lt_8:
  assumes "unat (x :: u32) < 256" and "bit x n"
  shows "n < 8"
proof -
  have "unat (take_bit 8 x) = unat x mod 2 ^ 8"
    by (subst unsigned_take_bit_eq) (simp only: take_bit_eq_mod)
  then have "take_bit 8 x = x"
    by (intro word_unat_eq_iff [THEN iffD2]) (use assms(1) in simp)
  then show ?thesis using assms(2) by (metis bit_take_bit_iff)
qed

lemma u32_ff00: "(0xff00 :: u32) = push_bit 8 (mask 8)"
  by (simp add: mask_eq_exp_minus_1 push_bit_eq_mult)

lemma prescale_field:
  assumes "unat (x :: u32) < 256"
  shows "drop_bit 8 ((w AND NOT 0xff00) OR push_bit 8 x) AND 0xff = x"
    and "((w AND NOT 0xff00) OR push_bit 8 x) AND NOT 0xff00 = w AND NOT 0xff00"
proof -
  have "n < 8 \<and> n < 24" if "bit x n" for n
    using bit_u32_lt_8 [OF assms that] by simp
  then show "drop_bit 8 ((w AND NOT 0xff00) OR push_bit 8 x) AND 0xff = x"
    "((w AND NOT 0xff00) OR push_bit 8 x) AND NOT 0xff00 = w AND NOT 0xff00"
    unfolding u32_ff00 u32_255_mask
    by (auto intro!: bit_word_eqI simp: bit_simps dest: bit_imp_le_length)
qed

lemma wdt_hdr_simps:
  assumes "wdt_hdr_ok h"
  shows "S3C2410_WTCON_ENABLE h = 0x20" "S3C2410_WTCON_RSTEN h = 0x01"
    "S3C2410_WTCON_INTEN h = 0x04" "S3C2410_WTCON_DIV128 h = 0x18"
    "S3C2410_WTCON_PRESCALE_MASK h = 0xff00" "S3C2410_WTCON_PRESCALE h = push_bit 8"
  using assms by (simp_all add: wdt_hdr_ok_def)

definition wdt_start_state :: wdt where
  "wdt_start_state = \<lparr>nowayout = 0, tmr_margin = 15, tmr_atboot = 0, soft_noboot = 0,
     open_lock = False, wdt_count = 0, expect_close = 0, wdt_regs = (\<lambda>_. 0x8021), wtcon_save = 0,
     wtdat_save = 0, mod_refs = 0, wdt_mem = False, wdt_irq = None, wdt_held = {#}\<rparr>"

text \<open>The count and the divisor when the product does not reach \<open>2 ^ 24\<close>.\<close>

lemma heartbeat_split:
  assumes "unat timeout * (unat rate div 128) < 2 ^ 24"
  defines "cnt \<equiv> timeout * (rate div 128 :: u32)" and "d \<equiv> wdt_divisor_for (timeout * (rate div 128))"
  shows "unat cnt = unat timeout * (unat rate div 128)" "1 \<le> unat d" "unat d \<le> 256"
    "unat (d - 1) = unat d - 1" "unat cnt div unat d < 65536"
    "\<forall>e. 1 \<le> e \<and> e < unat d \<longrightarrow> 65536 \<le> unat cnt div e"
proof -
  show cnt: "unat cnt = unat timeout * (unat rate div 128)"
    unfolding cnt_def unat_heartbeat_count using assms(1) by simp
  show d: "1 \<le> unat d" "unat d \<le> 256" "unat cnt div unat d < 65536"
      "\<forall>e. 1 \<le> e \<and> e < unat d \<longrightarrow> 65536 \<le> unat cnt div e"
    using wdt_divisor_for_spec [of cnt] wdt_divisor_for_small [of cnt] assms(1) cnt
    unfolding d_def cnt_def by auto
  show "unat (d - 1) = unat d - 1" using d(1) by (simp add: unat_sub word_le_nat_alt)
qed

text \<open>C14 (bounds). A timeout whose tick count \<open>N\<close> (seconds times a 128th of the clock rate) is
  below \<open>2 ^ 24\<close> is accepted: the routine picks the least divisor \<open>d\<close> up to 256 that brings
  \<open>N div d\<close> into the 16-bit count, loads that count, stores exactly \<open>d - 1\<close> in the prescaler
  field, and leaves the other bits of the control register and the running count alone.\<close>

theorem watchdog_heartbeat_exact:
  assumes "wdt_hdr_ok h" and "1 \<le> sint timeout" and "unat timeout * (unat rate div 128) < 2 ^ 24"
  shows "\<exists>s' d. watchdog_set_heartbeat h rate timeout s = (Inr 0, s') \<and> 1 \<le> d \<and> d \<le> 256 \<and>
     tmr_margin s' = timeout \<and>
     unat (wdt_count s') = unat timeout * (unat rate div 128) div d \<and> unat (wdt_count s') < 65536 \<and>
     (\<forall>e. 1 \<le> e \<and> e < d \<longrightarrow> 65536 \<le> unat timeout * (unat rate div 128) div e) \<and>
     wdt_readl WTDAT s' = wdt_count s' \<and> wdt_readl WTCNT s' = wdt_readl WTCNT s \<and>
     unat (drop_bit 8 (wdt_readl WTCON s') AND 0xff) = d - 1 \<and>
     wdt_readl WTCON s' AND NOT 0xff00 = wdt_readl WTCON s AND NOT 0xff00"
proof -
  define cnt where "cnt = timeout * (rate div 128)"
  define d where "d = wdt_divisor_for cnt"
  note sp = heartbeat_split [OF assms(3), folded cnt_def, folded d_def]
  note cnt = sp(1) and d = sp(2,3,5,6) and d1 = sp(4)
  have lt: "unat (d - 1) < 256" using d d1 by linarith
  have "watchdog_set_heartbeat h rate timeout s =
      (Inr 0, wdt_writel ((wdt_readl WTCON s AND NOT 0xff00) OR push_bit 8 (d - 1)) WTCON
         (wdt_writel (cnt div d) WTDAT (s\<lparr>tmr_margin := timeout, wdt_count := cnt div d\<rparr>)))"
    using assms(2,3) cnt
    by (simp add: watchdog_set_heartbeat_eq Let_def cnt_def [symmetric] d_def [symmetric]
        wdt_hdr_simps [OF assms(1)])
  then show ?thesis
    using d d1 cnt prescale_field [OF lt, of "wdt_readl WTCON s"]
    by (intro exI [of _ "unat d"] exI conjI) (assumption | simp add: unat_div)+
qed

theorem watchdog_heartbeat_exact_witness:
  "\<exists>s' d. watchdog_set_heartbeat s3c2440_wdt 50000000 15 wdt_start_state = (Inr 0, s') \<and>
     unat (wdt_count s') = 5859375 div d \<and> d \<le> 256 \<and> unat (wdt_count s') < 65536"
proof -
  have "unat (15 :: u32) * (unat (50000000 :: u32) div 128) < 2 ^ 24" by simp
  from watchdog_heartbeat_exact [OF s3c2440_wdt_ok _ this, of wdt_start_state]
  show ?thesis by auto
qed

text \<open>C40 (error). When the tick count \<open>N\<close> lies between \<open>2 ^ 24\<close> and \<open>0x1010000\<close>, the timeout is
  accepted with the divisor 257, which the 8-bit prescaler field cannot hold: the field reads 0
  (divide by 1) and bit 16 of the control register is set instead, so that the timer runs out
  after \<open>N div 257\<close> ticks, not \<open>N\<close>.\<close>

theorem watchdog_heartbeat_overflows_prescaler:
  assumes "wdt_hdr_ok h" and "1 \<le> sint timeout"
    and "2 ^ 24 \<le> unat timeout * (unat rate div 128)"
    and "unat timeout * (unat rate div 128) < 0x1010000"
  shows "\<exists>s'. watchdog_set_heartbeat h rate timeout s = (Inr 0, s') \<and> tmr_margin s' = timeout \<and>
     unat (wdt_count s') = unat timeout * (unat rate div 128) div 257 \<and>
     wdt_readl WTDAT s' = wdt_count s' \<and>
     drop_bit 8 (wdt_readl WTCON s') AND 0xff = 0 \<and> bit (wdt_readl WTCON s') 16"
proof -
  define cnt where "cnt = timeout * (rate div 128)"
  have cnt: "unat cnt = unat timeout * (unat rate div 128)"
    unfolding cnt_def unat_heartbeat_count using assms(4) by simp
  have d: "wdt_divisor_for cnt = 257" using wdt_divisor_for_large assms(3) cnt by simp
  have field: "drop_bit 8 ((w AND NOT 0xff00) OR 0x10000) AND 0xff = 0"
      "bit ((w AND NOT 0xff00) OR 0x10000) 16" for w :: u32
  proof -
    have "drop_bit 8 (w AND NOT 0xff00) AND 0xff = 0"
      unfolding u32_ff00 u32_255_mask by (auto intro!: bit_word_eqI simp: bit_simps)
    moreover have "drop_bit 8 (0x10000 :: u32) AND 0xff = 0" by simp
    ultimately show "drop_bit 8 ((w AND NOT 0xff00) OR 0x10000) AND 0xff = 0"
      by (simp only: drop_bit_or bit.conj_disj_distrib2 or.right_neutral)
    have "bit (0x10000 :: u32) 16" by simp
    then show "bit ((w AND NOT 0xff00) OR 0x10000) 16" by (simp only: bit_or_iff simp_thms)
  qed
  have "watchdog_set_heartbeat h rate timeout s =
      (Inr 0, wdt_writel ((wdt_readl WTCON s AND NOT 0xff00) OR 0x10000) WTCON
         (wdt_writel (cnt div 257) WTDAT (s\<lparr>tmr_margin := timeout, wdt_count := cnt div 257\<rparr>)))"
    using assms(2,4) cnt
    by (simp add: watchdog_set_heartbeat_eq Let_def cnt_def [symmetric] d
        wdt_hdr_simps [OF assms(1)])
  then show ?thesis using cnt field [of "wdt_readl WTCON s"] by (simp add: unat_div)
qed

theorem watchdog_heartbeat_overflows_prescaler_witness:
  "\<exists>s'. watchdog_set_heartbeat s3c2440_wdt 50000000 43 wdt_start_state = (Inr 0, s') \<and>
     unat (wdt_count s') = 65357 \<and> drop_bit 8 (wdt_readl WTCON s') AND 0xff = 0"
proof -
  have "2 ^ 24 \<le> unat (43 :: u32) * (unat (50000000 :: u32) div 128)"
    "unat (43 :: u32) * (unat (50000000 :: u32) div 128) < 0x1010000" by simp_all
  from watchdog_heartbeat_overflows_prescaler [OF s3c2440_wdt_ok _ this, of wdt_start_state]
  show ?thesis by auto
qed

text \<open>Further (bounds). A timeout is accepted exactly when it is positive and its tick count, taken
  modulo \<open>2 ^ 32\<close>, is below \<open>0x1010000\<close>; a refused timeout changes nothing.  The product wraps, so
  a timeout of 10996 seconds on a 50 MHz clock is accepted and counted as 345204 ticks.\<close>

theorem watchdog_heartbeat_accepts_iff:
  "(fst (watchdog_set_heartbeat h rate timeout s) = Inr 0 \<longleftrightarrow>
      1 \<le> sint timeout \<and> unat timeout * (unat rate div 128) mod 2 ^ 32 < 0x1010000) \<and>
   (fst (watchdog_set_heartbeat h rate timeout s) = Inr 0 \<or>
      watchdog_set_heartbeat h rate timeout s = (Inl EINVAL, s)) \<and>
   fst (watchdog_set_heartbeat h 50000000 10996 s) = Inr 0 \<and>
   wdt_count (snd (watchdog_set_heartbeat h 50000000 10996 s)) = 345204 div wdt_divisor 345204 1"
proof -
  have w: "(4295312500 :: u32) = 345204" by simp
  show ?thesis
    by (auto simp: watchdog_set_heartbeat_eq Let_def unat_heartbeat_count wdt_divisor_for_def w)
qed

subsection \<open>What each routine does to the timer and the globals\<close>

lemma wdt_enabled_bit: "wdt_hdr_ok h \<Longrightarrow> wdt_enabled h s \<longleftrightarrow> bit (wdt_readl WTCON s) 5"
  using and_exp_eq_0_iff_not_bit [of "wdt_readl WTCON s" 5]
  by (simp add: wdt_enabled_def wdt_hdr_simps)

lemma wdt_resets_bit: "wdt_hdr_ok h \<Longrightarrow> wdt_resets h s \<longleftrightarrow> bit (wdt_readl WTCON s) 0"
  using and_exp_eq_0_iff_not_bit [of "wdt_readl WTCON s" 0]
  by (simp add: wdt_resets_def wdt_hdr_simps)

named_theorems wdt_simps \<open>fields and timer state after each watchdog routine\<close>

lemma watchdog_keepalive_fields [wdt_simps]:
  "open_lock (watchdog_keepalive s) = open_lock s" "nowayout (watchdog_keepalive s) = nowayout s"
  "expect_close (watchdog_keepalive s) = expect_close s" "wdt_held (watchdog_keepalive s) = wdt_held s"
  "wdt_enabled h (watchdog_keepalive s) = wdt_enabled h s"
  "wdt_resets h (watchdog_keepalive s) = wdt_resets h s"
  by (simp_all add: watchdog_keepalive_def wdt_enabled_def wdt_resets_def)

lemma watchdog_stop_fields [wdt_simps]:
  "open_lock (watchdog_stop h s) = open_lock s" "nowayout (watchdog_stop h s) = nowayout s"
  "expect_close (watchdog_stop h s) = expect_close s" "wdt_held (watchdog_stop h s) = wdt_held s"
  "wdt_mem (watchdog_stop h s) = wdt_mem s" "wdt_irq (watchdog_stop h s) = wdt_irq s"
  by (simp_all add: watchdog_stop_def watchdog_stop_unlocked_def Let_def)

lemma watchdog_start_fields [wdt_simps]:
  "open_lock (watchdog_start h s) = open_lock s" "nowayout (watchdog_start h s) = nowayout s"
  "expect_close (watchdog_start h s) = expect_close s" "wdt_held (watchdog_start h s) = wdt_held s"
  "wdt_mem (watchdog_start h s) = wdt_mem s" "wdt_irq (watchdog_start h s) = wdt_irq s"
  by (simp_all add: watchdog_start_def watchdog_stop_unlocked_def Let_def)

lemma watchdog_set_heartbeat_fields [wdt_simps]:
  "open_lock (snd (watchdog_set_heartbeat h rate t s)) = open_lock s"
  "nowayout (snd (watchdog_set_heartbeat h rate t s)) = nowayout s"
  "expect_close (snd (watchdog_set_heartbeat h rate t s)) = expect_close s"
  "wdt_held (snd (watchdog_set_heartbeat h rate t s)) = wdt_held s"
  "tmr_atboot (snd (watchdog_set_heartbeat h rate t s)) = tmr_atboot s"
  "wdt_mem (snd (watchdog_set_heartbeat h rate t s)) = wdt_mem s"
  "wdt_irq (snd (watchdog_set_heartbeat h rate t s)) = wdt_irq s"
  by (simp_all add: watchdog_set_heartbeat_eq Let_def)

lemma watchdog_stop_timer:
  assumes "wdt_hdr_ok h"
  shows "\<not> wdt_enabled h (watchdog_stop h s)" "\<not> wdt_resets h (watchdog_stop h s)"
  by (simp_all add: wdt_enabled_bit [OF assms] wdt_resets_bit [OF assms] watchdog_stop_def
      watchdog_stop_unlocked_def Let_def wdt_hdr_simps [OF assms] bit_simps)

lemma watchdog_start_timer:
  assumes "wdt_hdr_ok h"
  shows "wdt_enabled h (watchdog_start h s)" "wdt_resets h (watchdog_start h s) \<longleftrightarrow> soft_noboot s = 0"
  by (simp_all add: wdt_enabled_bit [OF assms] wdt_resets_bit [OF assms] watchdog_start_def
      watchdog_stop_unlocked_def Let_def wdt_hdr_simps [OF assms] bit_simps)

lemma watchdog_set_heartbeat_timer:
  assumes "wdt_hdr_ok h"
  shows "wdt_enabled h (snd (watchdog_set_heartbeat h rate t s)) = wdt_enabled h s"
    "wdt_resets h (snd (watchdog_set_heartbeat h rate t s)) = wdt_resets h s"
  by (simp_all add: wdt_enabled_bit [OF assms] wdt_resets_bit [OF assms] watchdog_set_heartbeat_eq
      Let_def wdt_hdr_simps [OF assms] bit_simps)

text \<open>A scan changes \<open>expect_close\<close> only, and sets it exactly when it meets the magic character.\<close>

lemma write_scan_eq:
  "write_scan cs s =
     (None \<notin> set cs,
      if Some 86 \<in> set (takeWhile (\<lambda>c. c \<noteq> None) cs) then s\<lparr>expect_close := 42\<rparr> else s)"
  by (induction cs s rule: write_scan.induct) auto

lemma wdt_update_timer [simp]:
  "wdt_enabled h (s\<lparr>expect_close := e\<rparr>) = wdt_enabled h s"
  "wdt_enabled h (s\<lparr>open_lock := b\<rparr>) = wdt_enabled h s"
  "wdt_enabled h (s\<lparr>wdt_held := l\<rparr>) = wdt_enabled h s"
  "wdt_resets h (s\<lparr>wdt_held := l\<rparr>) = wdt_resets h s"
  by (simp_all add: wdt_enabled_def wdt_resets_def)

text \<open>The bytes of a write that count: those before the first unreadable one.\<close>

definition magic_in :: "u8 option list \<Rightarrow> bool" where
  "magic_in data \<longleftrightarrow> Some 86 \<in> set (takeWhile (\<lambda>c. c \<noteq> None) data)"

lemma watchdog_write_state:
  "snd (watchdog_write data s) =
     (if data = [] then s
      else let s' = (if nowayout s = 0 then s\<lparr>expect_close := (if magic_in data then 42 else 0)\<rparr> else s)
           in if nowayout s = 0 \<and> None \<in> set data then s' else watchdog_keepalive s')"
  by (auto simp: watchdog_write_def write_scan_eq magic_in_def Let_def)

lemma watchdog_ioctl_state:
  "snd (snd (watchdog_ioctl h rate cmd got put s)) =
     (case cmd of
        WDIOC_KEEPALIVE \<Rightarrow> watchdog_keepalive s
      | WDIOC_SETTIMEOUT \<Rightarrow>
          (case got of None \<Rightarrow> s
           | Some t \<Rightarrow> (if fst (watchdog_set_heartbeat h rate t s) = Inr 0
                       then watchdog_keepalive (snd (watchdog_set_heartbeat h rate t s)) else s))
      | _ \<Rightarrow> s)"
  by (auto simp: watchdog_ioctl_def put_reply_def watchdog_set_heartbeat_eq Let_def
      split: wdioc.split option.split)

lemma wdt_other_fields [wdt_simps]:
  "open_lock (wdt_other h rate c s) = open_lock s"
  "nowayout (wdt_other h rate c s) = nowayout s"
  "wdt_held (wdt_other h rate c s) = wdt_held s"
  by (cases c; auto simp: watchdog_write_state watchdog_ioctl_state watchdog_irq_def Let_def
        wdt_simps split: wdioc.split option.split)+

lemma wdt_other_expect:
  "expect_close (wdt_other h rate c s) =
     (case c of Call_write data \<Rightarrow>
        if nowayout s = 0 \<and> data \<noteq> [] then (if magic_in data then 42 else 0) else expect_close s
      | _ \<Rightarrow> expect_close s)"
  by (cases c; auto simp: watchdog_write_state watchdog_ioctl_state watchdog_irq_def Let_def
        wdt_simps split: wdioc.split option.split)+

lemma wdt_other_timer:
  "wdt_hdr_ok h \<Longrightarrow> wdt_enabled h (wdt_other h rate c s) = wdt_enabled h s"
  by (cases c; auto simp: watchdog_write_state watchdog_ioctl_state watchdog_irq_def Let_def
        wdt_simps watchdog_set_heartbeat_timer split: wdioc.split option.split)+

lemma watchdog_open_state:
  "\<not> open_lock s \<Longrightarrow>
     fst (watchdog_open h s) = Inr 0 \<and> open_lock (snd (watchdog_open h s)) \<and>
     nowayout (snd (watchdog_open h s)) = nowayout s \<and> expect_close (snd (watchdog_open h s)) = 0 \<and>
     (wdt_hdr_ok h \<longrightarrow> wdt_enabled h (snd (watchdog_open h s)))"
  by (simp add: watchdog_open_def Let_def wdt_simps watchdog_start_timer)

lemma watchdog_open_busy: "open_lock s \<Longrightarrow> watchdog_open h s = (Inl EBUSY, s)"
  by (simp add: watchdog_open_def)

lemma watchdog_release_state:
  "fst (watchdog_release h s) = Inr 0 \<and> \<not> open_lock (snd (watchdog_release h s)) \<and>
   nowayout (snd (watchdog_release h s)) = nowayout s \<and>
   expect_close (snd (watchdog_release h s)) = 0 \<and>
   (wdt_hdr_ok h \<longrightarrow>
      wdt_enabled h (snd (watchdog_release h s)) = (expect_close s \<noteq> 42 \<and> wdt_enabled h s))"
  by (auto simp: watchdog_release_def Let_def wdt_simps watchdog_stop_timer)

subsection \<open>The interfaces the watchdog provides\<close>

interpretation wdx: exclusive_device open_lock "watchdog_open h"
    "\<lambda>s. snd (watchdog_release h s)" "wdt_other h rate" "\<lambda>_. True" for h rate
  by unfold_locales
    (simp_all add: watchdog_open_state watchdog_open_busy watchdog_release_state wdt_simps)

definition wdt_locked_on :: "wdt_hdr \<Rightarrow> wdt \<Rightarrow> bool" where
  "wdt_locked_on h s \<longleftrightarrow> wdt_hdr_ok h \<and> nowayout s \<noteq> 0 \<and> expect_close s \<noteq> 42 \<and> wdt_enabled h s"

lemma wdt_step_locked_on: "wdt_locked_on h s \<Longrightarrow> wdt_locked_on h (wdt_step h rate op s)"
proof (cases op)
  case Op_open
  assume "wdt_locked_on h s"
  then show ?thesis using watchdog_open_state [of s h] watchdog_open_busy [of s h] Op_open
    by (cases "open_lock s") (simp_all add: wdt_locked_on_def)
next
  case Op_release
  assume "wdt_locked_on h s"
  then show ?thesis using watchdog_release_state [of h s] Op_release
    by (simp add: wdt_locked_on_def)
next
  case (Op_call c)
  assume "wdt_locked_on h s"
  then show ?thesis using Op_call
    by (simp add: wdt_locked_on_def wdt_simps wdt_other_timer wdt_other_expect split: wdt_call.split)
qed

interpretation wdm: machine "wdt_step h rate" "\<lambda>_. True" "wdt_locked_on h" for h rate
  by unfold_locales (rule wdt_step_locked_on)

text \<open>C31 (safety). One process at a time: after a successful open, and whatever writes, ioctls and
  interrupts follow, another open is refused with \<open>EBUSY\<close> and changes nothing; once the holder
  releases the device the next open succeeds.\<close>

theorem watchdog_exclusive:
  assumes "\<not> open_lock s"
  shows "fst (watchdog_open h s) = Inr 0 \<and>
    (let s1 = fold (wdt_other h rate) calls (snd (watchdog_open h s)) in
       watchdog_open h s1 = (Inl EBUSY, s1) \<and>
       fst (watchdog_open h (snd (watchdog_release h s1))) = Inr 0)"
  using assms wdx.second_open_refused [of s h rate calls] wdx.open_after_close [of s h rate calls]
  by (simp add: Let_def wdx.open_free)

theorem watchdog_exclusive_witness:
  "watchdog_open s3c2440_wdt (snd (watchdog_open s3c2440_wdt wdt_start_state)) =
     (Inl EBUSY, snd (watchdog_open s3c2440_wdt wdt_start_state))"
proof -
  have "\<not> open_lock wdt_start_state" by (simp add: wdt_start_state_def)
  from watchdog_exclusive [OF this, of s3c2440_wdt 0 "[]"] show ?thesis by (simp add: Let_def)
qed

text \<open>Further (invariant). With \<open>nowayout\<close> set, once the device has been opened no sequence of file
  operations and interrupts (closing it after writing the magic character included) stops the
  timer.\<close>

theorem watchdog_nowayout_never_stops:
  assumes "wdt_hdr_ok h" and "nowayout s \<noteq> 0" and "\<not> open_lock s"
  shows "wdt_enabled h (fold (wdt_step h rate) ops (snd (watchdog_open h s)))"
proof -
  have "wdt_locked_on h (snd (watchdog_open h s))"
    using watchdog_open_state [of s h] assms by (simp add: wdt_locked_on_def)
  then have "wdt_locked_on h (fold (wdt_step h rate) ops (snd (watchdog_open h s)))"
    by (rule wdm.run_inv) (simp add: list_all_iff)
  then show ?thesis by (simp add: wdt_locked_on_def)
qed

theorem watchdog_nowayout_never_stops_witness:
  "wdt_enabled s3c2440_wdt (fold (wdt_step s3c2440_wdt 50000000)
     [Op_call (Call_write [Some 86]), Op_release]
     (snd (watchdog_open s3c2440_wdt (wdt_start_state\<lparr>nowayout := 1\<rparr>))))"
  by (rule watchdog_nowayout_never_stops) (simp_all add: wdt_start_state_def)

text \<open>The last write of a session that carried data decides whether the close may stop the timer.\<close>

definition magic_pending :: "wdt_call list \<Rightarrow> bool" where
  "magic_pending calls =
     (case filter (\<lambda>c. case c of Call_write data \<Rightarrow> data \<noteq> [] | _ \<Rightarrow> False) calls of
        [] \<Rightarrow> False
      | w # ws \<Rightarrow> (case last (w # ws) of Call_write data \<Rightarrow> magic_in data | _ \<Rightarrow> False))"

lemma magic_pending_Nil: "magic_pending [] = False"
  by (simp add: magic_pending_def)

lemma magic_pending_snoc:
  "magic_pending (calls @ [c]) =
     (case c of Call_write data \<Rightarrow> (if data \<noteq> [] then magic_in data else magic_pending calls)
      | _ \<Rightarrow> magic_pending calls)"
  by (auto simp: magic_pending_def split: list.split wdt_call.split)

lemma session_expect:
  assumes "nowayout s = 0" and "expect_close s = 0"
  shows "expect_close (fold (wdt_other h rate) calls s) = (if magic_pending calls then 42 else 0)"
proof (induction calls rule: rev_induct)
  case Nil
  then show ?case by (simp add: assms magic_pending_Nil)
next
  case (snoc c calls)
  have "nowayout (fold (wdt_other h rate) calls s) = 0"
    by (induction calls rule: rev_induct) (simp_all add: assms wdt_simps)
  then show ?case
    using snoc by (auto simp: wdt_other_expect magic_pending_snoc split: wdt_call.split)
qed

lemma session_timer:
  "wdt_hdr_ok h \<Longrightarrow> wdt_enabled h (fold (wdt_other h rate) calls s) = wdt_enabled h s"
  by (induction calls arbitrary: s) (simp_all add: wdt_other_timer)

text \<open>C15 (functional). Magic close: without \<open>nowayout\<close>, releasing the device after any session of
  writes, ioctls and interrupts stops the timer exactly when the last write that carried data had
  the character \<open>V\<close> among its readable bytes; otherwise the timer runs on.\<close>

theorem watchdog_magic_close:
  assumes "wdt_hdr_ok h" and "nowayout s = 0" and "\<not> open_lock s"
  shows "wdt_enabled h
      (snd (watchdog_release h (fold (wdt_other h rate) calls (snd (watchdog_open h s)))))
    \<longleftrightarrow> \<not> magic_pending calls"
  using watchdog_open_state [OF assms(3), of h] assms
    watchdog_release_state [of h "fold (wdt_other h rate) calls (snd (watchdog_open h s))"]
    session_expect [of "snd (watchdog_open h s)" h rate calls]
    session_timer [of h rate calls "snd (watchdog_open h s)"]
  by auto

theorem watchdog_magic_close_witness:
  "\<not> wdt_enabled s3c2440_wdt (snd (watchdog_release s3c2440_wdt
      (fold (wdt_other s3c2440_wdt 50000000)
        [Call_write [Some 65], Call_irq, Call_write [Some 86, Some 10]]
        (snd (watchdog_open s3c2440_wdt wdt_start_state)))))"
proof -
  have "magic_pending [Call_write [Some 65], Call_irq, Call_write [Some 86, Some 10]]"
    by (simp add: magic_pending_def magic_in_def)
  then show ?thesis
    using watchdog_magic_close [OF s3c2440_wdt_ok, of wdt_start_state 50000000
        "[Call_write [Some 65], Call_irq, Call_write [Some 86, Some 10]]"]
    by (simp add: wdt_start_state_def)
qed

text \<open>Further (roundtrip). Suspending stops the timer; resuming from there restores the control and
  data registers as they were and reloads the running count from the data register, whatever the
  timer was doing.\<close>

theorem watchdog_suspend_resume:
  "\<exists>s1 s2. watchdog_suspend h s = (Inr 0, s1) \<and> watchdog_resume s1 = (Inr 0, s2) \<and>
     (wdt_hdr_ok h \<longrightarrow> \<not> wdt_enabled h s1) \<and>
     wdt_readl WTCON s2 = wdt_readl WTCON s \<and> wdt_readl WTDAT s2 = wdt_readl WTDAT s \<and>
     wdt_readl WTCNT s2 = wdt_readl WTDAT s"
  by (simp add: watchdog_suspend_def watchdog_resume_def Let_def watchdog_stop_timer)
    (simp add: watchdog_stop_def watchdog_stop_unlocked_def Let_def)

theorem watchdog_suspend_resume_witness:
  "\<exists>s1 s2. watchdog_suspend s3c2440_wdt wdt_start_state = (Inr 0, s1) \<and>
     \<not> wdt_enabled s3c2440_wdt s1 \<and> watchdog_resume s1 = (Inr 0, s2) \<and> wdt_readl WTCON s2 = 0x8021"
  using watchdog_suspend_resume [of s3c2440_wdt wdt_start_state]
  by (auto simp: wdt_start_state_def wdt_readl_def readl_def)

subsection \<open>Probe and remove\<close>

lemma wdt_hold_fields [simp]:
  "wdt_mem (wdt_hold r s) = wdt_mem s" "wdt_irq (wdt_hold r s) = wdt_irq s"
  "wdt_held (wdt_hold r s) = add_mset r (wdt_held s)" "tmr_atboot (wdt_hold r s) = tmr_atboot s"
  "tmr_margin (wdt_hold r s) = tmr_margin s"
  by (simp_all add: wdt_hold_def take_res_def)

lemma wdt_probe_margin_fields [wdt_simps]:
  "wdt_held (snd (wdt_probe_margin h rate s)) = wdt_held s"
  "wdt_mem (snd (wdt_probe_margin h rate s)) = wdt_mem s"
  "wdt_irq (snd (wdt_probe_margin h rate s)) = wdt_irq s"
  "tmr_atboot (snd (wdt_probe_margin h rate s)) = tmr_atboot s"
  by (simp_all add: wdt_probe_margin_def Let_def case_prod_unfold wdt_simps)

lemma wdt_probe_start_fields [wdt_simps]:
  "wdt_held (wdt_probe_start h r s) = wdt_held s" "wdt_mem (wdt_probe_start h r s) = wdt_mem s"
  "wdt_irq (wdt_probe_start h r s) = wdt_irq s"
  by (simp_all add: wdt_probe_start_def wdt_simps)

lemmas wdt_ledger = wdt_release_mem_def wdt_free_irq_def wdt_drop_def wdt_err_req_def wdt_err_map_def
  wdt_err_irq_def wdt_err_clk_def res_simps

lemma wdt_probe_failures:
  "\<not> pf_mem pf \<Longrightarrow> watchdog_probe h pf s = Inr (Inl ENOENT, s)"
  "pf_mem pf \<Longrightarrow> \<not> pf_region pf \<Longrightarrow> watchdog_probe h pf s = Inl NullDeref"
  by (simp_all add: watchdog_probe_def Let_def wdt_ledger)

lemma wdt_probe_granted:
  assumes "pf_mem pf" and "pf_region pf"
  shows "(\<exists>s'. watchdog_probe h pf s = Inr (Inr 0, s') \<and>
            (\<exists>s''. watchdog_remove s' = Inr (Inr 0, s'') \<and> wdt_held s'' = wdt_held s) \<and>
            (wdt_hdr_ok h \<and> tmr_atboot s = 0 \<longrightarrow> \<not> wdt_enabled h s')) \<or>
         (\<exists>e s'. watchdog_probe h pf s = Inr (Inl e, s') \<and> wdt_held s' = wdt_held s)"
  using assms
  by (cases "pf_map pf"; cases "pf_irq pf"; cases "pf_irq_req pf"; cases "pf_clk pf";
      cases "pf_misc pf")
    (auto simp: watchdog_probe_def Let_def wdt_ledger wdt_simps case_prod_unfold watchdog_remove_def
      wdt_probe_start_def watchdog_stop_timer)

text \<open>C16 (error). Probing faults exactly when the memory region is refused: the error path then
  hands the null region to \<open>release_resource\<close>.  In every other failure each resource taken so far
  is given back and the ledger is as before; after a success, removing the device gives back all
  that probing took, and the timer is off unless it was asked for at boot.\<close>

theorem watchdog_probe_resources:
  "((\<exists>f. watchdog_probe h pf s = Inl f) \<longleftrightarrow> pf_mem pf \<and> \<not> pf_region pf) \<and>
   (\<forall>f. watchdog_probe h pf s = Inl f \<longrightarrow> f = NullDeref) \<and>
   (\<forall>e s'. watchdog_probe h pf s = Inr (Inl e, s') \<longrightarrow> wdt_held s' = wdt_held s) \<and>
   (\<forall>n s'. watchdog_probe h pf s = Inr (Inr n, s') \<longrightarrow>
      (\<exists>s''. watchdog_remove s' = Inr (Inr 0, s'') \<and> wdt_held s'' = wdt_held s) \<and>
      (wdt_hdr_ok h \<and> tmr_atboot s = 0 \<longrightarrow> \<not> wdt_enabled h s'))"
proof (cases "pf_mem pf \<and> pf_region pf")
  case True
  then show ?thesis using wdt_probe_granted [of pf h s] by auto
next
  case False
  then show ?thesis using wdt_probe_failures [of pf h s] by (cases "pf_mem pf") auto
qed

definition wdt_board :: wdt_platform where
  "wdt_board = \<lparr>pf_mem = True, pf_region = True, pf_map = True, pf_irq = Some 25,
     pf_irq_req = None, pf_clk = None, pf_rate = 50000000, pf_misc = Some EBUSY\<rparr>"

theorem watchdog_probe_resources_witness:
  "watchdog_probe s3c2440_wdt (wdt_board\<lparr>pf_region := False\<rparr>) wdt_start_state = Inl NullDeref \<and>
   (\<exists>e s'. watchdog_probe s3c2440_wdt wdt_board wdt_start_state = Inr (Inl e, s') \<and> wdt_held s' = {#})"
proof -
  have a: "\<exists>e s'. watchdog_probe s3c2440_wdt wdt_board wdt_start_state = Inr (Inl e, s')"
    by (simp add: watchdog_probe_def wdt_board_def Let_def wdt_ledger wdt_simps case_prod_unfold)
  have b: "wdt_held wdt_start_state = {#}" by (simp add: wdt_start_state_def)
  show ?thesis
    using watchdog_probe_resources [of s3c2440_wdt wdt_board wdt_start_state]
      watchdog_probe_resources [of s3c2440_wdt "wdt_board\<lparr>pf_region := False\<rparr>" wdt_start_state] a b
    by (auto simp: wdt_board_def)
qed

end
