(* ===== verification/Platform.thy ===== *)
theory Platform
  imports Kernel_Api
begin

text \<open>
  The platform bus, as a platform driver meets it.  A driver hands the kernel a table of its entry
  points (\<open>platform_driver\<close>); from then on the kernel decides when to call them.  The kernel is not
  part of the repository: \<open>lifecycle\<close> states the documented order of the calls (a device is probed
  while it has no driver, removed while it is bound and not in use, put to sleep while bound, woken
  while asleep, shut down while bound, and used only while bound), and the theorems hold for every
  sequence of events.  \<open>platform_contract\<close> is what a driver owes the bus: its accounts of kernel
  resources balance, whatever happens in whatever order.
\<close>

subsection \<open>The table of a driver\<close>

text \<open>\<open>'pf\<close> is what the platform answers while a device is probed.  Entries may be left null.\<close>

record ('pf, 's) platform_driver =
  drv_name :: string
  probe :: "'pf \<Rightarrow> 's \<Rightarrow> fault + int result \<times> 's"
  remove :: "'s \<Rightarrow> fault + int result \<times> 's"
  shutdown :: "('s \<Rightarrow> 's) option"
  suspend :: "('s \<Rightarrow> int result \<times> 's) option"
  resume :: "('s \<Rightarrow> int result \<times> 's) option"

text \<open>What became of the device.\<close>

datatype 's managed =
    Unbound 's
  | Bound 's
  | Asleep 's
  | Down 's
  | Crashed fault

datatype ('pf, 'op) lc_event =
    Attach 'pf
  | Detach
  | Sleep
  | Wake
  | Power_off
  | Use 'op

fun lifecycle ::
    "('pf, 's) platform_driver \<Rightarrow> ('op \<Rightarrow> 's \<Rightarrow> fault + 's) \<Rightarrow> ('s \<Rightarrow> bool) \<Rightarrow>
     ('pf, 'op) lc_event \<Rightarrow> 's managed \<Rightarrow> 's managed" where
  "lifecycle d serve in_use (Attach pf) (Unbound s) =
     (case probe d pf s of
        Inl f \<Rightarrow> Crashed f
      | Inr (Inl _, s) \<Rightarrow> Unbound s
      | Inr (Inr _, s) \<Rightarrow> Bound s)"
| "lifecycle d serve in_use Detach (Bound s) =
     (if in_use s then Bound s
      else case remove d s of Inl f \<Rightarrow> Crashed f | Inr (_, s) \<Rightarrow> Unbound s)"
| "lifecycle d serve in_use Sleep (Bound s) =
     (case suspend d of
        None \<Rightarrow> Asleep s
      | Some f \<Rightarrow> (case f s of (Inr _, s) \<Rightarrow> Asleep s | (Inl _, s) \<Rightarrow> Bound s))"
| "lifecycle d serve in_use Wake (Asleep s) =
     (case resume d of None \<Rightarrow> Bound s | Some f \<Rightarrow> Bound (snd (f s)))"
| "lifecycle d serve in_use Power_off (Bound s) =
     (case shutdown d of None \<Rightarrow> Down s | Some f \<Rightarrow> Down (f s))"
| "lifecycle d serve in_use (Use x) (Bound s) =
     (case serve x s of Inl f \<Rightarrow> Crashed f | Inr s \<Rightarrow> Bound s)"
| "lifecycle d serve in_use e m = m"

subsection \<open>Keeping account\<close>

text \<open>The state is in order and the device holds \<open>l\<close> besides what a bound driver owns.\<close>

fun accounted ::
    "('s \<Rightarrow> ledger) \<Rightarrow> ('s \<Rightarrow> ledger) \<Rightarrow> ('s \<Rightarrow> bool) \<Rightarrow> ('s \<Rightarrow> bool) \<Rightarrow> ledger \<times> 's managed \<Rightarrow> bool" where
  "accounted held own idle bound (l, Unbound s) \<longleftrightarrow> idle s \<and> held s = l"
| "accounted held own idle bound (l, Bound s) \<longleftrightarrow> bound s \<and> held s = own s + l"
| "accounted held own idle bound (l, Asleep s) \<longleftrightarrow> bound s \<and> held s = own s + l"
| "accounted held own idle bound (l, Down s) \<longleftrightarrow> held s = own s + l"
| "accounted held own idle bound (l, Crashed f) \<longleftrightarrow> False"

text \<open>What an event loses for good: the leak of a probe that fails.\<close>

fun lost ::
    "('pf, 's) platform_driver \<Rightarrow> ('pf \<Rightarrow> ledger) \<Rightarrow> ('pf, 'op) lc_event \<Rightarrow> 's managed \<Rightarrow> ledger" where
  "lost d leak (Attach pf) (Unbound s) =
     (case probe d pf s of Inr (Inl _, _) \<Rightarrow> leak pf | _ \<Rightarrow> {#})"
| "lost d leak e m = {#}"

text \<open>The life of the device together with the account of what has been lost so far.\<close>

definition lc_track ::
    "('pf, 's) platform_driver \<Rightarrow> ('op \<Rightarrow> 's \<Rightarrow> fault + 's) \<Rightarrow> ('s \<Rightarrow> bool) \<Rightarrow> ('pf \<Rightarrow> ledger) \<Rightarrow>
     ('pf, 'op) lc_event \<Rightarrow> ledger \<times> 's managed \<Rightarrow> ledger \<times> 's managed" where
  "lc_track d serve in_use leak e lm =
     (case lm of (l, m) \<Rightarrow> (lost d leak e m + l, lifecycle d serve in_use e m))"

text \<open>What a whole life loses.\<close>

fun losses ::
    "('pf, 's) platform_driver \<Rightarrow> ('op \<Rightarrow> 's \<Rightarrow> fault + 's) \<Rightarrow> ('s \<Rightarrow> bool) \<Rightarrow> ('pf \<Rightarrow> ledger) \<Rightarrow>
     ('pf, 'op) lc_event list \<Rightarrow> 's managed \<Rightarrow> ledger" where
  "losses d serve in_use leak [] m = {#}"
| "losses d serve in_use leak (e # es) m =
     lost d leak e m + losses d serve in_use leak es (lifecycle d serve in_use e m)"

lemma lc_track_run:
  "fold (lc_track d serve in_use leak) es (l, m) =
     (losses d serve in_use leak es m + l, fold (lifecycle d serve in_use) es m)"
  by (induction es arbitrary: l m) (simp_all add: lc_track_def ac_simps)

lemma lost_none [simp]: "lost d (\<lambda>_. {#}) e m = {#}"
  by (cases e; cases m) (simp_all split: sum.split prod.split)

lemma losses_none [simp]: "losses d serve in_use (\<lambda>_. {#}) es m = {#}"
  by (induction es arbitrary: m) simp_all

text \<open>An event that asks for a probe whose answers are among those allowed.\<close>

fun lc_granted :: "('pf \<Rightarrow> bool) \<Rightarrow> ('pf, 'op) lc_event \<Rightarrow> bool" where
  "lc_granted granted (Attach pf) = granted pf"
| "lc_granted granted e = True"

lemma lc_granted_True [simp]: "lc_granted (\<lambda>_. True) e"
  by (cases e) simp_all

subsection \<open>What a platform driver owes the bus\<close>

locale platform_contract =
  fixes d :: "('pf, 's) platform_driver" and serve :: "'op \<Rightarrow> 's \<Rightarrow> fault + 's" and in_use :: "'s \<Rightarrow> bool"
    and held :: "'s \<Rightarrow> ledger" and own :: "'s \<Rightarrow> ledger" and leak :: "'pf \<Rightarrow> ledger"
    and granted :: "'pf \<Rightarrow> bool" and idle :: "'s \<Rightarrow> bool" and bound :: "'s \<Rightarrow> bool"
  assumes probe_law: "idle s \<Longrightarrow> granted pf \<Longrightarrow>
      (\<exists>e s'. probe d pf s = Inr (Inl e, s') \<and> idle s' \<and> held s' = leak pf + held s) \<or>
      (\<exists>n s'. probe d pf s = Inr (Inr n, s') \<and> bound s' \<and> held s' = own s' + held s)"
    and remove_law: "bound s \<Longrightarrow> \<not> in_use s \<Longrightarrow> held s = own s + l \<Longrightarrow>
      \<exists>r s'. remove d s = Inr (r, s') \<and> idle s' \<and> held s' = l"
    and shutdown_law: "shutdown d = Some f \<Longrightarrow> held (f s) = held s \<and> own (f s) = own s"
    and suspend_law: "suspend d = Some g \<Longrightarrow>
      held (snd (g s)) = held s \<and> own (snd (g s)) = own s \<and> (bound s \<longrightarrow> bound (snd (g s)))"
    and resume_law: "resume d = Some g \<Longrightarrow>
      held (snd (g s)) = held s \<and> own (snd (g s)) = own s \<and> (bound s \<longrightarrow> bound (snd (g s)))"
    and serve_law: "bound s \<Longrightarrow> held s = own s + l \<Longrightarrow>
      \<exists>s'. serve x s = Inr s' \<and> bound s' \<and> held s' = own s' + l"
begin

lemma attach_accounted:
  "idle s \<Longrightarrow> held s = l \<Longrightarrow> granted pf \<Longrightarrow>
     accounted held own idle bound (lc_track d serve in_use leak (Attach pf) (l, Unbound s))"
  using probe_law [of s pf] by (auto simp: lc_track_def)

lemma detach_accounted:
  "bound s \<Longrightarrow> held s = own s + l \<Longrightarrow>
     accounted held own idle bound (lc_track d serve in_use leak Detach (l, Bound s))"
  using remove_law [of s l] by (cases "in_use s") (auto simp: lc_track_def)

lemma sleep_accounted:
  "bound s \<Longrightarrow> held s = own s + l \<Longrightarrow>
     accounted held own idle bound (lc_track d serve in_use leak Sleep (l, Bound s))"
  using suspend_law [of _ s]
  by (cases "suspend d") (fastforce simp: lc_track_def split: prod.split sum.split)+

lemma wake_accounted:
  "bound s \<Longrightarrow> held s = own s + l \<Longrightarrow>
     accounted held own idle bound (lc_track d serve in_use leak Wake (l, Asleep s))"
  using resume_law [of _ s] by (cases "resume d") (simp_all add: lc_track_def)

lemma power_off_accounted:
  "held s = own s + l \<Longrightarrow>
     accounted held own idle bound (lc_track d serve in_use leak Power_off (l, Bound s))"
  using shutdown_law [of _ s] by (cases "shutdown d") (simp_all add: lc_track_def)

lemma use_accounted:
  "bound s \<Longrightarrow> held s = own s + l \<Longrightarrow>
     accounted held own idle bound (lc_track d serve in_use leak (Use x) (l, Bound s))"
  using serve_law [of s l x] by (auto simp: lc_track_def)

lemma step_accounted:
  assumes "accounted held own idle bound (l, m)" and "lc_granted granted e"
  shows "accounted held own idle bound (lc_track d serve in_use leak e (l, m))"
  using assms
  by (cases m; cases e)
    (auto simp: attach_accounted detach_accounted sleep_accounted wake_accounted
      power_off_accounted use_accounted, simp_all add: lc_track_def)

end

sublocale platform_contract \<subseteq>
  machine "lc_track d serve in_use leak" "lc_granted granted" "accounted held own idle bound"
  by unfold_locales (metis step_accounted surj_pair)

context platform_contract begin

text \<open>The accounts of a whole life.\<close>

lemma life_accounted:
  assumes "idle s" and "list_all (lc_granted granted) es"
  shows "accounted held own idle bound
    (losses d serve in_use leak es (Unbound s) + held s, fold (lifecycle d serve in_use) es (Unbound s))"
  using run_inv [of "(held s, Unbound s)" es] assms by (simp add: lc_track_run)

end

subsection \<open>Registering a driver\<close>

text \<open>One device slot of the bus: the device that waits there with its name and what it will answer,
  the driver registered for it, and what became of the device.\<close>

record ('pf, 's) bus =
  bus_device :: "(string \<times> 'pf) option"
  bus_driver :: "string option"
  bus_managed :: "'s managed"

text \<open>What the documentation of the bus says of registering and unregistering: the driver gets the
  device whose name is its own, the result of the probe is not the result of the registration, and
  unregistering detaches the driver.\<close>

definition bus_served ::
    "('op \<Rightarrow> 's \<Rightarrow> fault + 's) \<Rightarrow> ('s \<Rightarrow> bool) \<Rightarrow>
     (('pf, 's) platform_driver \<Rightarrow> ('pf, 's) bus \<Rightarrow> int result \<times> ('pf, 's) bus) \<Rightarrow>
     (('pf, 's) platform_driver \<Rightarrow> ('pf, 's) bus \<Rightarrow> ('pf, 's) bus) \<Rightarrow> bool" where
  "bus_served serve in_use register unregister \<longleftrightarrow>
     (\<forall>d k. bus_driver k = None \<longrightarrow>
        register d k = (Inr 0, k\<lparr>bus_driver := Some (drv_name d),
          bus_managed := (case bus_device k of
              Some (name, pf) \<Rightarrow> (if name = drv_name d
                then lifecycle d serve in_use (Attach pf) (bus_managed k) else bus_managed k)
            | None \<Rightarrow> bus_managed k)\<rparr>)) \<and>
     (\<forall>d k. bus_driver k = Some (drv_name d) \<longrightarrow>
        unregister d k = k\<lparr>bus_driver := None, bus_managed := lifecycle d serve in_use Detach (bus_managed k)\<rparr>)"

definition bus_register ::
    "('op \<Rightarrow> 's \<Rightarrow> fault + 's) \<Rightarrow> ('s \<Rightarrow> bool) \<Rightarrow> ('pf, 's) platform_driver \<Rightarrow> ('pf, 's) bus \<Rightarrow>
     int result \<times> ('pf, 's) bus" where
  "bus_register serve in_use d k =
     (if bus_driver k \<noteq> None then (Inl EBUSY, k)
      else (Inr 0, k\<lparr>bus_driver := Some (drv_name d),
        bus_managed := (case bus_device k of
            Some (name, pf) \<Rightarrow> (if name = drv_name d
              then lifecycle d serve in_use (Attach pf) (bus_managed k) else bus_managed k)
          | None \<Rightarrow> bus_managed k)\<rparr>))"

definition bus_unregister ::
    "('op \<Rightarrow> 's \<Rightarrow> fault + 's) \<Rightarrow> ('s \<Rightarrow> bool) \<Rightarrow> ('pf, 's) platform_driver \<Rightarrow> ('pf, 's) bus \<Rightarrow> ('pf, 's) bus" where
  "bus_unregister serve in_use d k =
     k\<lparr>bus_driver := None, bus_managed := lifecycle d serve in_use Detach (bus_managed k)\<rparr>"

lemma bus_example_served:
  "bus_served serve in_use (bus_register serve in_use) (bus_unregister serve in_use)"
  by (simp add: bus_served_def bus_register_def bus_unregister_def)

context platform_contract begin

text \<open>Loading a driver and unloading it at once: the device it matches is probed and then removed,
  a device of another name is left alone, and in every case the account is as before but for what
  a failing probe leaks.\<close>

lemma load_unload:
  assumes "bus_served serve in_use register unregister"
    and "bus_driver k = None" "bus_device k = Some (name, pf)" "bus_managed k = Unbound s"
    and "idle s" "granted pf" and "\<And>n s'. probe d pf s = Inr (Inr n, s') \<Longrightarrow> \<not> in_use s'"
  shows "fst (register d k) = Inr 0 \<and>
    (\<exists>s'. bus_managed (unregister d (snd (register d k))) = Unbound s' \<and> idle s' \<and>
      held s' = (if name = drv_name d then lost d leak (Attach pf) (Unbound s) else {#}) + held s)"
  using assms probe_law [OF assms(5,6)]
  by (auto simp: bus_served_def dest: remove_law)

end

end
