(* ===== verification/Watchdog_Platform.thy ===== *)
theory Watchdog_Platform
  imports Watchdog Platform
begin

text \<open>
  The watchdog driver on the platform bus (\<open>watchdog/driver/watchdog.c\<close>): the table of its entry
  points, loading and unloading, and what holds over the whole life of the device: probing,
  removing, sleeping, waking and shutting down in any order, with the file operations and
  interrupts in between.
\<close>

subsection \<open>The driver's table and the module\<close>

text \<open>Without \<open>CONFIG_PM\<close> the source defines the names of the two power operations as \<open>NULL\<close>.\<close>

definition watchdog_driver :: "bool \<Rightarrow> wdt_hdr \<Rightarrow> (wdt_platform, wdt) platform_driver" where
  "watchdog_driver config_pm h =
     \<lparr>drv_name = ''s3c2440-wdt'',
      probe = watchdog_probe h,
      remove = watchdog_remove,
      shutdown = Some (watchdog_shutdown h),
      suspend = (if config_pm then Some (watchdog_suspend h) else None),
      resume = (if config_pm then Some watchdog_resume else None)\<rparr>"

definition banner :: string where
  "banner = ''<6>mini2440 Watchdog Timer, (c) 2014 Harvis Wang''"

text \<open>The kernel's log is a list of lines; registering and unregistering are the kernel's.\<close>

definition watchdog_module_init ::
    "((wdt_platform, wdt) platform_driver \<Rightarrow> 'k \<Rightarrow> int result \<times> 'k) \<Rightarrow> bool \<Rightarrow> wdt_hdr \<Rightarrow>
     string list \<times> 'k \<Rightarrow> int result \<times> string list \<times> 'k" where
  "watchdog_module_init platform_driver_register config_pm h lk =
     (let (log, k) = lk;
          log = log @ [banner];
          (ret, k) = platform_driver_register (watchdog_driver config_pm h) k
      in (ret, log, k))"

definition watchdog_module_exit ::
    "((wdt_platform, wdt) platform_driver \<Rightarrow> 'k \<Rightarrow> 'k) \<Rightarrow> bool \<Rightarrow> wdt_hdr \<Rightarrow> string list \<times> 'k \<Rightarrow> string list \<times> 'k" where
  "watchdog_module_exit platform_driver_unregister config_pm h lk =
     (let (log, k) = lk in (log, platform_driver_unregister (watchdog_driver config_pm h) k))"

text \<open>The file operations and interrupts never fault.  The module cannot be unloaded while a file is
  open, nor ever after an open with \<open>nowayout\<close>, which takes a reference for good.\<close>

definition wdt_serve :: "wdt_hdr \<Rightarrow> u32 \<Rightarrow> wdt_op \<Rightarrow> wdt \<Rightarrow> fault + wdt" where
  "wdt_serve h rate x s = Inr (wdt_step h rate x s)"

definition wdt_in_use :: "wdt \<Rightarrow> bool" where
  "wdt_in_use s \<longleftrightarrow> open_lock s \<or> 0 < mod_refs s"

abbreviation wdt_life ::
    "bool \<Rightarrow> wdt_hdr \<Rightarrow> u32 \<Rightarrow> (wdt_platform, wdt_op) lc_event list \<Rightarrow> wdt managed \<Rightarrow> wdt managed" where
  "wdt_life config_pm h rate es \<equiv>
     fold (lifecycle (watchdog_driver config_pm h) (wdt_serve h rate) wdt_in_use) es"

subsection \<open>What a bound watchdog owns\<close>

definition wdt_own :: "wdt \<Rightarrow> ledger" where
  "wdt_own s = {#Mem_region, Mem_desc, Io_map, Clk_ref, Clk_on, Misc_dev#} +
     (case wdt_irq s of None \<Rightarrow> {#} | Some n \<Rightarrow> {#Irq_line n#})"

definition wdt_bound :: "wdt \<Rightarrow> bool" where
  "wdt_bound s \<longleftrightarrow> wdt_mem s \<and> wdt_irq s \<noteq> None"

definition wdt_granted :: "wdt_platform \<Rightarrow> bool" where
  "wdt_granted pf \<longleftrightarrow> (pf_mem pf \<longrightarrow> pf_region pf)"

text \<open>The platform's answers that let a probe succeed.\<close>

definition wdt_all_granted :: "wdt_platform \<Rightarrow> bool" where
  "wdt_all_granted pf \<longleftrightarrow> pf_mem pf \<and> pf_region pf \<and> pf_map pf \<and> pf_irq pf \<noteq> None \<and>
     pf_irq_req pf = None \<and> pf_clk pf = None \<and> pf_misc pf = None"

lemma wdt_probe_bound:
  "wdt_all_granted pf \<Longrightarrow>
     \<exists>s'. watchdog_probe h pf s = Inr (Inr 0, s') \<and> wdt_bound s' \<and> wdt_held s' = wdt_own s' + wdt_held s"
  by (auto simp: wdt_all_granted_def watchdog_probe_def Let_def wdt_simps case_prod_unfold
      wdt_bound_def wdt_own_def)

lemma wdt_probe_refused:
  "wdt_granted pf \<Longrightarrow> \<not> wdt_all_granted pf \<Longrightarrow>
     \<exists>e s'. watchdog_probe h pf s = Inr (Inl e, s') \<and> wdt_held s' = wdt_held s"
  by (cases "pf_mem pf"; cases "pf_map pf"; cases "pf_irq pf"; cases "pf_irq_req pf"; cases "pf_clk pf";
      cases "pf_misc pf")
    (auto simp: wdt_granted_def wdt_all_granted_def watchdog_probe_def Let_def wdt_ledger wdt_simps
      case_prod_unfold)

lemma wdt_remove_bound:
  "wdt_bound s \<Longrightarrow> wdt_held s = wdt_own s + l \<Longrightarrow>
     \<exists>s'. watchdog_remove s = Inr (Inr 0, s') \<and> wdt_held s' = l \<and>
       (\<forall>r. wdt_readl r s' = wdt_readl r s)"
  by (auto simp: wdt_bound_def wdt_own_def watchdog_remove_def wdt_ledger Let_def)

lemma wdt_routine_fields [wdt_simps]:
  "wdt_mem (watchdog_keepalive s) = wdt_mem s" "wdt_irq (watchdog_keepalive s) = wdt_irq s"
  "mod_refs (watchdog_keepalive s) = mod_refs s" "mod_refs (watchdog_stop h s) = mod_refs s"
  "mod_refs (watchdog_start h s) = mod_refs s"
  "mod_refs (snd (watchdog_set_heartbeat h rate t s)) = mod_refs s"
  by (simp_all add: watchdog_keepalive_def watchdog_stop_def watchdog_start_def
      watchdog_stop_unlocked_def Let_def watchdog_set_heartbeat_eq)

lemma wdt_probe_fields [wdt_simps]:
  "open_lock (wdt_hold r s) = open_lock s" "mod_refs (wdt_hold r s) = mod_refs s"
  "open_lock (snd (wdt_probe_margin h rate s)) = open_lock s"
  "mod_refs (snd (wdt_probe_margin h rate s)) = mod_refs s"
  "open_lock (wdt_probe_start h st s) = open_lock s" "mod_refs (wdt_probe_start h st s) = mod_refs s"
  by (simp_all add: wdt_hold_def wdt_probe_margin_def wdt_probe_start_def Let_def case_prod_unfold wdt_simps)

lemma wdt_other_resources [wdt_simps]:
  "wdt_mem (wdt_other h rate c s) = wdt_mem s" "wdt_irq (wdt_other h rate c s) = wdt_irq s"
  "mod_refs (wdt_other h rate c s) = mod_refs s"
  by (cases c; auto simp: watchdog_write_state watchdog_ioctl_state watchdog_irq_def Let_def
        wdt_simps split: wdioc.split option.split)+

lemma wdt_step_resources:
  "wdt_held (wdt_step h rate x s) = wdt_held s" "wdt_mem (wdt_step h rate x s) = wdt_mem s"
  "wdt_irq (wdt_step h rate x s) = wdt_irq s" "mod_refs s \<le> mod_refs (wdt_step h rate x s)"
  by (cases x; simp add: watchdog_open_def watchdog_release_def Let_def wdt_simps)+

lemma wdt_power_fields [wdt_simps]:
  "wdt_held (watchdog_shutdown h s) = wdt_held s" "wdt_irq (watchdog_shutdown h s) = wdt_irq s"
  "wdt_held (snd (watchdog_suspend h s)) = wdt_held s" "wdt_irq (snd (watchdog_suspend h s)) = wdt_irq s"
  "wdt_mem (snd (watchdog_suspend h s)) = wdt_mem s" "wdt_held (snd (watchdog_resume s)) = wdt_held s"
  "wdt_irq (snd (watchdog_resume s)) = wdt_irq s" "wdt_mem (snd (watchdog_resume s)) = wdt_mem s"
  by (simp_all add: watchdog_shutdown_def watchdog_suspend_def watchdog_resume_def Let_def wdt_simps)

interpretation wdp: platform_contract "watchdog_driver config_pm h" "wdt_serve h rate" wdt_in_use
    wdt_held wdt_own "\<lambda>_. {#}" wdt_granted "\<lambda>_. True" wdt_bound for config_pm h rate
proof unfold_locales
  fix pf :: wdt_platform and s :: wdt
  assume g: "wdt_granted pf"
  show "(\<exists>e s'. probe (watchdog_driver config_pm h) pf s = Inr (Inl e, s') \<and> True \<and>
          wdt_held s' = {#} + wdt_held s) \<or>
        (\<exists>n s'. probe (watchdog_driver config_pm h) pf s = Inr (Inr n, s') \<and> wdt_bound s' \<and>
          wdt_held s' = wdt_own s' + wdt_held s)"
    using wdt_probe_bound [of pf h s] wdt_probe_refused [OF g, of h s]
    by (auto simp: watchdog_driver_def)
next
  fix s :: wdt and l :: ledger
  assume "wdt_bound s" "wdt_held s = wdt_own s + l"
  then show "\<exists>r s'. remove (watchdog_driver config_pm h) s = Inr (r, s') \<and> True \<and> wdt_held s' = l"
    using wdt_remove_bound [of s l] by (auto simp: watchdog_driver_def)
qed (auto simp: watchdog_driver_def wdt_own_def wdt_bound_def wdt_serve_def wdt_step_resources wdt_simps
    split: if_splits)

subsection \<open>The life of the device\<close>

text \<open>C12 (invariant). Whatever the bus does with the device and whatever its users do in between, in any
  order: unless some probe is refused the memory region of a device that has one, no event faults;
  while the driver is bound, asleep or shut down it holds exactly the region with its descriptor,
  the mapping, its interrupt line, the enabled clock and the device node, once each, and after every
  failed probe and every removal it holds nothing it did not hold before.\<close>

theorem watchdog_life_accounts:
  "(\<exists>pf. Attach pf \<in> set es \<and> pf_mem pf \<and> \<not> pf_region pf) \<or>
   (case wdt_life config_pm h rate es (Unbound s) of
      Unbound s' \<Rightarrow> wdt_held s' = wdt_held s
    | Bound s' \<Rightarrow> wdt_bound s' \<and> wdt_held s' = wdt_own s' + wdt_held s
    | Asleep s' \<Rightarrow> wdt_bound s' \<and> wdt_held s' = wdt_own s' + wdt_held s
    | Down s' \<Rightarrow> wdt_held s' = wdt_own s' + wdt_held s
    | Crashed f \<Rightarrow> False)"
proof (cases "\<exists>pf. Attach pf \<in> set es \<and> pf_mem pf \<and> \<not> pf_region pf")
  case False
  have "lc_granted wdt_granted e" if "e \<in> set es" for e
    by (cases e) (use that False in \<open>auto simp: wdt_granted_def\<close>)
  then have ok: "list_all (lc_granted wdt_granted) es" by (simp add: list_all_iff)
  show ?thesis
    using wdp.life_accounted [OF TrueI ok, of config_pm h rate s]
    by (cases "wdt_life config_pm h rate es (Unbound s)") simp_all
qed simp

theorem watchdog_life_accounts_witness:
  "\<forall>f. wdt_life True s3c2440_wdt 50000000
      [Attach wdt_board, Attach (wdt_board\<lparr>pf_misc := None\<rparr>), Use Op_open, Sleep, Wake, Use Op_release, Detach]
      (Unbound wdt_start_state) \<noteq> Crashed f"
proof -
  define es :: "(wdt_platform, wdt_op) lc_event list" where
    "es = [Attach wdt_board, Attach (wdt_board\<lparr>pf_misc := None\<rparr>), Use Op_open, Sleep, Wake, Use Op_release, Detach]"
  have "\<not> (\<exists>pf. Attach pf \<in> set es \<and> pf_mem pf \<and> \<not> pf_region pf)"
    by (auto simp: es_def wdt_board_def)
  then show ?thesis
    using watchdog_life_accounts [where es = es and config_pm = True and h = s3c2440_wdt and rate = 50000000
        and s = wdt_start_state]
    unfolding es_def [symmetric]
    by (cases "wdt_life True s3c2440_wdt 50000000 es (Unbound wdt_start_state)") auto
qed

text \<open>A watchdog that may not be stopped: it has been opened with \<open>nowayout\<close> once.\<close>

fun wdt_pinned :: "bool \<Rightarrow> wdt_hdr \<Rightarrow> wdt managed \<Rightarrow> bool" where
  "wdt_pinned config_pm h (Bound s) \<longleftrightarrow> wdt_locked_on h s \<and> 0 < mod_refs s"
| "wdt_pinned config_pm h (Asleep s) \<longleftrightarrow>
     wdt_hdr_ok h \<and> nowayout s \<noteq> 0 \<and> expect_close s \<noteq> 42 \<and> 0 < mod_refs s \<and>
     (if config_pm then wtcon_save s AND S3C2410_WTCON_ENABLE h \<noteq> 0 else wdt_enabled h s)"
| "wdt_pinned config_pm h (Down s) \<longleftrightarrow> True"
| "wdt_pinned config_pm h m \<longleftrightarrow> False"

lemma wdt_sleep_pinned:
  "wdt_locked_on h s \<Longrightarrow> 0 < mod_refs s \<Longrightarrow> wdt_pinned True h (Asleep (snd (watchdog_suspend h s)))"
  by (simp add: watchdog_suspend_def watchdog_stop_def watchdog_stop_unlocked_def Let_def
      wdt_locked_on_def wdt_enabled_def)

lemma wdt_wake_pinned:
  "wdt_pinned True h (Asleep s) \<Longrightarrow> wdt_pinned True h (Bound (snd (watchdog_resume s)))"
  by (simp add: watchdog_resume_def Let_def wdt_locked_on_def wdt_enabled_def)

interpretation wdl: machine "lifecycle (watchdog_driver config_pm h) (wdt_serve h rate) wdt_in_use"
    "\<lambda>_. True" "wdt_pinned config_pm h" for config_pm h rate
proof unfold_locales
  fix m e
  assume pin: "wdt_pinned config_pm h m"
  show "wdt_pinned config_pm h (lifecycle (watchdog_driver config_pm h) (wdt_serve h rate) wdt_in_use e m)"
  proof (cases m)
    case (Bound s)
    then have s: "wdt_locked_on h s" "0 < mod_refs s" "wdt_in_use s"
      using pin by (simp_all add: wdt_in_use_def)
    have step: "wdt_locked_on h (wdt_step h rate x s)" "0 < mod_refs (wdt_step h rate x s)" for x
      using wdt_step_locked_on [OF s(1)] wdt_step_resources(4) [of s h rate x] s(2) by simp_all
    have "fst (watchdog_suspend h s) = Inr 0" by (simp add: watchdog_suspend_def Let_def)
    then obtain s1 where s1: "watchdog_suspend h s = (Inr 0, s1)" by (metis prod.collapse)
    show ?thesis
      using Bound s step wdt_sleep_pinned [OF s(1,2)] s1
      by (cases e; cases config_pm) (simp_all add: watchdog_driver_def wdt_serve_def wdt_locked_on_def)
  next
    case (Asleep s)
    then show ?thesis
      using pin wdt_wake_pinned [of h s]
      by (cases e; cases config_pm) (simp_all add: watchdog_driver_def wdt_locked_on_def)
  qed (use pin in \<open>cases e; simp\<close>)+
qed

text \<open>C1 (invariant). With \<open>nowayout\<close> set, once the device has been opened the timer runs for good: no
  sequence of file operations, interrupts, attempts to unload the driver, sleeps and wakings stops
  it.  Whenever the system is awake it runs; asleep it is stopped if the kernel manages power, and
  goes on when the system wakes; only shutting the system down stops it.\<close>

theorem watchdog_nowayout_for_life:
  assumes "wdt_hdr_ok h" and "nowayout s \<noteq> 0" and "\<not> open_lock s"
  shows "case wdt_life config_pm h rate es (Bound (snd (watchdog_open h s))) of
      Bound s' \<Rightarrow> wdt_enabled h s'
    | Asleep s' \<Rightarrow> config_pm \<or> wdt_enabled h s'
    | Down s' \<Rightarrow> True
    | _ \<Rightarrow> False"
proof -
  have "wdt_pinned config_pm h (Bound (snd (watchdog_open h s)))"
    using watchdog_open_state [OF assms(3), of h] assms
    by (simp add: wdt_locked_on_def watchdog_open_def Let_def wdt_simps)
  then have "wdt_pinned config_pm h (wdt_life config_pm h rate es (Bound (snd (watchdog_open h s))))"
    by (rule wdl.run_inv) (simp add: list_all_iff)
  then show ?thesis
    by (cases "wdt_life config_pm h rate es (Bound (snd (watchdog_open h s)))")
      (simp_all add: wdt_locked_on_def split: if_splits)
qed

theorem watchdog_nowayout_for_life_witness:
  "case wdt_life True s3c2440_wdt 50000000
      [Use (Op_call (Call_write [Some 86])), Use Op_release, Detach, Sleep, Wake]
      (Bound (snd (watchdog_open s3c2440_wdt (wdt_start_state\<lparr>nowayout := 1\<rparr>)))) of
     Bound s' \<Rightarrow> wdt_enabled s3c2440_wdt s' | Asleep s' \<Rightarrow> True \<or> wdt_enabled s3c2440_wdt s'
   | Down s' \<Rightarrow> True | _ \<Rightarrow> False"
  by (rule watchdog_nowayout_for_life) (simp_all add: wdt_start_state_def)

subsection \<open>Loading and unloading the module\<close>

text \<open>Further (roundtrip). Loading prints the banner and always succeeds.  A device named \<open>s3c2440-wdt\<close> is probed:
  it is bound exactly when the platform grants everything.  Unloading the module again, with no file
  open in between, gives back whatever probing took.  A device of any other name, the name
  \<open>s3c2410-wdt\<close> of the module's own alias among them, is never probed.\<close>

theorem watchdog_module_load_unload:
  assumes "bus_served (wdt_serve h rate) wdt_in_use reg unreg"
    and "bus_driver k = None" and "bus_device k = Some (name, pf)" and "bus_managed k = Unbound s"
    and "wdt_granted pf" and "\<not> wdt_in_use s"
  shows "\<exists>k1 k2 s'. watchdog_module_init reg config_pm h (log, k) = (Inr 0, log @ [banner], k1) \<and>
     watchdog_module_exit unreg config_pm h (log @ [banner], k1) = (log @ [banner], k2) \<and>
     ((\<exists>s1. bus_managed k1 = Bound s1) \<longleftrightarrow> name = ''s3c2440-wdt'' \<and> wdt_all_granted pf) \<and>
     bus_managed k2 = Unbound s' \<and> wdt_held s' = wdt_held s \<and>
     (name = ''s3c2410-wdt'' \<longrightarrow> bus_managed k1 = Unbound s)"
proof -
  define d where "d = watchdog_driver config_pm h"
  have nm: "drv_name d = ''s3c2440-wdt''" "probe d = watchdog_probe h"
    by (simp_all add: d_def watchdog_driver_def)
  have refs: "\<not> wdt_in_use s'" if "watchdog_probe h pf s = Inr (Inr n, s')" for n s'
  proof (cases "wdt_all_granted pf")
    case True
    then show ?thesis using that assms(6)
      by (auto simp: wdt_all_granted_def watchdog_probe_def Let_def wdt_simps case_prod_unfold wdt_in_use_def)
  next
    case False
    then show ?thesis using that wdt_probe_refused [OF assms(5) False, of h s] by auto
  qed
  have round: "fst (reg d k) = Inr 0 \<and> (\<exists>s'. bus_managed (unreg d (snd (reg d k))) = Unbound s' \<and> True \<and>
      wdt_held s' = (if name = drv_name d then lost d (\<lambda>_. {#}) (Attach pf) (Unbound s) else {#}) + wdt_held s)"
    unfolding d_def
    by (rule wdp.load_unload [OF assms(1-4) TrueI assms(5)]) (use refs nm in \<open>simp add: d_def\<close>)
  have bnd: "(\<exists>s1. bus_managed (snd (reg d k)) = Bound s1) \<longleftrightarrow> name = ''s3c2440-wdt'' \<and> wdt_all_granted pf"
    using assms(1-4) nm wdt_probe_bound [of pf h s] wdt_probe_refused [OF assms(5), of h s]
    by (cases "wdt_all_granted pf") (auto simp: bus_served_def)
  have other: "name = ''s3c2410-wdt'' \<longrightarrow> bus_managed (snd (reg d k)) = Unbound s"
    using assms(1-4) nm by (auto simp: bus_served_def)
  show ?thesis
    using round [unfolded lost_none] bnd other
    by (simp add: watchdog_module_init_def watchdog_module_exit_def Let_def case_prod_unfold d_def [symmetric])
qed

theorem watchdog_module_load_unload_witness:
  "\<exists>k1 s1. watchdog_module_init (bus_register (wdt_serve s3c2440_wdt 50000000) wdt_in_use) True s3c2440_wdt
      ([], \<lparr>bus_device = Some (''s3c2440-wdt'', wdt_board\<lparr>pf_misc := None\<rparr>), bus_driver = None,
             bus_managed = Unbound wdt_start_state\<rparr>) = (Inr 0, [banner], k1) \<and> bus_managed k1 = Bound s1"
proof -
  have g: "wdt_granted (wdt_board\<lparr>pf_misc := None\<rparr>)" "wdt_all_granted (wdt_board\<lparr>pf_misc := None\<rparr>)"
    "\<not> wdt_in_use wdt_start_state"
    by (simp_all add: wdt_granted_def wdt_all_granted_def wdt_board_def wdt_in_use_def wdt_start_state_def)
  show ?thesis
    using watchdog_module_load_unload [OF bus_example_served _ _ _ g(1) g(3), of
        "\<lparr>bus_device = Some (''s3c2440-wdt'', wdt_board\<lparr>pf_misc := None\<rparr>), bus_driver = None,
          bus_managed = Unbound wdt_start_state\<rparr>" "''s3c2440-wdt''" s3c2440_wdt 50000000 True "[]"] g(2)
    by auto
qed

end
