(* ===== verification/Watchdog_Timing.thy ===== *)
theory Watchdog_Timing
  imports Watchdog
begin

text \<open>
  When the watchdog (\<open>watchdog/driver/watchdog.c\<close>) fires.  The manual of the timer says that the
  running count goes down once every \<open>divider * (prescaler + 1)\<close> cycles of the peripheral clock and
  that the board is reset when it is used up; \<open>wdt_cycles\<close> is that time, read off the registers.
  The theory relates it to the timeout, in seconds, that the driver has accepted and reports.
\<close>

definition wdt_prescale :: "wdt \<Rightarrow> nat" where
  "wdt_prescale s = unat (drop_bit 8 (wdt_readl WTCON s) AND 0xff)"

definition wdt_divider :: "wdt \<Rightarrow> nat" where
  "wdt_divider s =
     16 * (if bit (wdt_readl WTCON s) 3 then 2 else 1) * (if bit (wdt_readl WTCON s) 4 then 4 else 1)"

definition wdt_cycles :: "wdt \<Rightarrow> nat" where
  "wdt_cycles s = unat (wdt_readl WTCNT s) * (wdt_prescale s + 1) * wdt_divider s"

text \<open>The timeouts within the reach of the prescaler.  The driver accepts some beyond it, too.\<close>

definition in_reach :: "u32 \<Rightarrow> u32 \<Rightarrow> bool" where
  "in_reach rate t \<longleftrightarrow> unat t * (unat rate div 128) < 2 ^ 24"

text \<open>For a timeout within reach, the count that every ping loads amounts to the margin, less what the
  two divisions round off; and while the timer runs its divider is 128.\<close>

definition wdt_timed :: "wdt_hdr \<Rightarrow> u32 \<Rightarrow> wdt \<Rightarrow> bool" where
  "wdt_timed h rate s \<longleftrightarrow>
     (in_reach rate (tmr_margin s) \<longrightarrow>
       (let t = unat (tmr_margin s); c = unat (wdt_count s) * (wdt_prescale s + 1) * 128 in
        c \<le> t * unat rate \<and> t * unat rate \<le> c + 127 * t + 128 * 255)) \<and>
     (wdt_enabled h s \<longrightarrow> wdt_divider s = 128)"

subsection \<open>The fields of the control register\<close>

lemma prescale_and_not:
  "drop_bit 8 (w AND NOT 0x21) AND (0xff :: u32) = drop_bit 8 w AND 0xff"
  "drop_bit 8 (w OR 0x38) AND (0xff :: u32) = drop_bit 8 w AND 0xff"
  "drop_bit 8 (w OR 4) AND (0xff :: u32) = drop_bit 8 w AND 0xff"
  "drop_bit 8 (w AND NOT 1) AND (0xff :: u32) = drop_bit 8 w AND 0xff"
  "drop_bit 8 (w AND NOT 4) AND (0xff :: u32) = drop_bit 8 w AND 0xff"
  "drop_bit 8 (w OR 1) AND (0xff :: u32) = drop_bit 8 w AND 0xff"
  by (simp_all add: drop_bit_and drop_bit_or and.assoc bit.conj_disj_distrib2)

lemma wdt_prescale_routines:
  assumes "wdt_hdr_ok h"
  shows "wdt_prescale (watchdog_start h s) = wdt_prescale s"
    "wdt_prescale (watchdog_stop h s) = wdt_prescale s"
    "wdt_prescale (watchdog_keepalive s) = wdt_prescale s"
  using prescale_and_not [of "wdt_readl WTCON s"]
  by (simp_all add: wdt_prescale_def watchdog_start_def watchdog_stop_def watchdog_stop_unlocked_def
      watchdog_keepalive_def Let_def wdt_hdr_simps [OF assms] prescale_and_not)

lemma wdt_divider_routines:
  assumes "wdt_hdr_ok h"
  shows "wdt_divider (watchdog_start h s) = 128"
    "wdt_divider (watchdog_stop h s) = wdt_divider s"
    "wdt_divider (watchdog_keepalive s) = wdt_divider s"
    "wdt_divider (snd (watchdog_set_heartbeat h rate t s)) = wdt_divider s"
  by (simp_all add: wdt_divider_def watchdog_start_def watchdog_stop_def watchdog_stop_unlocked_def
      watchdog_keepalive_def watchdog_set_heartbeat_eq Let_def wdt_hdr_simps [OF assms] bit_simps)

text \<open>A new heartbeat within reach: rounding loses less than 128 cycles a second to the clock's rate, and
  less than a divisor of 128 cycles to the count.\<close>

lemma heartbeat_rounding:
  fixes t r d :: nat
  assumes "1 \<le> d" and "d \<le> 256"
  defines "c \<equiv> t * (r div 128) div d * d * 128"
  shows "c \<le> t * r" and "t * r \<le> c + 127 * t + 128 * 255"
proof -
  define N where "N = t * (r div 128)"
  have r: "t * r = N * 128 + t * (r mod 128)"
    unfolding N_def by (metis distrib_left div_mult_mod_eq mult.assoc)
  have "t * (r mod 128) \<le> t * 127" by (rule mult_le_mono2) simp
  moreover have "N = N div d * d + N mod d" by simp
  moreover have "N mod d \<le> 255" using mod_less_divisor [of d N] assms(1,2) by linarith
  ultimately show "c \<le> t * r" "t * r \<le> c + 127 * t + 128 * 255"
    unfolding c_def N_def [symmetric] r by linarith+
qed

lemma wdt_timed_heartbeat:
  assumes "wdt_hdr_ok h"
    and "fst (watchdog_set_heartbeat h rate t s) = Inr 0" and "wdt_enabled h s \<longrightarrow> wdt_divider s = 128"
  shows "wdt_timed h rate (snd (watchdog_set_heartbeat h rate t s))"
proof (cases "in_reach rate t")
  case False
  have "tmr_margin (snd (watchdog_set_heartbeat h rate t s)) = t"
    using assms(2) by (auto simp: watchdog_set_heartbeat_eq Let_def split: if_splits)
  then show ?thesis
    using False assms(3)
    by (simp add: wdt_timed_def watchdog_set_heartbeat_timer [OF assms(1)] wdt_divider_routines [OF assms(1)])
next
  case True
  define cnt where "cnt = t * (rate div 128)"
  define d where "d = wdt_divisor_for cnt"
  note sp = heartbeat_split [OF True [unfolded in_reach_def], folded cnt_def, folded d_def]
  let ?s = "snd (watchdog_set_heartbeat h rate t s)"
  have lt: "unat (d - 1) < 256" using sp by linarith
  have s: "?s = wdt_writel ((wdt_readl WTCON s AND NOT 0xff00) OR push_bit 8 (d - 1)) WTCON
      (wdt_writel (cnt div d) WTDAT (s\<lparr>tmr_margin := t, wdt_count := cnt div d\<rparr>))"
    using assms(2)
    by (auto simp: watchdog_set_heartbeat_eq Let_def cnt_def [symmetric] d_def [symmetric]
        wdt_hdr_simps [OF assms(1)] split: if_splits)
  have "wdt_prescale ?s + 1 = unat d"
    using prescale_field(1) [OF lt] sp(2,4) by (simp add: wdt_prescale_def s)
  moreover have "unat (wdt_count ?s) = unat t * (unat rate div 128) div unat d"
    using sp(1) by (simp add: s unat_div)
  moreover have "tmr_margin ?s = t" by (simp add: s)
  moreover have "wdt_enabled h ?s \<longrightarrow> wdt_divider ?s = 128"
    using assms(3) by (simp add: watchdog_set_heartbeat_timer [OF assms(1)] wdt_divider_routines [OF assms(1)])
  ultimately show ?thesis
    using heartbeat_rounding [OF sp(2,3), of "unat t" "unat rate"]
    by (simp add: wdt_timed_def Let_def)
qed

subsection \<open>Every operation keeps the timing\<close>

lemma wdt_timed_same:
  assumes "wdt_timed h rate s" and "tmr_margin s' = tmr_margin s" "wdt_count s' = wdt_count s"
    and "wdt_prescale s' = wdt_prescale s" and "wdt_enabled h s' \<longrightarrow> wdt_divider s' = 128"
  shows "wdt_timed h rate s'"
  using assms by (simp add: wdt_timed_def)

lemma wdt_count_routines:
  "tmr_margin (watchdog_keepalive s) = tmr_margin s" "wdt_count (watchdog_keepalive s) = wdt_count s"
  "tmr_margin (watchdog_start h s) = tmr_margin s" "wdt_count (watchdog_start h s) = wdt_count s"
  "tmr_margin (watchdog_stop h s) = tmr_margin s" "wdt_count (watchdog_stop h s) = wdt_count s"
  by (simp_all add: watchdog_keepalive_def watchdog_start_def watchdog_stop_def
      watchdog_stop_unlocked_def Let_def)

lemma wdt_timed_update [simp]:
  "wdt_timed h rate (s\<lparr>expect_close := e\<rparr>) = wdt_timed h rate s"
  "wdt_timed h rate (s\<lparr>open_lock := b\<rparr>) = wdt_timed h rate s"
  "wdt_timed h rate (s\<lparr>mod_refs := n\<rparr>) = wdt_timed h rate s"
  by (simp_all add: wdt_timed_def wdt_prescale_def wdt_divider_def wdt_enabled_def)

lemma wdt_timed_routines:
  assumes "wdt_hdr_ok h" and "wdt_timed h rate s"
  shows "wdt_timed h rate (watchdog_keepalive s)" "wdt_timed h rate (watchdog_start h s)"
    "wdt_timed h rate (watchdog_stop h s)"
proof -
  have "wdt_enabled h s \<longrightarrow> wdt_divider s = 128" using assms(2) by (simp add: wdt_timed_def)
  then show "wdt_timed h rate (watchdog_keepalive s)" "wdt_timed h rate (watchdog_start h s)"
    "wdt_timed h rate (watchdog_stop h s)"
    by (auto intro!: wdt_timed_same [OF assms(2)] simp: wdt_count_routines wdt_prescale_routines [OF assms(1)]
        wdt_divider_routines [OF assms(1)] watchdog_stop_timer [OF assms(1)] wdt_simps)
qed

lemma wdt_timed_ioctl:
  assumes "wdt_hdr_ok h" and "wdt_timed h rate s"
  shows "wdt_timed h rate (snd (snd (watchdog_ioctl h rate cmd got put s)))"
proof (cases "\<exists>t. cmd = WDIOC_SETTIMEOUT \<and> got = Some t \<and> fst (watchdog_set_heartbeat h rate t s) = Inr 0")
  case True
  then obtain t where t: "cmd = WDIOC_SETTIMEOUT" "got = Some t" "fst (watchdog_set_heartbeat h rate t s) = Inr 0"
    by blast
  have "wdt_enabled h s \<longrightarrow> wdt_divider s = 128" using assms(2) by (simp add: wdt_timed_def)
  from wdt_timed_heartbeat [OF assms(1) t(3) this]
  show ?thesis using t by (simp add: watchdog_ioctl_state wdt_timed_routines [OF assms(1)])
next
  case False
  then show ?thesis using assms(2)
    by (auto simp: watchdog_ioctl_state wdt_timed_routines [OF assms(1)] split: wdioc.split option.split)
qed

interpretation wdt: machine "wdt_step h rate" "\<lambda>_. True" "\<lambda>s. wdt_hdr_ok h \<and> wdt_timed h rate s"
  for h rate
proof unfold_locales
  fix s x
  assume s: "wdt_hdr_ok h \<and> wdt_timed h rate s"
  note r = wdt_timed_routines [OF conjunct1 [OF s]]
  show "wdt_hdr_ok h \<and> wdt_timed h rate (wdt_step h rate x s)"
  proof (cases x)
    case (Op_call c)
    then show ?thesis using s
      by (cases c) (simp_all add: watchdog_write_state watchdog_irq_def Let_def r wdt_timed_ioctl)
  qed (use s in \<open>simp_all add: watchdog_open_def watchdog_release_def Let_def r\<close>)
qed

text \<open>C9 (bounds). Once a timeout has been accepted with the timer off, let any sequence of opens, closes,
  writes, ioctls and interrupts follow, every change of the timeout included.  Whenever the timer
  then runs and the timeout in force is within reach of the prescaler, a ping, however far the
  counter had run down, leaves at most that timeout until the board is reset (\<open>t\<close> seconds of \<open>rate\<close>
  cycles), and falls short of it by no more than 127 cycles for each second and 32640 cycles in
  all.  Nothing is said while a timeout beyond reach is in force, which the driver may accept and
  get wrong; one within reach that replaces it is right again.\<close>

theorem watchdog_fires_in_time:
  assumes "wdt_hdr_ok h" and "\<not> wdt_enabled h s"
    and "fst (watchdog_set_heartbeat h rate timeout s) = Inr 0"
    and "wdt_enabled h (fold (wdt_step h rate) ops (snd (watchdog_set_heartbeat h rate timeout s)))"
    and "in_reach rate (tmr_margin (fold (wdt_step h rate) ops (snd (watchdog_set_heartbeat h rate timeout s))))"
  defines "s' \<equiv> fold (wdt_step h rate) ops (snd (watchdog_set_heartbeat h rate timeout s))"
  shows "wdt_cycles (watchdog_keepalive (wdt_writel left WTCNT s')) \<le> unat (tmr_margin s') * unat rate \<and>
    unat (tmr_margin s') * unat rate \<le>
      wdt_cycles (watchdog_keepalive (wdt_writel left WTCNT s')) + 127 * unat (tmr_margin s') + 128 * 255"
proof -
  have "wdt_timed h rate (snd (watchdog_set_heartbeat h rate timeout s))"
    by (rule wdt_timed_heartbeat [OF assms(1,3)]) (simp add: assms(2))
  then have "wdt_hdr_ok h \<and> wdt_timed h rate s'"
    unfolding s'_def using wdt.run_inv [of h rate "snd (watchdog_set_heartbeat h rate timeout s)" ops] assms(1)
    by (simp add: list_all_iff)
  then have t: "wdt_timed h rate s'" "wdt_divider s' = 128"
    using assms(4) unfolding s'_def by (simp_all add: wdt_timed_def)
  have "wdt_cycles (watchdog_keepalive (wdt_writel left WTCNT s')) =
      unat (wdt_count s') * (wdt_prescale s' + 1) * 128"
  proof -
    have "wdt_divider (wdt_writel left WTCNT s') = wdt_divider s'"
      "wdt_prescale (wdt_writel left WTCNT s') = wdt_prescale s'"
      by (simp_all add: wdt_divider_def wdt_prescale_def)
    moreover have "wdt_readl WTCNT (watchdog_keepalive (wdt_writel left WTCNT s')) = wdt_count s'"
      by (simp add: watchdog_keepalive_def)
    ultimately show ?thesis
      using t(2) by (simp add: wdt_cycles_def wdt_prescale_routines [OF assms(1)] wdt_divider_routines [OF assms(1)])
  qed
  then show ?thesis using t(1) assms(5) unfolding s'_def [symmetric] by (simp add: wdt_timed_def Let_def)
qed

theorem watchdog_fires_in_time_witness:
  "wdt_cycles (watchdog_keepalive (wdt_writel 7 WTCNT (snd (watchdog_open s3c2440_wdt
      (snd (watchdog_set_heartbeat s3c2440_wdt 50000000 15 (watchdog_stop s3c2440_wdt wdt_start_state))))))) \<le> 750000000"
proof -
  let ?s = "watchdog_stop s3c2440_wdt wdt_start_state"
  let ?s1 = "snd (watchdog_set_heartbeat s3c2440_wdt 50000000 15 ?s)"
  have s: "\<not> wdt_enabled s3c2440_wdt ?s" by (rule watchdog_stop_timer) simp
  have f: "fst (watchdog_set_heartbeat s3c2440_wdt 50000000 15 ?s) = Inr 0"
    by (simp add: watchdog_set_heartbeat_eq Let_def)
  have l: "\<not> open_lock ?s1" by (simp add: wdt_simps wdt_start_state_def)
  have op: "fold (wdt_step s3c2440_wdt 50000000) [Op_open] ?s1 = snd (watchdog_open s3c2440_wdt ?s1)" by simp
  have on: "wdt_enabled s3c2440_wdt (snd (watchdog_open s3c2440_wdt ?s1))"
    using watchdog_open_state [OF l, of s3c2440_wdt] by simp
  have m: "tmr_margin (snd (watchdog_open s3c2440_wdt ?s1)) = 15"
  proof -
    have "tmr_margin ?s1 = 15" by (simp add: watchdog_set_heartbeat_eq Let_def)
    then show ?thesis using l by (simp add: watchdog_open_def Let_def wdt_count_routines)
  qed
  show ?thesis
    using watchdog_fires_in_time [OF s3c2440_wdt_ok s f, of "[Op_open]" 7] on m
    by (simp add: in_reach_def)
qed

end
