(* ===== verification/User_Threads.thy ===== *)
theory User_Threads
  imports Kernel_Api
begin

text \<open>
  Programs of several threads that share a mutex and a device file.  A thread is the tree of the
  calls it can make: every call carries the rest of the program as a function of what the call
  returns.  The same tree is run alone (\<open>run_sys\<close>) and interleaved with others
  (\<open>thread_step\<close>).  What the device answers is the parameter \<open>dev_env\<close>.
\<close>

subsection \<open>Programs\<close>

datatype ('q, 'a) sys =
    Return int
  | Abort                                       \<comment> \<open>a failed \<open>assert\<close>\<close>
  | Mutex_lock "('q, 'a) sys"
  | Mutex_unlock "('q, 'a) sys"
  | Open "int \<Rightarrow> ('q, 'a) sys"                   \<comment> \<open>the descriptor, or \<open>-1\<close>\<close>
  | Close int "('q, 'a) sys"
  | Ioctl int 'q 'a "int \<Rightarrow> 'a \<Rightarrow> ('q, 'a) sys"   \<comment> \<open>result, and the argument as the call leaves it\<close>
  | Log_err "('q, 'a) sys"                      \<comment> \<open>a line on \<open>stderr\<close>\<close>
  | Get_errno "int \<Rightarrow> ('q, 'a) sys"
  | Printf "(string \<times> int) list" "('q, 'a) sys"

text \<open>The program that goes on with the result of another one.\<close>

primrec sys_bind :: "('q, 'a) sys \<Rightarrow> (int \<Rightarrow> ('q, 'a) sys) \<Rightarrow> ('q, 'a) sys" where
  "sys_bind (Return r) f = f r"
| "sys_bind Abort f = Abort"
| "sys_bind (Mutex_lock k) f = Mutex_lock (sys_bind k f)"
| "sys_bind (Mutex_unlock k) f = Mutex_unlock (sys_bind k f)"
| "sys_bind (Open k) f = Open (\<lambda>fd. sys_bind (k fd) f)"
| "sys_bind (Close fd k) f = Close fd (sys_bind k f)"
| "sys_bind (Ioctl fd q a k) f = Ioctl fd q a (\<lambda>r b. sys_bind (k r b) f)"
| "sys_bind (Log_err k) f = Log_err (sys_bind k f)"
| "sys_bind (Get_errno k) f = Get_errno (\<lambda>e. sys_bind (k e) f)"
| "sys_bind (Printf ls k) f = Printf ls (sys_bind k f)"

subsection \<open>The process and the device\<close>

text \<open>
  \<open>dev_open\<close> sees the descriptors that are open and gives a new one or an error number;
  \<open>dev_ioctl\<close> gives the error number (0 for none), the argument it leaves and the device.  Writing
  to \<open>stderr\<close> may change \<open>errno\<close> (\<open>log_errno\<close>).
\<close>

record ('q, 'a, 'd) dev_env =
  dev_open :: "int list \<Rightarrow> 'd \<Rightarrow> (int + int) \<times> 'd"
  dev_ioctl :: "'q \<Rightarrow> 'a \<Rightarrow> 'd \<Rightarrow> (int \<times> 'a) \<times> 'd"
  dev_close :: "'d \<Rightarrow> 'd"
  log_errno :: "int \<Rightarrow> int"

definition dev_env_ok :: "('q, 'a, 'd) dev_env \<Rightarrow> bool" where
  "dev_env_ok env \<longleftrightarrow>
     (\<forall>fs d e. fst (dev_open env fs d) = Inl e \<longrightarrow> 0 < e) \<and>
     (\<forall>fs d fd. fst (dev_open env fs d) = Inr fd \<longrightarrow> 0 \<le> fd) \<and>
     (\<forall>q a d. 0 \<le> fst (fst (dev_ioctl env q a d))) \<and>
     (\<forall>e. 0 < e \<longrightarrow> 0 < log_errno env e)"

record 'd process =
  mutex :: "nat option"        \<comment> \<open>the thread that holds it\<close>
  descriptors :: "int list"
  device :: 'd
  printed_lines :: "(string \<times> int) list"
  bad_call :: "fault option"   \<comment> \<open>a release of what is not held\<close>

definition EBADF :: int where "EBADF = 9"

text \<open>One call of thread \<open>t\<close>: its program, its \<open>errno\<close> and the process.\<close>

fun sys_act :: "('q, 'a, 'd) dev_env \<Rightarrow> nat \<Rightarrow> ('q, 'a) sys \<times> int \<times> 'd process \<Rightarrow>
    ('q, 'a) sys \<times> int \<times> 'd process" where
  "sys_act env t (Return r, e, p) = (Return r, e, p)"
| "sys_act env t (Abort, e, p) = (Abort, e, p)"
| "sys_act env t (Mutex_lock k, e, p) =
     (if mutex p = None then (k, e, p\<lparr>mutex := Some t\<rparr>) else (Mutex_lock k, e, p))"
| "sys_act env t (Mutex_unlock k, e, p) =
     (if mutex p = Some t then (k, e, p\<lparr>mutex := None\<rparr>) else (k, e, p\<lparr>bad_call := Some BadRelease\<rparr>))"
| "sys_act env t (Open k, e, p) =
     (case dev_open env (descriptors p) (device p) of
        (Inl x, d) \<Rightarrow> (k (- 1), x, p\<lparr>device := d\<rparr>)
      | (Inr fd, d) \<Rightarrow> (k fd, e, p\<lparr>device := d, descriptors := fd # descriptors p\<rparr>))"
| "sys_act env t (Close fd k, e, p) =
     (if fd \<in> set (descriptors p)
      then (k, e, p\<lparr>descriptors := remove1 fd (descriptors p), device := dev_close env (device p)\<rparr>)
      else (k, EBADF, p\<lparr>bad_call := Some BadRelease\<rparr>))"
| "sys_act env t (Ioctl fd q a k, e, p) =
     (if fd \<in> set (descriptors p)
      then let ((x, b), d) = dev_ioctl env q a (device p)
           in (k (if x = 0 then 0 else - 1) b, if x = 0 then e else x, p\<lparr>device := d\<rparr>)
      else (k (- 1) a, EBADF, p))"
| "sys_act env t (Log_err k, e, p) = (k, log_errno env e, p)"
| "sys_act env t (Get_errno k, e, p) = (k e, e, p)"
| "sys_act env t (Printf ls k, e, p) = (k, e, p\<lparr>printed_lines := printed_lines p @ ls\<rparr>)"

text \<open>A program run to its end by one thread while no other moves; \<open>None\<close> is an abort.\<close>

primrec run_sys :: "('q, 'a, 'd) dev_env \<Rightarrow> nat \<Rightarrow> ('q, 'a) sys \<Rightarrow> int \<times> 'd process \<Rightarrow>
    fault + int option \<times> int \<times> 'd process" where
  "run_sys env t (Return r) = (\<lambda>(e, p). Inr (Some r, e, p))"
| "run_sys env t Abort = (\<lambda>(e, p). Inr (None, e, p))"
| "run_sys env t (Mutex_lock k) =
     (\<lambda>(e, p). if mutex p = None then run_sys env t k (e, p\<lparr>mutex := Some t\<rparr>) else Inl Blocked)"
| "run_sys env t (Mutex_unlock k) =
     (\<lambda>(e, p). if mutex p = Some t then run_sys env t k (e, p\<lparr>mutex := None\<rparr>) else Inl BadRelease)"
| "run_sys env t (Open k) =
     (\<lambda>(e, p). case dev_open env (descriptors p) (device p) of
        (Inl x, d) \<Rightarrow> run_sys env t (k (- 1)) (x, p\<lparr>device := d\<rparr>)
      | (Inr fd, d) \<Rightarrow> run_sys env t (k fd) (e, p\<lparr>device := d, descriptors := fd # descriptors p\<rparr>))"
| "run_sys env t (Close fd k) =
     (\<lambda>(e, p). if fd \<in> set (descriptors p)
      then run_sys env t k (e, p\<lparr>descriptors := remove1 fd (descriptors p), device := dev_close env (device p)\<rparr>)
      else Inl BadRelease)"
| "run_sys env t (Ioctl fd q a k) =
     (\<lambda>(e, p). if fd \<in> set (descriptors p)
      then let ((x, b), d) = dev_ioctl env q a (device p)
           in run_sys env t (k (if x = 0 then 0 else - 1) b) (if x = 0 then e else x, p\<lparr>device := d\<rparr>)
      else run_sys env t (k (- 1) a) (EBADF, p))"
| "run_sys env t (Log_err k) = (\<lambda>(e, p). run_sys env t k (log_errno env e, p))"
| "run_sys env t (Get_errno k) = (\<lambda>(e, p). run_sys env t (k e) (e, p))"
| "run_sys env t (Printf ls k) =
     (\<lambda>(e, p). run_sys env t k (e, p\<lparr>printed_lines := printed_lines p @ ls\<rparr>))"

text \<open>The threads, each with its program and its \<open>errno\<close>; a failed \<open>assert\<close> or a bad call stops all.\<close>

type_synonym ('q, 'a, 'd) threads = "(('q, 'a) sys \<times> int) list \<times> 'd process"

definition aborted :: "('q, 'a, 'd) threads \<Rightarrow> bool" where
  "aborted w \<longleftrightarrow> list_ex (\<lambda>(c, e). case c of Abort \<Rightarrow> True | _ \<Rightarrow> False) (fst w)"

definition thread_step :: "('q, 'a, 'd) dev_env \<Rightarrow> nat \<Rightarrow> ('q, 'a, 'd) threads \<Rightarrow> ('q, 'a, 'd) threads" where
  "thread_step env t w =
     (let (ths, p) = w in
      if t < length ths \<and> \<not> aborted w \<and> bad_call p = None
      then let (c, e, p) = sys_act env t (fst (ths ! t), snd (ths ! t), p) in (ths[t := (c, e)], p)
      else w)"

subsection \<open>Programs that use the lock and the descriptor properly\<close>

text \<open>\<open>proper h od c\<close>: run by a thread that holds the lock iff \<open>h\<close> and has descriptor \<open>od\<close> open, the
  program \<open>c\<close> opens only under the lock and when nothing is open, uses and closes only what it
  opened, unlocks only when it holds the lock and nothing is open, and ends without either.\<close>

primrec proper :: "bool \<Rightarrow> int option \<Rightarrow> ('q, 'a) sys \<Rightarrow> bool" where
  "proper h od (Return r) \<longleftrightarrow> \<not> h \<and> od = None"
| "proper h od Abort \<longleftrightarrow> \<not> h \<and> od = None"
| "proper h od (Mutex_lock k) \<longleftrightarrow> \<not> h \<and> od = None \<and> proper True None k"
| "proper h od (Mutex_unlock k) \<longleftrightarrow> h \<and> od = None \<and> proper False None k"
| "proper h od (Open k) \<longleftrightarrow> h \<and> od = None \<and> (\<forall>fd. proper h (if fd < 0 then None else Some fd) (k fd))"
| "proper h od (Close fd k) \<longleftrightarrow> h \<and> od = Some fd \<and> proper h None k"
| "proper h od (Ioctl fd q a k) \<longleftrightarrow> h \<and> od = Some fd \<and> (\<forall>r b. proper h od (k r b))"
| "proper h od (Log_err k) \<longleftrightarrow> proper h od k"
| "proper h od (Get_errno k) \<longleftrightarrow> (\<forall>e. proper h od (k e))"
| "proper h od (Printf ls k) \<longleftrightarrow> proper h od k"

lemma proper_bind:
  "proper h od c \<Longrightarrow> (\<And>r. proper False None (f r)) \<Longrightarrow> proper h od (sys_bind c f)"
proof (induction c arbitrary: h od)
  case (Ioctl fd q a k)
  have "\<forall>r b. proper h od (k r b)" using Ioctl.prems(1) unfolding proper.simps by blast
  then have "proper h od (sys_bind (k r b) f)" for r b
    using Ioctl.IH [OF rangeI rangeI] Ioctl.prems(2) by blast
  then show ?case using Ioctl.prems by simp
qed (auto split: if_splits)

definition opened :: "'d process \<Rightarrow> int option" where
  "opened p = (case descriptors p of [] \<Rightarrow> None | fd # _ \<Rightarrow> Some fd)"

text \<open>What thread \<open>t\<close> sees of the process is proper for it.\<close>

definition own :: "nat \<Rightarrow> 'd process \<Rightarrow> int option" where
  "own t p = (if mutex p = Some t then opened p else None)"

definition process_ok :: "'d process \<Rightarrow> bool" where
  "process_ok p \<longleftrightarrow> bad_call p = None \<and> length (descriptors p) \<le> 1 \<and>
     (mutex p = None \<longrightarrow> descriptors p = [])"

lemma opened_simps [simp]:
  "descriptors p = [] \<Longrightarrow> opened p = None" "descriptors p = fd # fds \<Longrightarrow> opened p = Some fd"
  "opened p = Some fd \<longleftrightarrow> (\<exists>fds. descriptors p = fd # fds)" "opened p = None \<longleftrightarrow> descriptors p = []"
  by (auto simp: opened_def split: list.splits)

text \<open>A call by one thread keeps the process and its own program proper, and nothing another thread
  relies on changes.\<close>

lemma sys_act_proper:
  assumes "sys_act env t (c, e, p) = (c', e', p')" and env: "dev_env_ok env"
    and "process_ok p" and "proper (mutex p = Some t) (own t p) c"
  shows "process_ok p' \<and> proper (mutex p' = Some t) (own t p') c' \<and>
    (\<forall>u. u \<noteq> t \<longrightarrow> (mutex p' = Some u \<longleftrightarrow> mutex p = Some u) \<and> own u p' = own u p)"
proof (cases c)
  case (Open k)
  then show ?thesis using assms(1,3,4) env
    by (auto simp: process_ok_def own_def dev_env_ok_def opened_def split: prod.splits sum.splits list.splits if_splits)
      (metis fst_conv not_le)+
next
  case (Ioctl fd q a k)
  then show ?thesis using assms(1,3,4)
    by (auto simp: process_ok_def own_def opened_def split: prod.splits list.splits if_splits)
qed (use assms(1,3,4) in \<open>auto simp: process_ok_def own_def opened_def split: prod.splits list.splits if_splits\<close>)

definition threads_ok :: "('q, 'a, 'd) threads \<Rightarrow> bool" where
  "threads_ok w \<longleftrightarrow> process_ok (snd w) \<and>
     (\<forall>t < length (fst w). proper (mutex (snd w) = Some t) (own t (snd w)) (fst (fst w ! t))) \<and>
     (\<forall>t. mutex (snd w) = Some t \<longrightarrow> t < length (fst w))"

lemma thread_step_ok:
  assumes env: "dev_env_ok env" and ok: "threads_ok w"
  shows "threads_ok (thread_step env t w)"
proof -
  obtain ths p where w: "w = (ths, p)" by fastforce
  show ?thesis
  proof (cases "t < length ths \<and> \<not> aborted w \<and> bad_call p = None")
    case True
    obtain c e p' where act: "sys_act env t (fst (ths ! t), snd (ths ! t), p) = (c, e, p')"
      by (metis prod_cases3)
    have step: "thread_step env t w = (ths[t := (c, e)], p')"
      using True act by (simp add: thread_step_def w)
    have "process_ok p" "proper (mutex p = Some t) (own t p) (fst (ths ! t))"
      using ok True by (auto simp: threads_ok_def w)
    from sys_act_proper [OF act env this] have *: "process_ok p'" "proper (mutex p' = Some t) (own t p') c"
      "\<And>u. u \<noteq> t \<Longrightarrow> (mutex p' = Some u \<longleftrightarrow> mutex p = Some u) \<and> own u p' = own u p" by auto
    have "proper (mutex p' = Some u) (own u p') (fst (ths[t := (c, e)] ! u))" if "u < length ths" for u
      using that ok * True by (cases "u = t") (auto simp: threads_ok_def w)
    moreover have "u < length ths" if "mutex p' = Some u" for u
      using that ok *(3) [of u] True by (cases "u = t") (auto simp: threads_ok_def w)
    ultimately show ?thesis using *(1) by (simp add: threads_ok_def step)
  next
    case False
    then show ?thesis using ok by (auto simp: thread_step_def w)
  qed
qed

text \<open>The device may answer each call by other rules than the last one.\<close>

interpretation threads: machine "\<lambda>(env, t). thread_step env t" "\<lambda>(env, t). dev_env_ok env" threads_ok
  by unfold_locales (auto simp: thread_step_ok)

subsection \<open>Every thread can finish\<close>

lemma run_sys_step:
  assumes act: "sys_act env t (c, e, p) = (c', e', p')" and env: "dev_env_ok env"
    and ok: "process_ok p" "proper (mutex p = Some t) (own t p) c"
    and free: "mutex p = None \<or> mutex p = Some t"
  shows "run_sys env t c (e, p) = run_sys env t c' (e', p')" and "process_ok p'"
    and "proper (mutex p' = Some t) (own t p') c'" and "mutex p' = None \<or> mutex p' = Some t"
proof -
  show "run_sys env t c (e, p) = run_sys env t c' (e', p')"
    using act ok free
    by (cases c) (auto simp: own_def opened_def split: prod.splits sum.splits list.splits if_splits)
  show "process_ok p'" "proper (mutex p' = Some t) (own t p') c'"
    using sys_act_proper [OF act env ok] by blast+
  show "mutex p' = None \<or> mutex p' = Some t"
    using sys_act_proper [OF act env ok] free by (metis not_None_eq option.inject)
qed

definition completes :: "('q, 'a, 'd) dev_env \<Rightarrow> nat \<Rightarrow> ('q, 'a) sys \<Rightarrow> int \<Rightarrow> 'd process \<Rightarrow> bool" where
  "completes env t c e p \<longleftrightarrow> (\<exists>r e' p'. run_sys env t c (e, p) = Inr (r, e', p') \<and>
     mutex p' = None \<and> process_ok p')"

lemma completes_step:
  assumes "dev_env_ok env" and "process_ok p" "proper (mutex p = Some t) (own t p) c"
    and "mutex p = None \<or> mutex p = Some t"
    and IH: "\<And>c' e' p'. sys_act env t (c, e, p) = (c', e', p') \<Longrightarrow> process_ok p' \<Longrightarrow>
      proper (mutex p' = Some t) (own t p') c' \<Longrightarrow> mutex p' = None \<or> mutex p' = Some t \<Longrightarrow>
      completes env t c' e' p'"
  shows "completes env t c e p"
proof -
  obtain c' e' p' where act: "sys_act env t (c, e, p) = (c', e', p')" by (metis prod_cases3)
  note step = run_sys_step [OF act assms(1-4)]
  show ?thesis using IH [OF act step(2-4)] step(1) by (simp add: completes_def)
qed

lemma run_sys_total:
  "dev_env_ok env \<Longrightarrow> process_ok p \<Longrightarrow> proper (mutex p = Some t) (own t p) c \<Longrightarrow>
     mutex p = None \<or> mutex p = Some t \<Longrightarrow> completes env t c e p"
proof (induction c arbitrary: e p)
  case (Ioctl fd q a k)
  have sub: "\<exists>x b. c' = k x b" if "sys_act env t (Ioctl fd q a k, e, p) = (c', e', p')" for c' e' p'
    using that by (auto split: if_splits prod.splits)
  show ?case
    by (rule completes_step [OF Ioctl.prems]) (use sub Ioctl.IH [OF rangeI rangeI] Ioctl.prems(1) in blast)
next
  case (Open k)
  have sub: "\<exists>x. c' = k x" if "sys_act env t (Open k, e, p) = (c', e', p')" for c' e' p'
    using that by (auto split: prod.splits sum.splits)
  show ?case
    by (rule completes_step [OF Open.prems]) (use sub Open.IH [OF rangeI] Open.prems(1) in blast)
next
  case (Get_errno k)
  show ?case
    by (rule completes_step [OF Get_errno.prems]) (use Get_errno.IH [OF rangeI] Get_errno.prems(1) in auto)
next
  case (Mutex_lock k)
  show ?case
    by (rule completes_step [OF Mutex_lock.prems])
      (use Mutex_lock in \<open>auto split: if_splits\<close>)
next
  case (Mutex_unlock k)
  show ?case
    by (rule completes_step [OF Mutex_unlock.prems])
      (use Mutex_unlock in \<open>auto split: if_splits\<close>)
next
  case (Close fd k)
  show ?case
    by (rule completes_step [OF Close.prems]) (use Close in \<open>auto split: if_splits\<close>)
next
  case (Log_err k)
  show ?case by (rule completes_step [OF Log_err.prems]) (use Log_err in auto)
next
  case (Printf ls k)
  show ?case by (rule completes_step [OF Printf.prems]) (use Printf in auto)
qed (auto simp: completes_def)

definition ended :: "int option \<Rightarrow> ('q, 'a) sys" where
  "ended r = (case r of None \<Rightarrow> Abort | Some n \<Rightarrow> Return n)"

text \<open>Running alone is what the single calls add up to.\<close>

lemma run_sys_acts:
  "run_sys env t c (e, p) = Inr (r, e', p') \<Longrightarrow> \<exists>n. (sys_act env t ^^ n) (c, e, p) = (ended r, e', p')"
proof (induction c arbitrary: e p)
  case (Return x)
  then show ?case by (intro exI [of _ 0]) (auto simp: ended_def)
next
  case Abort
  then show ?case by (intro exI [of _ 0]) (auto simp: ended_def)
next
  case (Open k)
  show ?case
  proof (cases "dev_open env (descriptors p) (device p)")
    case (Pair a d)
    have "\<exists>c e1 p1. sys_act env t (Open k, e, p) = (c, e1, p1) \<and> c \<in> range k \<and> run_sys env t c (e1, p1) = Inr (r, e', p')"
      using Open.prems Pair by (cases a) auto
    then obtain c e1 p1 n where "sys_act env t (Open k, e, p) = (c, e1, p1)"
      "(sys_act env t ^^ n) (c, e1, p1) = (ended r, e', p')"
      using Open.IH by blast
    then show ?thesis by (intro exI [of _ "Suc n"]) (simp add: funpow_Suc_right del: funpow.simps)
  qed
next
  case (Ioctl fd q a k)
  have "\<exists>x b e1 p1. sys_act env t (Ioctl fd q a k, e, p) = (k x b, e1, p1) \<and>
      run_sys env t (k x b) (e1, p1) = Inr (r, e', p')"
    using Ioctl.prems
    by (cases "dev_ioctl env q a (device p)"; cases "fst (dev_ioctl env q a (device p))")
      (auto simp: Let_def split: if_splits)
  then obtain x b e1 p1 where x: "sys_act env t (Ioctl fd q a k, e, p) = (k x b, e1, p1)"
    "run_sys env t (k x b) (e1, p1) = Inr (r, e', p')" by blast
  from Ioctl.IH [OF _ _ x(2)] obtain n where "(sys_act env t ^^ n) (k x b, e1, p1) = (ended r, e', p')"
    by blast
  then show ?case using x(1) by (intro exI [of _ "Suc n"]) (simp add: funpow_Suc_right del: funpow.simps)
qed (fastforce simp: funpow_Suc_right simp del: funpow.simps split: if_splits intro: exI [of _ "Suc _"])+

subsection \<open>Every schedule can be continued to the end\<close>

definition settled :: "('q, 'a, 'd) threads \<Rightarrow> bool" where
  "settled w \<longleftrightarrow> aborted w \<or> list_all (\<lambda>(c, e). case c of Return r \<Rightarrow> True | _ \<Rightarrow> False) (fst w)"

lemma thread_steps_ok: "dev_env_ok env \<Longrightarrow> threads_ok w \<Longrightarrow> threads_ok ((thread_step env t ^^ n) w)"
  by (induction n) (simp_all add: thread_step_ok)

text \<open>A thread's steps, as long as nothing is aborted, are its calls one after the other.\<close>

lemma thread_steps_acts:
  assumes "dev_env_ok env" and "threads_ok (ths, p)" and t: "t < length ths" and live: "\<not> aborted (ths, p)"
  shows "(thread_step env t ^^ n) (ths, p) =
    (case (sys_act env t ^^ n) (fst (ths ! t), snd (ths ! t), p) of (c, e, p') \<Rightarrow> (ths[t := (c, e)], p'))"
proof (induction n)
  case 0
  show ?case by simp
next
  case (Suc n)
  obtain c e p' where act: "(sys_act env t ^^ n) (fst (ths ! t), snd (ths ! t), p) = (c, e, p')"
    by (metis prod_cases3)
  have st: "(thread_step env t ^^ n) (ths, p) = (ths[t := (c, e)], p')" using Suc act by simp
  then have ok: "bad_call p' = None"
    using thread_steps_ok [OF assms(1,2), of n t] by (simp add: threads_ok_def process_ok_def)
  show ?case
  proof (cases "c = Abort")
    case True
    then have "aborted (ths[t := (c, e)], p')"
      using t by (auto simp: aborted_def list_ex_iff set_update_memI intro!: bexI [of _ "(Abort, e)"])
    then have "thread_step env t (ths[t := (c, e)], p') = (ths[t := (c, e)], p')"
      by (simp add: thread_step_def)
    then show ?thesis using st act True by simp
  next
    case False
    have "\<not> aborted (ths[t := (c, e)], p')"
      using live False set_update_subset_insert [of ths t "(c, e)"]
      by (auto simp: aborted_def list_ex_iff split: sys.splits)
    then have "thread_step env t (ths[t := (c, e)], p') =
        (case sys_act env t (c, e, p') of (c, e, p') \<Rightarrow> (ths[t := (c, e)], p'))"
      using ok t by (simp add: thread_step_def split: prod.splits)
    then show ?thesis using st act by simp
  qed
qed

definition unfinished :: "('q, 'a, 'd) threads \<Rightarrow> nat set" where
  "unfinished w = {t. t < length (fst w) \<and> (\<forall>r. fst (fst w ! t) \<noteq> Return r)}"

lemma settle_one:
  assumes env: "dev_env_ok env" and ok: "threads_ok w" and live: "\<not> aborted w"
    and t: "t \<in> unfinished w" and free: "mutex (snd w) = None \<or> mutex (snd w) = Some t"
  shows "\<exists>n. aborted ((thread_step env t ^^ n) w) \<or>
    unfinished ((thread_step env t ^^ n) w) \<subset> unfinished w \<and> mutex (snd ((thread_step env t ^^ n) w)) = None"
proof -
  obtain ths p where w: "w = (ths, p)" by fastforce
  have t': "t < length ths" using t by (simp add: unfinished_def w)
  have pr: "process_ok p" "proper (mutex p = Some t) (own t p) (fst (ths ! t))"
    using ok t' by (auto simp: threads_ok_def w)
  have "completes env t (fst (ths ! t)) (snd (ths ! t)) p"
    using run_sys_total [OF env pr] free by (simp add: w)
  then obtain r e' p' where "run_sys env t (fst (ths ! t)) (snd (ths ! t), p) = Inr (r, e', p')" "mutex p' = None"
    unfolding completes_def by blast
  moreover from run_sys_acts [OF this(1)] obtain n where
    "(sys_act env t ^^ n) (fst (ths ! t), snd (ths ! t), p) = (ended r, e', p')" by blast
  ultimately have st: "(thread_step env t ^^ n) w = (ths[t := (ended r, e')], p')" "mutex p' = None"
    using thread_steps_acts [OF env ok [unfolded w] t' live [unfolded w], of n] by (simp_all add: w)
  show ?thesis
  proof (cases r)
    case None
    then have "aborted (ths[t := (ended r, e')], p')"
      using t' by (auto simp: ended_def aborted_def list_ex_iff set_update_memI intro!: bexI [of _ "(Abort, e')"])
    then show ?thesis using st by metis
  next
    case (Some x)
    have "unfinished (ths[t := (ended r, e')], p') = unfinished w - {t}"
      using t' Some by (auto simp: unfinished_def w ended_def nth_list_update)
    then show ?thesis using st t by (metis Diff_subset insert_Diff_single insert_absorb psubsetI insertCI snd_conv Diff_iff)
  qed
qed

lemma can_settle:
  assumes env: "dev_env_ok env"
  shows "threads_ok w \<Longrightarrow> \<exists>ts. settled (fold (thread_step env) ts w)"
proof (induction "card (unfinished w)" arbitrary: w rule: less_induct)
  case less
  have fin: "finite (unfinished w)" by (simp add: unfinished_def)
  have rep: "fold (thread_step env) (replicate n t) w = (thread_step env t ^^ n) w" for n t
    by (induction n arbitrary: w) (simp_all add: funpow_Suc_right del: funpow.simps)
  show ?case
  proof (cases "aborted w \<or> unfinished w = {}")
    case True
    then have "settled w"
      by (auto simp: settled_def unfinished_def list_all_length split: sys.splits prod.splits)
    then show ?thesis by (intro exI [of _ "[]"]) simp
  next
    case False
    have "\<exists>t \<in> unfinished w. mutex (snd w) = None \<or> mutex (snd w) = Some t"
    proof (cases "mutex (snd w)")
      case (Some u)
      then have u: "u < length (fst w)" "proper True (own u (snd w)) (fst (fst w ! u))"
        using less.prems by (auto simp: threads_ok_def)
      then have "u \<in> unfinished w" by (auto simp: unfinished_def)
      then show ?thesis using Some by auto
    qed (use False in auto)
    then obtain t where t: "t \<in> unfinished w" "mutex (snd w) = None \<or> mutex (snd w) = Some t" by blast
    obtain n where n: "aborted ((thread_step env t ^^ n) w) \<or>
        unfinished ((thread_step env t ^^ n) w) \<subset> unfinished w"
      using settle_one [OF env less.prems _ t] False by blast
    show ?thesis
    proof (cases "aborted ((thread_step env t ^^ n) w)")
      case True
      then show ?thesis using rep by (intro exI [of _ "replicate n t"]) (simp add: settled_def)
    next
      case False
      then have "card (unfinished ((thread_step env t ^^ n) w)) < card (unfinished w)"
        using n fin by (simp add: psubset_card_mono)
      from less.hyps [OF this thread_steps_ok [OF env less.prems]] obtain ts where
        "settled (fold (thread_step env) ts ((thread_step env t ^^ n) w))" by blast
      then show ?thesis using rep by (intro exI [of _ "replicate n t @ ts"]) simp
    qed
  qed
qed

subsection \<open>Running one program after another\<close>

lemma run_sys_bind:
  "run_sys env t (sys_bind c f) (e, p) =
     (case run_sys env t c (e, p) of
        Inl x \<Rightarrow> Inl x
      | Inr (r, e', p') \<Rightarrow> (case r of None \<Rightarrow> Inr (None, e', p') | Some n \<Rightarrow> run_sys env t (f n) (e', p')))"
proof (induction c arbitrary: e p)
  case (Ioctl fd q a k)
  note IH = Ioctl.IH [OF rangeI rangeI]
  show ?case by (simp add: Let_def IH split: prod.splits)
qed (simp_all split: prod.splits sum.splits)

text \<open>Nothing held and nothing open.\<close>

definition idle :: "'d process \<Rightarrow> bool" where
  "idle p \<longleftrightarrow> mutex p = None \<and> descriptors p = [] \<and> bad_call p = None"

lemma idle_process_ok [simp]: "idle p \<Longrightarrow> process_ok p"
  by (simp add: idle_def process_ok_def)

end
