(* ===== verification/Rtc.thy ===== *)
theory Rtc
  imports Kernel_Api
begin

text \<open>
  The real-time clock driver (\<open>rtc/driver/rtc.c\<close>).  The state is the bank of 8-bit registers, the
  interrupt numbers, the values saved over a suspend, and the ledger of resources.  The clock
  counts by itself, so reading the time takes the bank as it is at each successive read.  Bit
  masks, the two BCD routines and \<open>is_power_of_2\<close> come from headers outside the repository; they
  are the parameter \<open>rtc_hdr\<close>, and \<open>rtc_hdr_ok\<close> states what their documentation says of them.
\<close>

datatype rtc_reg =
    RTCCON | TICNT | RTCALM | ALMSEC | ALMMIN | ALMHOUR | ALMDATE | ALMMON | ALMYEAR
  | RTCSEC | RTCMIN | RTCHOUR | RTCDATE | RTCMON | RTCYEAR

text \<open>\<open>S3C2410_RTCCON\<close> and \<open>S3C2410_RTCALM\<close> are the offsets of two registers; the driver also uses
  them as bit masks.\<close>

record rtc_hdr =
  S3C2410_RTCCON :: u32
  S3C2410_RTCCON_RTCEN :: u32
  S3C2410_RTCCON_CNTSEL :: u32
  S3C2410_RTCCON_CLKRST :: u32
  S3C2410_TICNT_ENABLE :: u32
  S3C2410_RTCALM :: u32
  S3C2410_RTCALM_ALMEN :: u32
  S3C2410_RTCALM_YEAREN :: u32
  S3C2410_RTCALM_MONEN :: u32
  S3C2410_RTCALM_DAYEN :: u32
  S3C2410_RTCALM_HOUREN :: u32
  S3C2410_RTCALM_MINEN :: u32
  S3C2410_RTCALM_SECEN :: u32
  bcd2bin :: "u8 \<Rightarrow> u32"
  bin2bcd :: "u32 \<Rightarrow> u8"
  is_power_of_2 :: "u32 \<Rightarrow> bool"

definition rtc_hdr_ok :: "rtc_hdr \<Rightarrow> bool" where
  "rtc_hdr_ok h \<longleftrightarrow>
     S3C2410_RTCCON h = 0x40 \<and> S3C2410_RTCCON_RTCEN h = 1 \<and> S3C2410_RTCCON_CNTSEL h = 4 \<and>
     S3C2410_RTCCON_CLKRST h = 8 \<and> S3C2410_TICNT_ENABLE h = 0x80 \<and> S3C2410_RTCALM h = 0x50 \<and>
     S3C2410_RTCALM_ALMEN h = 0x40 \<and> S3C2410_RTCALM_YEAREN h = 0x20 \<and>
     S3C2410_RTCALM_MONEN h = 0x10 \<and> S3C2410_RTCALM_DAYEN h = 8 \<and> S3C2410_RTCALM_HOUREN h = 4 \<and>
     S3C2410_RTCALM_MINEN h = 2 \<and> S3C2410_RTCALM_SECEN h = 1 \<and>
     (\<forall>v. unat v < 100 \<longrightarrow> bcd2bin h (bin2bcd h v) = v) \<and>
     (\<forall>v. unat v < 100 \<longrightarrow> (bin2bcd h v = 0 \<longleftrightarrow> v = 0)) \<and>
     (\<forall>v. is_power_of_2 h v \<longleftrightarrow> (\<exists>k<32. unat v = 2 ^ k))"

record rtc_time =
  tm_sec :: s32
  tm_min :: s32
  tm_hour :: s32
  tm_mday :: s32
  tm_mon :: s32
  tm_year :: s32

record rtc_wkalrm =
  enabled :: u8
  alm_time :: rtc_time

datatype rtc_flag = RTC_AF | RTC_PF | RTC_IRQF

text \<open>\<open>wake_depth\<close> counts \<open>enable_irq_wake\<close> less \<open>disable_irq_wake\<close>; \<open>rtc_events\<close> are the updates
  handed to the RTC core; \<open>rtc_busy\<close> is the core's mark on an open device, which no routine of the
  driver touches.\<close>

record rtc =
  rtc_regs :: "rtc_reg \<Rightarrow> u8"
  rtc_alarmno :: s32
  rtc_tickno :: s32
  ticnt_save :: s32
  wake_depth :: int
  wake_capable :: bool
  max_user_freq :: s32
  rtc_events :: "rtc_flag list list"
  rtc_busy :: bool
  rtc_held :: ledger

definition rtc_readb :: "rtc_reg \<Rightarrow> rtc \<Rightarrow> u32" where
  "rtc_readb r s = readb (rtc_regs s) r"

definition rtc_writeb :: "u32 \<Rightarrow> rtc_reg \<Rightarrow> rtc \<Rightarrow> rtc" where
  "rtc_writeb v r s = s\<lparr>rtc_regs := writeb v r (rtc_regs s)\<rparr>"

subsection \<open>Control register and tick interrupt\<close>

definition rtc_enable :: "rtc_hdr \<Rightarrow> s32 \<Rightarrow> rtc \<Rightarrow> rtc" where
  "rtc_enable h flag s =
     (if flag = 0 then
        let tmp = rtc_readb RTCCON s;
            s = rtc_writeb (tmp AND NOT (S3C2410_RTCCON_RTCEN h)) RTCCON s;
            tmp = rtc_readb TICNT s
        in rtc_writeb (tmp AND NOT (S3C2410_TICNT_ENABLE h)) TICNT s
      else
        let tmp = rtc_readb RTCCON s;
            s = (if tmp AND S3C2410_RTCCON_RTCEN h = 0
                 then rtc_writeb (rtc_readb RTCCON s OR S3C2410_RTCCON_RTCEN h) RTCCON s else s);
            tmp = rtc_readb RTCCON s;
            s = (if tmp AND S3C2410_RTCCON_CNTSEL h \<noteq> 0
                 then rtc_writeb (rtc_readb RTCCON s AND NOT (S3C2410_RTCCON h)) RTCCON s else s);
            tmp = rtc_readb RTCCON s
        in if tmp AND S3C2410_RTCCON_CLKRST h \<noteq> 0
           then rtc_writeb (rtc_readb RTCCON s AND NOT (S3C2410_RTCCON_CLKRST h)) RTCCON s else s)"

definition rtc_setfreq :: "rtc_hdr \<Rightarrow> s32 \<Rightarrow> rtc \<Rightarrow> int result \<times> rtc" where
  "rtc_setfreq h freq s =
     (if \<not> is_power_of_2 h freq then (Inl EINVAL, s)
      else let tmp = rtc_readb TICNT s;
               tmp = tmp AND S3C2410_TICNT_ENABLE h;
               tmp = tmp OR (c_div 128 freq - 1)
           in (Inr 0, rtc_writeb tmp TICNT s))"

definition rtc_setpie :: "rtc_hdr \<Rightarrow> s32 \<Rightarrow> rtc \<Rightarrow> int result \<times> rtc" where
  "rtc_setpie h flag s =
     (let tmp = rtc_readb TICNT s;
          tmp = tmp AND NOT (S3C2410_TICNT_ENABLE h);
          tmp = (if flag \<noteq> 0 then tmp OR S3C2410_TICNT_ENABLE h else tmp)
      in (Inr 0, rtc_writeb tmp TICNT s))"

subsection \<open>Time\<close>

text \<open>The six reads of one pass, the first of them being read number \<open>k\<close> of the call; the seconds
  are read last.  \<open>clk i\<close> is the bank at read number \<open>i\<close>.\<close>

definition rtc_read_pass :: "(nat \<Rightarrow> rtc_reg \<Rightarrow> u8) \<Rightarrow> nat \<Rightarrow> rtc_time" where
  "rtc_read_pass clk k =
     \<lparr>tm_sec = readb (clk (k + 5)) RTCSEC, tm_min = readb (clk k) RTCMIN,
      tm_hour = readb (clk (k + 1)) RTCHOUR, tm_mday = readb (clk (k + 2)) RTCDATE,
      tm_mon = readb (clk (k + 3)) RTCMON, tm_year = readb (clk (k + 4)) RTCYEAR\<rparr>"

definition rtc_gettime :: "rtc_hdr \<Rightarrow> (nat \<Rightarrow> rtc_reg \<Rightarrow> u8) \<Rightarrow> rtc_time" where
  "rtc_gettime h clk =
     (let t = rtc_read_pass clk 0;
          t = (if tm_sec t = 0 then rtc_read_pass clk 6 else t);
          bin = (\<lambda>v :: s32. bcd2bin h (ucast v))
      in \<lparr>tm_sec = bin (tm_sec t), tm_min = bin (tm_min t), tm_hour = bin (tm_hour t),
          tm_mday = bin (tm_mday t), tm_mon = bin (tm_mon t) - 1, tm_year = bin (tm_year t) + 100\<rparr>)"

text \<open>Setting the time changes the caller's structure, too.\<close>

definition rtc_settime :: "rtc_hdr \<Rightarrow> rtc_time \<Rightarrow> rtc \<Rightarrow> int result \<times> rtc_time \<times> rtc" where
  "rtc_settime h tm s =
     (let tm = tm\<lparr>tm_year := tm_year tm - 100\<rparr>;
          tm = tm\<lparr>tm_mon := tm_mon tm + 1\<rparr>
      in if sint (tm_year tm) < 0 \<or> sint (tm_year tm) \<ge> 100 then (Inl EINVAL, tm, s)
         else
           let s = rtc_writeb (ucast (bin2bcd h (tm_sec tm))) RTCSEC s;
               s = rtc_writeb (ucast (bin2bcd h (tm_min tm))) RTCMIN s;
               s = rtc_writeb (ucast (bin2bcd h (tm_hour tm))) RTCHOUR s;
               s = rtc_writeb (ucast (bin2bcd h (tm_mday tm))) RTCDATE s;
               s = rtc_writeb (ucast (bin2bcd h (tm_mon tm))) RTCMON s;
               s = rtc_writeb (ucast (bin2bcd h (tm_year tm))) RTCYEAR s
           in (Inr 0, tm, s))"

subsection \<open>Alarm\<close>

definition rtc_getalarm :: "rtc_hdr \<Rightarrow> rtc \<Rightarrow> rtc_wkalrm" where
  "rtc_getalarm h s =
     (let sec = rtc_readb ALMSEC s; mn = rtc_readb ALMMIN s; hour = rtc_readb ALMHOUR s;
          mon = rtc_readb ALMMON s; mday = rtc_readb ALMDATE s; year = rtc_readb ALMYEAR s;
          alarm_en = rtc_readb RTCALM s;
          bin = (\<lambda>v :: s32. bcd2bin h (ucast v))
      in \<lparr>enabled = (if alarm_en AND S3C2410_RTCALM h \<noteq> 0 then 1 else 0),
          alm_time =
            \<lparr>tm_sec = (if alarm_en AND S3C2410_RTCALM_SECEN h \<noteq> 0 then bin sec else 0xff),
             tm_min = (if alarm_en AND S3C2410_RTCALM_MINEN h \<noteq> 0 then bin mn else 0xff),
             tm_hour = (if alarm_en AND S3C2410_RTCALM_HOUREN h \<noteq> 0 then bin hour else 0xff),
             tm_mday = (if alarm_en AND S3C2410_RTCALM_DAYEN h \<noteq> 0 then bin mday else 0xff),
             tm_mon = (if alarm_en AND S3C2410_RTCALM_MONEN h \<noteq> 0 then bin mon - 1 else 0xff),
             tm_year = (if alarm_en AND S3C2410_RTCALM_YEAREN h \<noteq> 0 then bin year else 0xffff)\<rparr>\<rparr>)"

definition rtc_setaie :: "rtc_hdr \<Rightarrow> s32 \<Rightarrow> rtc \<Rightarrow> rtc" where
  "rtc_setaie h flag s =
     (let tmp = rtc_readb RTCALM s;
          tmp = tmp AND NOT (S3C2410_RTCALM_ALMEN h);
          tmp = (if flag \<noteq> 0 then tmp OR S3C2410_RTCALM_ALMEN h else tmp)
      in rtc_writeb tmp RTCALM s)"

text \<open>The minute branch enables the seconds comparison and stores the seconds, as the source has
  it.\<close>

definition rtc_setalarm :: "rtc_hdr \<Rightarrow> rtc_wkalrm \<Rightarrow> rtc \<Rightarrow> int result \<times> rtc" where
  "rtc_setalarm h alarm s =
     (let tm = alm_time alarm;
          alarm_en = rtc_readb RTCALM s;
          alarm_en = alarm_en AND S3C2410_RTCALM_ALMEN h;
          s = rtc_writeb 0 RTCALM s;
          (alarm_en, s) =
            (if sint (tm_sec tm) < 60 \<and> sint (tm_sec tm) \<ge> 0
             then (alarm_en OR S3C2410_RTCALM_SECEN h,
                   rtc_writeb (ucast (bin2bcd h (tm_sec tm))) ALMSEC s)
             else (alarm_en, s));
          (alarm_en, s) =
            (if sint (tm_min tm) < 60 \<and> sint (tm_min tm) \<ge> 0
             then (alarm_en OR S3C2410_RTCALM_SECEN h,
                   rtc_writeb (ucast (bin2bcd h (tm_sec tm))) ALMMIN s)
             else (alarm_en, s));
          (alarm_en, s) =
            (if sint (tm_hour tm) < 24 \<and> sint (tm_hour tm) \<ge> 0
             then (alarm_en OR S3C2410_RTCALM_HOUREN h,
                   rtc_writeb (ucast (bin2bcd h (tm_hour tm))) ALMHOUR s)
             else (alarm_en, s));
          s = rtc_writeb alarm_en RTCALM s;
          s = rtc_setaie h (ucast (enabled alarm)) s;
          s = (if enabled alarm \<noteq> 0 then s\<lparr>wake_depth := wake_depth s + 1\<rparr>
               else s\<lparr>wake_depth := wake_depth s - 1\<rparr>)
      in (Inr 0, s))"

subsection \<open>Interrupts, open and release\<close>

definition rtc_update_irq :: "rtc_flag list \<Rightarrow> rtc \<Rightarrow> rtc" where
  "rtc_update_irq fl s = s\<lparr>rtc_events := rtc_events s @ [fl]\<rparr>"

definition rtc_alarmirq :: "rtc \<Rightarrow> rtc" where
  "rtc_alarmirq s = rtc_update_irq [RTC_AF, RTC_IRQF] s"

definition rtc_tickirq :: "rtc \<Rightarrow> rtc" where
  "rtc_tickirq s = rtc_update_irq [RTC_PF, RTC_IRQF] s"

definition rtc_hold :: "resource \<Rightarrow> rtc \<Rightarrow> rtc" where
  "rtc_hold r s = s\<lparr>rtc_held := take_res r (rtc_held s)\<rparr>"

definition rtc_drop :: "resource list \<Rightarrow> rtc \<Rightarrow> fault + rtc" where
  "rtc_drop rs s = seq (give_all rs (rtc_held s)) (\<lambda>l. Inr (s\<lparr>rtc_held := l\<rparr>))"

abbreviation alarm_line :: "rtc \<Rightarrow> resource" where
  "alarm_line s \<equiv> Irq_line (sint (rtc_alarmno s))"

abbreviation tick_line :: "rtc \<Rightarrow> resource" where
  "tick_line s \<equiv> Irq_line (sint (rtc_tickno s))"

text \<open>\<open>alarm_req\<close> and \<open>tick_req\<close> are what the two \<open>request_irq\<close> calls return.\<close>

definition rtc_open :: "outcome \<Rightarrow> outcome \<Rightarrow> rtc \<Rightarrow> fault + int result \<times> rtc" where
  "rtc_open alarm_req tick_req s =
     (case alarm_req of
        Some e \<Rightarrow> Inr (Inl e, s)
      | None \<Rightarrow>
          let s = rtc_hold (alarm_line s) s in
          (case tick_req of
             Some e \<Rightarrow> seq (rtc_drop [alarm_line s] s) (\<lambda>s. Inr (Inl e, s))
           | None \<Rightarrow> Inr (Inr 0, rtc_hold (tick_line s) s)))"

definition rtc_release :: "rtc_hdr \<Rightarrow> rtc \<Rightarrow> fault + rtc" where
  "rtc_release h s =
     (let (r, s) = rtc_setpie h 0 s in rtc_drop [alarm_line s, tick_line s] s)"

subsection \<open>Probe, remove, suspend and resume\<close>

record rtc_platform =
  rp_alarm :: s32          \<comment> \<open>\<open>platform_get_irq(pdev, 0)\<close>\<close>
  rp_tick :: s32           \<comment> \<open>\<open>platform_get_irq(pdev, 1)\<close>\<close>
  rp_mem :: bool
  rp_region :: bool
  rp_map :: bool
  rp_register :: outcome   \<comment> \<open>\<open>rtc_device_register\<close>\<close>

definition rtc_err_nomap :: "errno \<Rightarrow> rtc \<Rightarrow> fault + int result \<times> rtc" where
  "rtc_err_nomap e s = seq (rtc_drop [Mem_region] s) (\<lambda>s. Inr (Inl e, s))"

definition rtc_err_nortc :: "rtc_hdr \<Rightarrow> errno \<Rightarrow> rtc \<Rightarrow> fault + int result \<times> rtc" where
  "rtc_err_nortc h e s = seq (rtc_drop [Io_map] (rtc_enable h 0 s)) (rtc_err_nomap e)"

definition rtc_probe :: "rtc_hdr \<Rightarrow> rtc_platform \<Rightarrow> rtc \<Rightarrow> fault + int result \<times> rtc" where
  "rtc_probe h pf s =
     (let s = s\<lparr>rtc_alarmno := rp_alarm pf\<rparr> in
      if sint (rtc_alarmno s) < 0 then Inr (Inl ENOENT, s) else
      let s = s\<lparr>rtc_tickno := rp_tick pf\<rparr> in
      if sint (rtc_tickno s) < 0 then Inr (Inl ENOENT, s) else
      if \<not> rp_mem pf then Inr (Inl ENOENT, s) else
      if \<not> rp_region pf then Inr (Inl ENOENT, s) else
      let s = rtc_hold Mem_desc (rtc_hold Mem_region s) in
      if \<not> rp_map pf then rtc_err_nomap EINVAL s else
      let s = rtc_hold Io_map s;
          s = rtc_enable h 1 s;
          s = snd (rtc_setfreq h 1 s);
          s = s\<lparr>wake_capable := True\<rparr> in
      (case rp_register pf of
         Some e \<Rightarrow> rtc_err_nortc h e s
       | None \<Rightarrow> Inr (Inr 0, rtc_hold Rtc_dev (s\<lparr>max_user_freq := 128\<rparr>))))"

definition rtc_remove :: "rtc_hdr \<Rightarrow> rtc \<Rightarrow> fault + int result \<times> rtc" where
  "rtc_remove h s =
     seq (rtc_drop [Rtc_dev] s) (\<lambda>s.
     let s = snd (rtc_setpie h 0 s);
         s = rtc_setaie h 0 s
     in seq (rtc_drop [Io_map, Mem_region, Mem_desc] s) (\<lambda>s. Inr (Inr 0, s)))"

definition rtc_suspend :: "rtc_hdr \<Rightarrow> rtc \<Rightarrow> int result \<times> rtc" where
  "rtc_suspend h s =
     (let s = s\<lparr>ticnt_save := rtc_readb TICNT s\<rparr> in (Inr 0, rtc_enable h 0 s))"

definition rtc_resume :: "rtc_hdr \<Rightarrow> rtc \<Rightarrow> int result \<times> rtc" where
  "rtc_resume h s =
     (let s = rtc_enable h 1 s in (Inr 0, rtc_writeb (ticnt_save s) TICNT s))"

subsection \<open>Reading registers back\<close>

lemma rtc_readb_writeb [simp, reg_simps]:
  "rtc_readb q (rtc_writeb v r s) = (if q = r then v AND 255 else rtc_readb q s)"
  by (simp add: rtc_readb_def rtc_writeb_def bank8.rd_wr)

lemma rtc_regs_writeb [simp]:
  "rtc_regs (rtc_writeb v r s) q = (if q = r then ucast v else rtc_regs s q)"
  by (simp add: rtc_writeb_def writeb_def)

lemma rtc_writeb_fields [simp]:
  "rtc_alarmno (rtc_writeb v r s) = rtc_alarmno s" "rtc_tickno (rtc_writeb v r s) = rtc_tickno s"
  "ticnt_save (rtc_writeb v r s) = ticnt_save s" "wake_depth (rtc_writeb v r s) = wake_depth s"
  "rtc_held (rtc_writeb v r s) = rtc_held s" "rtc_events (rtc_writeb v r s) = rtc_events s"
  by (simp_all add: rtc_writeb_def)

lemma rtc_readb_update [simp]:
  "rtc_readb r (s\<lparr>wake_depth := a\<rparr>) = rtc_readb r s" "rtc_readb r (s\<lparr>ticnt_save := b\<rparr>) = rtc_readb r s"
  "rtc_readb r (s\<lparr>rtc_held := c\<rparr>) = rtc_readb r s" "rtc_readb r (s\<lparr>rtc_alarmno := d\<rparr>) = rtc_readb r s"
  "rtc_readb r (s\<lparr>rtc_tickno := d\<rparr>) = rtc_readb r s" "rtc_readb r (s\<lparr>max_user_freq := d\<rparr>) = rtc_readb r s"
  "rtc_readb r (s\<lparr>wake_capable := e\<rparr>) = rtc_readb r s"
  by (simp_all add: rtc_readb_def)

lemma bit_rtc_readb: "bit (rtc_readb r s) n \<longleftrightarrow> bit (rtc_regs s r) n"
  by (auto simp: rtc_readb_def readb_def bit_simps dest: bit_imp_le_length)

lemma rtc_hdr_masks:
  assumes "rtc_hdr_ok h"
  shows "S3C2410_RTCCON h = 0x40" "S3C2410_RTCCON_RTCEN h = 1" "S3C2410_RTCCON_CNTSEL h = 4"
    "S3C2410_RTCCON_CLKRST h = 8" "S3C2410_TICNT_ENABLE h = 0x80" "S3C2410_RTCALM h = 0x50"
    "S3C2410_RTCALM_ALMEN h = 0x40" "S3C2410_RTCALM_YEAREN h = 0x20"
    "S3C2410_RTCALM_MONEN h = 0x10" "S3C2410_RTCALM_DAYEN h = 8" "S3C2410_RTCALM_HOUREN h = 4"
    "S3C2410_RTCALM_MINEN h = 2" "S3C2410_RTCALM_SECEN h = 1"
  using assms by (simp_all add: rtc_hdr_ok_def)

lemma rtc_hdr_bcd:
  assumes "rtc_hdr_ok h"
  shows "unat v < 100 \<Longrightarrow> bcd2bin h (bin2bcd h v) = v"
    and "unat v < 100 \<Longrightarrow> bin2bcd h v = 0 \<longleftrightarrow> v = 0"
    and "is_power_of_2 h v \<longleftrightarrow> (\<exists>k<32. unat v = 2 ^ k)"
  using assms by (simp_all add: rtc_hdr_ok_def)

text \<open>The S3C2440 and the kernel's own BCD routines.\<close>

definition s3c2440_rtc :: rtc_hdr where
  "s3c2440_rtc = \<lparr>S3C2410_RTCCON = 0x40, S3C2410_RTCCON_RTCEN = 1, S3C2410_RTCCON_CNTSEL = 4,
     S3C2410_RTCCON_CLKRST = 8, S3C2410_TICNT_ENABLE = 0x80, S3C2410_RTCALM = 0x50,
     S3C2410_RTCALM_ALMEN = 0x40, S3C2410_RTCALM_YEAREN = 0x20, S3C2410_RTCALM_MONEN = 0x10,
     S3C2410_RTCALM_DAYEN = 8, S3C2410_RTCALM_HOUREN = 4, S3C2410_RTCALM_MINEN = 2,
     S3C2410_RTCALM_SECEN = 1,
     bcd2bin = (\<lambda>v. of_nat (unat v mod 16 + unat v div 16 * 10)),
     bin2bcd = (\<lambda>v. of_nat (unat v div 10 * 16 + unat v mod 10)),
     is_power_of_2 = (\<lambda>v. list_ex (\<lambda>k. unat v = 2 ^ k) [0..<32])\<rparr>"

lemma s3c2440_rtc_bcd:
  assumes "unat v < 100"
  shows "bcd2bin s3c2440_rtc (bin2bcd s3c2440_rtc v) = v"
    and "bin2bcd s3c2440_rtc v = 0 \<longleftrightarrow> v = 0"
proof -
  define n where "n = unat v"
  have n: "n < 100" "v = of_nat n" using assms by (simp_all add: n_def)
  define k where "k = n div 10 * 16 + n mod 10"
  have "k < 256" unfolding k_def using n(1) by linarith
  moreover have "bin2bcd s3c2440_rtc v = of_nat k"
    by (simp add: s3c2440_rtc_def k_def n_def)
  ultimately have u: "unat (bin2bcd s3c2440_rtc v) = n div 10 * 16 + n mod 10"
    by (simp add: unat_of_nat take_bit_eq_mod flip: k_def)
  have m: "n mod 10 < 16" by linarith
  have "(n div 10 * 16 + n mod 10) mod 16 = n mod 10" using m by simp
  moreover have "(n div 10 * 16 + n mod 10) div 16 = n div 10" using m by simp
  moreover have "bcd2bin s3c2440_rtc x = of_nat (unat x mod 16 + unat x div 16 * 10)" for x
    by (simp add: s3c2440_rtc_def)
  ultimately have "bcd2bin s3c2440_rtc (bin2bcd s3c2440_rtc v) = of_nat (n mod 10 + n div 10 * 10)"
    by (simp only: u)
  also have "n mod 10 + n div 10 * 10 = n" by simp
  finally show "bcd2bin s3c2440_rtc (bin2bcd s3c2440_rtc v) = v" using n by simp
  have "bin2bcd s3c2440_rtc v = 0 \<longleftrightarrow> n div 10 * 16 + n mod 10 = 0"
    using u by (simp add: unat_eq_zero [symmetric])
  also have "\<dots> \<longleftrightarrow> n = 0" by (metis add_is_0 div_mod_decomp mult_is_0 zero_neq_numeral)
  finally show "bin2bcd s3c2440_rtc v = 0 \<longleftrightarrow> v = 0" by (simp add: n_def unat_eq_zero)
qed

lemma s3c2440_rtc_ok [simp]: "rtc_hdr_ok s3c2440_rtc"
  unfolding rtc_hdr_ok_def
  by (intro conjI allI impI s3c2440_rtc_bcd)
    (auto simp: s3c2440_rtc_def list_ex_iff atLeast0LessThan)

definition rtc_start :: rtc where
  "rtc_start = \<lparr>rtc_regs = (\<lambda>_. 0), rtc_alarmno = 46, rtc_tickno = 24, ticnt_save = 0,
     wake_depth = 0, wake_capable = False, max_user_freq = 0, rtc_events = [], rtc_busy = False, rtc_held = {#}\<rparr>"

subsection \<open>Setting and reading the time\<close>

lemma ucast_readb [simp]: "(ucast (readb m r) :: u8) = m r"
  by (simp add: readb_def)

lemma readb_0_iff [simp]: "readb m r = 0 \<longleftrightarrow> m r = 0"
  by (simp add: readb_def)

text \<open>What reading the time gives when the clock shows one bank throughout.\<close>

lemma rtc_gettime_still:
  "rtc_gettime h (\<lambda>_. m) =
     \<lparr>tm_sec = bcd2bin h (m RTCSEC), tm_min = bcd2bin h (m RTCMIN), tm_hour = bcd2bin h (m RTCHOUR),
      tm_mday = bcd2bin h (m RTCDATE), tm_mon = bcd2bin h (m RTCMON) - 1,
      tm_year = bcd2bin h (m RTCYEAR) + 100\<rparr>"
  by (simp add: rtc_gettime_def rtc_read_pass_def Let_def)

lemma rtc_settime_ok:
  assumes "\<not> sint (tm_year tm - 100) < 0" "\<not> sint (tm_year tm - 100) \<ge> 100"
  shows "rtc_settime h tm s =
    (Inr 0, tm\<lparr>tm_year := tm_year tm - 100, tm_mon := tm_mon tm + 1\<rparr>,
     s\<lparr>rtc_regs := (rtc_regs s)(RTCSEC := bin2bcd h (tm_sec tm), RTCMIN := bin2bcd h (tm_min tm),
        RTCHOUR := bin2bcd h (tm_hour tm), RTCDATE := bin2bcd h (tm_mday tm),
        RTCMON := bin2bcd h (tm_mon tm + 1), RTCYEAR := bin2bcd h (tm_year tm - 100))\<rparr>)"
  using assms by (simp add: rtc_settime_def Let_def rtc_writeb_def writeb_def)

text \<open>A time the clock can hold: a broken-down time of the years 2000 to 2099.\<close>

definition rtc_time_ok :: "rtc_time \<Rightarrow> bool" where
  "rtc_time_ok tm \<longleftrightarrow>
     unat (tm_sec tm) < 60 \<and> unat (tm_min tm) < 60 \<and> unat (tm_hour tm) < 24 \<and>
     unat (tm_mday tm) < 32 \<and> unat (tm_mon tm) < 12 \<and> 100 \<le> unat (tm_year tm) \<and> unat (tm_year tm) < 200"

lemma s32_year:
  assumes "100 \<le> unat (y :: s32)" and "unat y < 200"
  shows "unat (y - 100) = unat y - 100" "\<not> sint (y - 100) < 0" "\<not> sint (y - 100) \<ge> 100"
proof -
  show u: "unat (y - 100) = unat y - 100"
    using assms(1) by (subst unat_sub) (simp_all add: word_le_nat_alt)
  then have "y - 100 = of_nat (unat y - 100)"
    using assms(2) by (simp add: word_unat_eq_iff del: of_nat_diff)
  moreover define n where "n = unat y - 100"
  ultimately have "sint (y - 100) = int n" "n < 100" using assms by (simp_all del: of_nat_diff)
  then show "\<not> sint (y - 100) < 0" "\<not> sint (y - 100) \<ge> 100" by simp_all
qed

lemma unat_month_succ: "unat (m :: s32) < 12 \<Longrightarrow> unat (m + 1) < 100"
  by (simp add: unat_word_ariths)

text \<open>C13 (roundtrip). A time the clock can hold, once set, is read back field by field, and no
  other register changes.  The caller's structure is left in the device's numbering (year less
  100, month from 1).  A year outside 2000 to 2099 is refused with \<open>EINVAL\<close> and no register is
  written, but the caller's structure is changed all the same.\<close>

theorem rtc_time_roundtrip:
  assumes "rtc_hdr_ok h"
  shows "(rtc_time_ok tm \<longrightarrow>
      (\<exists>s'. rtc_settime h tm s = (Inr 0, tm\<lparr>tm_year := tm_year tm - 100, tm_mon := tm_mon tm + 1\<rparr>, s') \<and>
         rtc_gettime h (\<lambda>_. rtc_regs s') = tm \<and>
         (\<forall>r. r \<notin> {RTCSEC, RTCMIN, RTCHOUR, RTCDATE, RTCMON, RTCYEAR} \<longrightarrow> rtc_regs s' r = rtc_regs s r))) \<and>
    (sint (tm_year tm - 100) < 0 \<or> sint (tm_year tm - 100) \<ge> 100 \<longrightarrow>
      rtc_settime h tm s = (Inl EINVAL, tm\<lparr>tm_year := tm_year tm - 100, tm_mon := tm_mon tm + 1\<rparr>, s))"
proof (intro conjI impI)
  assume ok: "rtc_time_ok tm"
  then have y: "100 \<le> unat (tm_year tm)" "unat (tm_year tm) < 200"
    by (simp_all add: rtc_time_ok_def)
  have year: "unat (tm_year tm - 100) < 100" using s32_year(1) [OF y] y by simp
  have small: "unat (tm_sec tm) < 100" "unat (tm_min tm) < 100" "unat (tm_hour tm) < 100"
      "unat (tm_mday tm) < 100" "unat (tm_mon tm + 1) < 100"
    using ok by (simp_all add: rtc_time_ok_def unat_month_succ)
  note bcd = rtc_hdr_bcd(1) [OF assms]
  show "\<exists>s'. rtc_settime h tm s =
      (Inr 0, tm\<lparr>tm_year := tm_year tm - 100, tm_mon := tm_mon tm + 1\<rparr>, s') \<and>
      rtc_gettime h (\<lambda>_. rtc_regs s') = tm \<and>
      (\<forall>r. r \<notin> {RTCSEC, RTCMIN, RTCHOUR, RTCDATE, RTCMON, RTCYEAR} \<longrightarrow> rtc_regs s' r = rtc_regs s r)"
    unfolding rtc_settime_ok [OF s32_year(2,3) [OF y]]
    by (intro exI conjI, rule refl)
      (simp_all add: rtc_gettime_still bcd [OF year] small [THEN bcd] del: of_nat_diff)
next
  assume "sint (tm_year tm - 100) < 0 \<or> sint (tm_year tm - 100) \<ge> 100"
  then show "rtc_settime h tm s =
      (Inl EINVAL, tm\<lparr>tm_year := tm_year tm - 100, tm_mon := tm_mon tm + 1\<rparr>, s)"
    by (simp add: rtc_settime_def Let_def)
qed

definition tm_2014 :: rtc_time where
  "tm_2014 = \<lparr>tm_sec = 59, tm_min = 30, tm_hour = 23, tm_mday = 31, tm_mon = 11, tm_year = 114\<rparr>"

theorem rtc_time_roundtrip_witness:
  "\<exists>s'. fst (rtc_settime s3c2440_rtc tm_2014 rtc_start) = Inr 0 \<and>
     snd (snd (rtc_settime s3c2440_rtc tm_2014 rtc_start)) = s' \<and>
     rtc_gettime s3c2440_rtc (\<lambda>_. rtc_regs s') = tm_2014"
proof -
  have "rtc_time_ok tm_2014" by (simp add: rtc_time_ok_def tm_2014_def)
  with rtc_time_roundtrip [OF s3c2440_rtc_ok, of tm_2014 rtc_start] obtain s' where
    "rtc_settime s3c2440_rtc tm_2014 rtc_start =
       (Inr 0, tm_2014\<lparr>tm_year := tm_year tm_2014 - 100, tm_mon := tm_mon tm_2014 + 1\<rparr>, s')"
    "rtc_gettime s3c2440_rtc (\<lambda>_. rtc_regs s') = tm_2014"
    by blast
  then show ?thesis by simp
qed

text \<open>
  A running clock: \<open>T i\<close> is the second of read number \<open>i\<close>; the seconds register shows the second
  within the minute and every other register a function \<open>field\<close> of the minute.
\<close>

definition clock_at :: "rtc_hdr \<Rightarrow> (rtc_reg \<Rightarrow> nat \<Rightarrow> u8) \<Rightarrow> nat \<Rightarrow> rtc_reg \<Rightarrow> u8" where
  "clock_at h field t r = (if r = RTCSEC then bin2bcd h (of_nat (t mod 60)) else field r (t div 60))"

lemma clock_at_sec_0: "rtc_hdr_ok h \<Longrightarrow> clock_at h field t RTCSEC = 0 \<longleftrightarrow> t mod 60 = 0"
proof -
  assume h: "rtc_hdr_ok h"
  have m: "t mod 60 < 60" by simp
  then have u: "unat (of_nat (t mod 60) :: s32) = t mod 60" by simp
  with m have "unat (of_nat (t mod 60) :: s32) < 100" by linarith
  from rtc_hdr_bcd(2) [OF h this] show ?thesis
    using u by (simp add: clock_at_def unat_eq_zero [symmetric])
qed

lemma clock_at_minute: "r \<noteq> RTCSEC \<Longrightarrow> t div 60 = u div 60 \<Longrightarrow> clock_at h field t r = clock_at h field u r"
  by (simp add: clock_at_def)

text \<open>A pass whose minute registers are read in the minute of its last read shows that moment.\<close>

lemma rtc_read_pass_consistent:
  assumes "\<And>i. i < 5 \<Longrightarrow> T (k + i) div 60 = T (k + 5) div 60"
  shows "rtc_read_pass (\<lambda>i. clock_at h field (T i)) k =
    rtc_read_pass (\<lambda>_. clock_at h field (T (k + 5))) j"
proof -
  have "clock_at h field (T k) RTCMIN = clock_at h field (T (k + 5)) RTCMIN"
    "clock_at h field (T (k + 1)) RTCHOUR = clock_at h field (T (k + 5)) RTCHOUR"
    "clock_at h field (T (k + 2)) RTCDATE = clock_at h field (T (k + 5)) RTCDATE"
    "clock_at h field (T (k + 3)) RTCMON = clock_at h field (T (k + 5)) RTCMON"
    "clock_at h field (T (k + 4)) RTCYEAR = clock_at h field (T (k + 5)) RTCYEAR"
    by (rule clock_at_minute; use assms [of 0] assms [of 1] assms [of 2] assms [of 3] assms [of 4]
        in simp)+
  then show ?thesis unfolding rtc_read_pass_def readb_def by simp
qed

lemma rtc_gettime_pass:
  "rtc_gettime h (\<lambda>i. clock_at h field (T i)) = rtc_gettime h (\<lambda>_. clock_at h field t)"
  if "(if tm_sec (rtc_read_pass (\<lambda>i. clock_at h field (T i)) 0) = 0
       then rtc_read_pass (\<lambda>i. clock_at h field (T i)) 6
       else rtc_read_pass (\<lambda>i. clock_at h field (T i)) 0)
      = rtc_read_pass (\<lambda>_. clock_at h field t) 0"
proof -
  have "rtc_read_pass (\<lambda>_. clock_at h field t) 6 = rtc_read_pass (\<lambda>_. clock_at h field t) 0"
    by (simp add: rtc_read_pass_def)
  with that show ?thesis unfolding rtc_gettime_def Let_def by simp
qed

lemma div60_same: "t mod 60 \<noteq> 0 \<Longrightarrow> u \<le> t \<Longrightarrow> t \<le> u + 1 \<Longrightarrow> u div 60 = t div (60 :: nat)"
proof -
  assume a: "t mod 60 \<noteq> 0" "u \<le> t" "t \<le> u + 1"
  show ?thesis
  proof (cases "u = t")
    case False
    with a have t: "t = Suc u" by simp
    with a(1) have "Suc (u mod 60) \<noteq> 60" by (simp add: mod_Suc split: if_splits)
    then show ?thesis using t by (simp add: div_Suc mod_Suc split: if_splits)
  qed simp
qed

text \<open>C2 (safety). Reading the time never mixes two moments: although it takes six registers one
  by one (seconds last) from a running clock, the result is the time the clock showed at one
  moment of the call, even when a second, and with it a minute, hour, day, month or year, turns
  over between two reads, as long as the call takes no more than a second.\<close>

theorem rtc_gettime_consistent:
  assumes "rtc_hdr_ok h" and "mono T" and "T 11 \<le> T 0 + 1"
  shows "\<exists>t. T 0 \<le> t \<and> t \<le> T 11 \<and>
     rtc_gettime h (\<lambda>i. clock_at h field (T i)) = rtc_gettime h (\<lambda>_. clock_at h field t)"
proof -
  have m: "T i \<le> T j" if "i \<le> j" for i j using assms(2) that by (rule monoD)
  have sec: "tm_sec (rtc_read_pass (\<lambda>i. clock_at h field (T i)) k) = 0 \<longleftrightarrow> T (k + 5) mod 60 = 0" for k
    using clock_at_sec_0 [OF assms(1), of field "T (k + 5)"] by (simp add: rtc_read_pass_def)
  show ?thesis
  proof (cases "T 5 mod 60 = 0")
    case False
    have "T i div 60 = T 5 div 60" if "i < 5" for i
      by (rule div60_same [OF False]) (use m [of i 5] m [of 0 i] m [of 5 11] assms(3) that in simp_all)
    then have "rtc_read_pass (\<lambda>i. clock_at h field (T i)) 0 =
        rtc_read_pass (\<lambda>_. clock_at h field (T 5)) 0"
      using rtc_read_pass_consistent [of T 0 h field 0] by simp
    moreover have "tm_sec (rtc_read_pass (\<lambda>i. clock_at h field (T i)) 0) \<noteq> 0"
      using sec [of 0] False by simp
    ultimately have "rtc_gettime h (\<lambda>i. clock_at h field (T i)) =
        rtc_gettime h (\<lambda>_. clock_at h field (T 5))"
      by (intro rtc_gettime_pass) simp
    then show ?thesis using m [of 0 5] m [of 5 11] by auto
  next
    case True
    have "T (6 + i) div 60 = T 11 div 60" if "i < 5" for i
    proof (cases "T 11 = T 5")
      case eq: True
      then show ?thesis using m [of 5 "6 + i"] m [of "6 + i" 11] that by simp
    next
      case False
      then have "T 11 = Suc (T 5)" using m [of 5 11] m [of 0 5] assms(3) by simp
      then have "T 11 mod 60 \<noteq> 0" using True by (simp add: mod_Suc)
      then show ?thesis
        by (rule div60_same) (use m [of "6 + i" 11] m [of 0 "6 + i"] assms(3) that in simp_all)
    qed
    then have "rtc_read_pass (\<lambda>i. clock_at h field (T i)) 6 =
        rtc_read_pass (\<lambda>_. clock_at h field (T 11)) 0"
      using rtc_read_pass_consistent [of T 6 h field 0] by simp
    moreover have "tm_sec (rtc_read_pass (\<lambda>i. clock_at h field (T i)) 0) = 0"
      using sec [of 0] True by simp
    ultimately have "rtc_gettime h (\<lambda>i. clock_at h field (T i)) =
        rtc_gettime h (\<lambda>_. clock_at h field (T 11))"
      by (intro rtc_gettime_pass) simp
    then show ?thesis using m [of 0 11] by auto
  qed
qed

theorem rtc_gettime_consistent_witness:
  "\<exists>t. 59 \<le> t \<and> t \<le> 60 \<and>
     rtc_gettime s3c2440_rtc
       (\<lambda>i. clock_at s3c2440_rtc (\<lambda>r m. of_nat m) (if i < 3 then 59 else 60)) =
     rtc_gettime s3c2440_rtc (\<lambda>_. clock_at s3c2440_rtc (\<lambda>r m. of_nat m) t)"
proof -
  have "mono (\<lambda>i :: nat. if i < 3 then 59 else 60 :: nat)" by (simp add: mono_def)
  from rtc_gettime_consistent [OF s3c2440_rtc_ok this, of "\<lambda>r m. of_nat m"] show ?thesis by simp
qed

subsection \<open>The tick rate\<close>

lemma c_div_128:
  assumes "k \<le> 7" and "unat f = 2 ^ k"
  shows "c_div 128 f - 1 = of_nat (128 div 2 ^ k - 1)"
proof -
  have f: "f = of_nat (2 ^ k)" by (simp flip: assms(2))
  have lt: "(2 :: nat) ^ k < 2 ^ 31" using assms(1) by (intro power_strict_increasing) simp_all
  have "c_div (of_nat 128) (of_nat (2 ^ k)) = of_nat (128 div 2 ^ k)"
    by (rule c_div_of_nat) (use lt in simp_all)
  moreover have "(2 :: nat) ^ k \<le> 2 ^ 7" using assms(1) by (intro power_increasing) simp_all
  then have "0 < (128 :: nat) div 2 ^ k" by (simp add: div_greater_zero_iff)
  ultimately show ?thesis using f by simp
qed

lemma bit_u8_high: "128 \<le> n \<Longrightarrow> \<not> bit (x :: u8) n"
  by (auto dest: bit_imp_le_length)

lemma ucast_m1: "(ucast (- 1 :: u32) :: u8) = 255"
proof -
  have m: "(- 1 :: u32) = 4294967295" by simp
  show ?thesis by (simp only: m) simp
qed

lemma ticnt_field:
  "(ucast ((x AND 0x80) OR of_nat (128 div 2 ^ k - 1) :: u32) :: u8) AND 0x7f = of_nat (128 div 2 ^ k - 1)"
  "bit (ucast ((x AND 0x80) OR of_nat (128 div 2 ^ k - 1) :: u32) :: u8) 7 = bit x 7"
  if "k \<le> 7"
proof -
  have "(128 :: nat) div 2 ^ k = 2 ^ (7 - k)"
    using power_diff [of "2 :: nat" k 7] that by simp
  then have m: "of_nat (128 div 2 ^ k - 1) = (mask (7 - k) :: u32)"
      "of_nat (128 div 2 ^ k - 1) = (mask (7 - k) :: u8)"
    by (simp_all add: mask_eq_exp_minus_1)
  have c: "(0x7f :: u8) = mask 7" by (simp add: mask_eq_exp_minus_1)
  have b: "bit (0x80 :: int) n \<longleftrightarrow> n = 7" for n
    using bit_exp_iff [of 7 n, where ?'a = int] by auto
  show "(ucast ((x AND 0x80) OR of_nat (128 div 2 ^ k - 1) :: u32) :: u8) AND 0x7f = of_nat (128 div 2 ^ k - 1)"
    "bit (ucast ((x AND 0x80) OR of_nat (128 div 2 ^ k - 1) :: u32) :: u8) 7 = bit x 7"
    unfolding m c by (auto intro!: bit_word_eqI simp: bit_simps b)
qed

text \<open>Further (bounds). The tick frequency must be a power of two.  Up to 128 the tick counter is set
  to \<open>128 div freq - 1\<close> and the interrupt enable bit is kept.  For any larger power of two the
  quotient is 0 and the register is filled with ones, which also switches the tick interrupt on.\<close>

theorem rtc_setfreq_bounds:
  assumes "rtc_hdr_ok h"
  shows "(\<not> (\<exists>k<32. unat freq = 2 ^ k) \<longrightarrow> rtc_setfreq h freq s = (Inl EINVAL, s)) \<and>
    (\<forall>k\<le>7. unat freq = 2 ^ k \<longrightarrow> (\<exists>s'. rtc_setfreq h freq s = (Inr 0, s') \<and>
        rtc_regs s' TICNT AND 0x7f = of_nat (128 div 2 ^ k - 1) \<and>
        (bit (rtc_regs s' TICNT) 7 \<longleftrightarrow> bit (rtc_regs s TICNT) 7))) \<and>
    (\<forall>k<31. 7 < k \<and> unat freq = 2 ^ k \<longrightarrow>
        (\<exists>s'. rtc_setfreq h freq s = (Inr 0, s') \<and> rtc_regs s' TICNT = 0xff))"
proof (intro conjI allI impI)
  assume "\<not> (\<exists>k<32. unat freq = 2 ^ k)"
  then show "rtc_setfreq h freq s = (Inl EINVAL, s)"
    by (simp add: rtc_setfreq_def rtc_hdr_bcd(3) [OF assms])
next
  fix k :: nat assume k: "k \<le> 7" "unat freq = 2 ^ k"
  then have "is_power_of_2 h freq" by (auto simp: rtc_hdr_bcd(3) [OF assms])
  then have eq: "rtc_setfreq h freq s =
      (Inr 0, rtc_writeb ((rtc_readb TICNT s AND 0x80) OR of_nat (128 div 2 ^ k - 1)) TICNT s)"
    unfolding rtc_setfreq_def Let_def rtc_hdr_masks [OF assms] c_div_128 [OF k] by simp
  have "(ucast ((rtc_readb TICNT s AND 0x80) OR of_nat (128 div 2 ^ k - 1)) :: u8) AND 0x7f
        = of_nat (128 div 2 ^ k - 1)"
    "bit (ucast ((rtc_readb TICNT s AND 0x80) OR of_nat (128 div 2 ^ k - 1)) :: u8) 7
        = bit (rtc_regs s TICNT) 7"
    using ticnt_field [OF k(1), of "rtc_readb TICNT s"] by (simp_all add: bit_rtc_readb)
  then show "\<exists>s'. rtc_setfreq h freq s = (Inr 0, s') \<and>
      rtc_regs s' TICNT AND 0x7f = of_nat (128 div 2 ^ k - 1) \<and>
      (bit (rtc_regs s' TICNT) 7 \<longleftrightarrow> bit (rtc_regs s TICNT) 7)"
    unfolding eq by simp
next
  fix k :: nat assume "k < 31" and k: "7 < k \<and> unat freq = 2 ^ k"
  then have p: "is_power_of_2 h freq" by (auto simp: rtc_hdr_bcd(3) [OF assms])
  have f: "freq = of_nat (2 ^ k)" using k by (simp flip: conjunct2 [OF k])
  have "(2 :: nat) ^ k < 2 ^ 31" using \<open>k < 31\<close> by (intro power_strict_increasing) simp_all
  then have "c_div (of_nat 128) (of_nat (2 ^ k)) = of_nat (128 div 2 ^ k)"
    by (intro c_div_of_nat) simp_all
  moreover have "(128 :: nat) < 2 ^ k"
    using power_strict_increasing [of 7 k "2 :: nat"] k by simp
  ultimately have "c_div 128 freq - 1 = - 1" using f by simp
  then have "rtc_setfreq h freq s =
      (Inr 0, rtc_writeb ((rtc_readb TICNT s AND 0x80) OR - 1) TICNT s)"
    using p by (simp add: rtc_setfreq_def Let_def rtc_hdr_masks [OF assms])
  then show "\<exists>s'. rtc_setfreq h freq s = (Inr 0, s') \<and> rtc_regs s' TICNT = 0xff"
    by (simp add: ucast_m1)
qed

theorem rtc_setfreq_bounds_witness:
  "(\<exists>s'. rtc_setfreq s3c2440_rtc 16 rtc_start = (Inr 0, s') \<and> rtc_regs s' TICNT AND 0x7f = 7) \<and>
   (\<exists>s'. rtc_setfreq s3c2440_rtc 256 rtc_start = (Inr 0, s') \<and> rtc_regs s' TICNT = 0xff)"
proof -
  note a = rtc_setfreq_bounds [OF s3c2440_rtc_ok, of 16 rtc_start, THEN conjunct2, THEN conjunct1,
      rule_format, of 4]
  note b = rtc_setfreq_bounds [OF s3c2440_rtc_ok, of 256 rtc_start, THEN conjunct2, THEN conjunct2,
      rule_format, of 8]
  show ?thesis using a b by auto
qed

subsection \<open>Alarm\<close>

lemma u32_mask_bits:
  "(w :: u32) AND 1 = 0 \<longleftrightarrow> \<not> bit w 0" "w AND 2 = 0 \<longleftrightarrow> \<not> bit w 1" "w AND 4 = 0 \<longleftrightarrow> \<not> bit w 2"
  "w AND 8 = 0 \<longleftrightarrow> \<not> bit w 3" "w AND 0x10 = 0 \<longleftrightarrow> \<not> bit w 4" "w AND 0x20 = 0 \<longleftrightarrow> \<not> bit w 5"
  "w AND 0x40 = 0 \<longleftrightarrow> \<not> bit w 6" "w AND 0x80 = 0 \<longleftrightarrow> \<not> bit w 7"
  using and_exp_eq_0_iff_not_bit [of w 0] and_exp_eq_0_iff_not_bit [of w 1]
    and_exp_eq_0_iff_not_bit [of w 2] and_exp_eq_0_iff_not_bit [of w 3]
    and_exp_eq_0_iff_not_bit [of w 4] and_exp_eq_0_iff_not_bit [of w 5]
    and_exp_eq_0_iff_not_bit [of w 6] and_exp_eq_0_iff_not_bit [of w 7]
  by simp_all

lemma u32_mask_50: "(w :: u32) AND 0x50 = 0 \<longleftrightarrow> \<not> bit w 6 \<and> \<not> bit w 4"
proof -
  have "(0x50 :: u32) = 0x40 OR 0x10" by simp
  then have "w AND 0x50 = (w AND 0x40) OR (w AND 0x10)" by (metis bit.conj_disj_distrib)
  then show ?thesis using u32_mask_bits(5,7) [of w] by (simp add: or_eq_0_iff)
qed

text \<open>The alarm comparisons a call to \<open>rtc_setalarm\<close> leaves enabled, bit by bit.\<close>

lemma rtc_setalarm_control:
  assumes "rtc_hdr_ok h" and "rtc_setalarm h alarm s = (r, s')"
  shows "bit (rtc_readb RTCALM s') 0 \<longleftrightarrow> unat (tm_sec (alm_time alarm)) < 60 \<or> unat (tm_min (alm_time alarm)) < 60"
    "bit (rtc_readb RTCALM s') 2 \<longleftrightarrow> unat (tm_hour (alm_time alarm)) < 24"
    "bit (rtc_readb RTCALM s') 6 \<longleftrightarrow> enabled alarm \<noteq> 0"
    "\<not> bit (rtc_readb RTCALM s') 1" "\<not> bit (rtc_readb RTCALM s') 3"
    "\<not> bit (rtc_readb RTCALM s') 4" "\<not> bit (rtc_readb RTCALM s') 5"
    "r = Inr 0"
    "rtc_regs s' ALMSEC = (if unat (tm_sec (alm_time alarm)) < 60
       then bin2bcd h (tm_sec (alm_time alarm)) else rtc_regs s ALMSEC)"
    "rtc_regs s' ALMMIN = (if unat (tm_min (alm_time alarm)) < 60
       then bin2bcd h (tm_sec (alm_time alarm)) else rtc_regs s ALMMIN)"
    "rtc_regs s' ALMHOUR = (if unat (tm_hour (alm_time alarm)) < 24
       then bin2bcd h (tm_hour (alm_time alarm)) else rtc_regs s ALMHOUR)"
proof -
  define tm where "tm = alm_time alarm"
  have s': "s' = snd (rtc_setalarm h alarm s)" "r = fst (rtc_setalarm h alarm s)"
    using assms(2) by simp_all
  have b: "sint (x :: s32) < 60 \<and> sint x \<ge> 0 \<longleftrightarrow> unat x < 60" "sint x < 24 \<and> sint x \<ge> 0 \<longleftrightarrow> unat x < 24" for x
    using s32_between [of 60 x] s32_between [of 24 x] by simp_all
  note unf = s' rtc_setalarm_def rtc_setaie_def Let_def b rtc_hdr_masks [OF assms(1)] tm_def [symmetric]
  show "bit (rtc_readb RTCALM s') 0 \<longleftrightarrow> unat (tm_sec tm) < 60 \<or> unat (tm_min tm) < 60"
    by (simp add: unf bit_simps)
  show "bit (rtc_readb RTCALM s') 2 \<longleftrightarrow> unat (tm_hour tm) < 24" by (simp add: unf bit_simps)
  show "bit (rtc_readb RTCALM s') 6 \<longleftrightarrow> enabled alarm \<noteq> 0" by (simp add: unf bit_simps)
  show "\<not> bit (rtc_readb RTCALM s') 1" "\<not> bit (rtc_readb RTCALM s') 3"
    "\<not> bit (rtc_readb RTCALM s') 4" "\<not> bit (rtc_readb RTCALM s') 5"
    by (simp_all add: unf bit_simps)
  show "r = Inr 0" by (simp add: unf)
  show "rtc_regs s' ALMSEC = (if unat (tm_sec tm) < 60 then bin2bcd h (tm_sec tm) else rtc_regs s ALMSEC)"
    "rtc_regs s' ALMMIN = (if unat (tm_min tm) < 60 then bin2bcd h (tm_sec tm) else rtc_regs s ALMMIN)"
    "rtc_regs s' ALMHOUR = (if unat (tm_hour tm) < 24 then bin2bcd h (tm_hour tm) else rtc_regs s ALMHOUR)"
    by (simp_all add: unf)
qed

lemma rtc_getalarm_eq:
  assumes "rtc_hdr_ok h"
  shows "rtc_getalarm h s =
    (let en = rtc_readb RTCALM s; m = rtc_regs s in
     \<lparr>enabled = (if bit en 6 \<or> bit en 4 then 1 else 0),
      alm_time = \<lparr>tm_sec = (if bit en 0 then bcd2bin h (m ALMSEC) else 0xff),
        tm_min = (if bit en 1 then bcd2bin h (m ALMMIN) else 0xff),
        tm_hour = (if bit en 2 then bcd2bin h (m ALMHOUR) else 0xff),
        tm_mday = (if bit en 3 then bcd2bin h (m ALMDATE) else 0xff),
        tm_mon = (if bit en 4 then bcd2bin h (m ALMMON) - 1 else 0xff),
        tm_year = (if bit en 5 then bcd2bin h (m ALMYEAR) else 0xffff)\<rparr>\<rparr>)"
  unfolding rtc_getalarm_def Let_def rtc_hdr_masks [OF assms] u32_mask_bits u32_mask_50
  by (simp add: rtc_readb_def)

text \<open>C32 (error). An alarm that is set and read back keeps its hour and its seconds, but the
  minute is lost: it is never compared, it reads back as \<open>0xff\<close>, and a valid minute makes the
  driver store the seconds in the minute register.  Day, month and year read back as not
  compared; the enabled flag is right.  Read back on its own, the flag also answers 1 for an alarm
  that is off but compares months.\<close>

theorem rtc_alarm_loses_minute:
  assumes "rtc_hdr_ok h"
    and "unat (tm_sec (alm_time alarm)) < 60" and "unat (tm_hour (alm_time alarm)) < 24"
  shows "\<exists>s'. rtc_setalarm h alarm s = (Inr 0, s') \<and>
     rtc_getalarm h s' =
       \<lparr>enabled = (if enabled alarm \<noteq> 0 then 1 else 0),
        alm_time = \<lparr>tm_sec = tm_sec (alm_time alarm), tm_min = 0xff,
          tm_hour = tm_hour (alm_time alarm), tm_mday = 0xff, tm_mon = 0xff, tm_year = 0xffff\<rparr>\<rparr> \<and>
     (unat (tm_min (alm_time alarm)) < 60 \<longrightarrow>
        rtc_regs s' ALMMIN = bin2bcd h (tm_sec (alm_time alarm))) \<and>
     (bit (rtc_regs s RTCALM) 4 \<and> \<not> bit (rtc_regs s RTCALM) 6 \<longrightarrow> enabled (rtc_getalarm h s) = 1)"
proof -
  obtain r s' where eq: "rtc_setalarm h alarm s = (r, s')" by fastforce
  note c = rtc_setalarm_control [OF assms(1) eq]
  have "unat (tm_sec (alm_time alarm)) < 100" "unat (tm_hour (alm_time alarm)) < 100"
    using assms(2,3) by simp_all
  note bcd = this [THEN rtc_hdr_bcd(1) [OF assms(1)]]
  show ?thesis
    unfolding eq rtc_getalarm_eq [OF assms(1)] Let_def
    by (rule exI [of _ s']) (use c assms bcd in \<open>simp add: bit_rtc_readb\<close>)
qed

theorem rtc_alarm_loses_minute_witness:
  "\<exists>s'. rtc_setalarm s3c2440_rtc \<lparr>enabled = 1, alm_time = tm_2014\<rparr> rtc_start = (Inr 0, s') \<and>
     tm_min (alm_time (rtc_getalarm s3c2440_rtc s')) = 0xff \<and>
     rtc_regs s' ALMMIN = 0x59"
proof -
  let ?a = "\<lparr>enabled = 1, alm_time = tm_2014\<rparr> :: rtc_wkalrm"
  have v: "unat (tm_sec (alm_time ?a)) < 60" "unat (tm_hour (alm_time ?a)) < 24"
    by (simp_all add: tm_2014_def)
  from rtc_alarm_loses_minute [OF s3c2440_rtc_ok v, of rtc_start] obtain s' where
    "rtc_setalarm s3c2440_rtc ?a rtc_start = (Inr 0, s')"
    "tm_min (alm_time (rtc_getalarm s3c2440_rtc s')) = 0xff"
    "unat (tm_min (alm_time ?a)) < 60 \<longrightarrow> rtc_regs s' ALMMIN = bin2bcd s3c2440_rtc (tm_sec (alm_time ?a))"
    by auto
  then show ?thesis by (simp add: tm_2014_def s3c2440_rtc_def)
qed

text \<open>Every alarm set raises or lowers the depth of the wake-up marks on the alarm line, whatever the
  alarm before it did.\<close>

lemma rtc_setaie_wake [simp]: "wake_depth (rtc_setaie h flag s) = wake_depth s"
  by (simp add: rtc_setaie_def Let_def)

lemma rtc_setalarm_wake:
  "wake_depth (snd (rtc_setalarm h a s)) = wake_depth s + (if enabled a \<noteq> 0 then 1 else - 1)"
  by (simp add: rtc_setalarm_def Let_def)

text \<open>Further (error). After any sequence of alarms the depth has moved by the enabled ones less the
  others: an alarm that is replaced by another leaves its mark, so that switching the second one off
  does not end the wake-up, and switching off an alarm that was never set lowers the depth below
  where it began.\<close>

theorem rtc_alarms_wake_depth:
  "wake_depth (fold (\<lambda>a s. snd (rtc_setalarm h a s)) as s) =
     wake_depth s + int (length (filter (\<lambda>a. enabled a \<noteq> 0) as)) - int (length (filter (\<lambda>a. enabled a = 0) as))"
  by (induction as arbitrary: s) (simp_all add: rtc_setalarm_wake)

subsection \<open>Switching the clock on and off\<close>

lemma rtc_enable_on_bits:
  assumes "rtc_hdr_ok h" and "flag \<noteq> 0" and "n < 8"
  shows "bit (rtc_regs (rtc_enable h flag s) RTCCON) n \<longleftrightarrow>
     n = 0 \<or> n \<noteq> 3 \<and> (n = 6 \<longrightarrow> \<not> bit (rtc_regs s RTCCON) 2) \<and> bit (rtc_regs s RTCCON) n"
proof -
  have n: "n = 0 \<or> n = 1 \<or> n = 2 \<or> n = 3 \<or> n = 4 \<or> n = 5 \<or> n = 6 \<or> n = 7" using assms(3) by linarith
  show ?thesis
    unfolding bit_rtc_readb [symmetric] rtc_enable_def Let_def rtc_hdr_masks [OF assms(1)] u32_mask_bits
    using n assms(2) by (elim disjE) (simp_all add: bit_simps u32_mask_bits)
qed

lemma rtc_enable_other:
  "r \<noteq> RTCCON \<Longrightarrow> flag \<noteq> 0 \<or> r \<noteq> TICNT \<Longrightarrow> rtc_regs (rtc_enable h flag s) r = rtc_regs s r"
  by (simp add: rtc_enable_def Let_def)

lemma rtc_enable_off_bits:
  assumes "rtc_hdr_ok h" and "n < 8"
  shows "bit (rtc_regs (rtc_enable h 0 s) RTCCON) n \<longleftrightarrow> n \<noteq> 0 \<and> bit (rtc_regs s RTCCON) n"
    "bit (rtc_regs (rtc_enable h 0 s) TICNT) n \<longleftrightarrow> n \<noteq> 7 \<and> bit (rtc_regs s TICNT) n"
proof -
  have n: "n = 0 \<or> n = 1 \<or> n = 2 \<or> n = 3 \<or> n = 4 \<or> n = 5 \<or> n = 6 \<or> n = 7" using assms(2) by linarith
  show "bit (rtc_regs (rtc_enable h 0 s) RTCCON) n \<longleftrightarrow> n \<noteq> 0 \<and> bit (rtc_regs s RTCCON) n"
    "bit (rtc_regs (rtc_enable h 0 s) TICNT) n \<longleftrightarrow> n \<noteq> 7 \<and> bit (rtc_regs s TICNT) n"
    unfolding bit_rtc_readb [symmetric] rtc_enable_def Let_def rtc_hdr_masks [OF assms(1)]
    using n by (elim disjE; simp add: bit_simps)+
qed

text \<open>Further (error). Switching the clock on sets the enable bit and clears the reset bit, but a set
  counter-selection bit survives: the driver masks with the register's offset \<open>0x40\<close> instead of
  the bit, so that bit 6 is cleared in its place.  Suspending switches the clock and its tick
  interrupt off, and resuming restores the tick register.\<close>

theorem rtc_enable_keeps_cntsel:
  assumes "rtc_hdr_ok h"
  shows "(\<forall>flag. flag \<noteq> 0 \<longrightarrow>
       bit (rtc_regs (rtc_enable h flag s) RTCCON) 0 \<and> \<not> bit (rtc_regs (rtc_enable h flag s) RTCCON) 3 \<and>
       (bit (rtc_regs (rtc_enable h flag s) RTCCON) 2 \<longleftrightarrow> bit (rtc_regs s RTCCON) 2) \<and>
       (bit (rtc_regs s RTCCON) 2 \<longrightarrow> \<not> bit (rtc_regs (rtc_enable h flag s) RTCCON) 6)) \<and>
     \<not> bit (rtc_regs (snd (rtc_suspend h s)) RTCCON) 0 \<and> \<not> bit (rtc_regs (snd (rtc_suspend h s)) TICNT) 7 \<and>
     rtc_regs (snd (rtc_resume h (snd (rtc_suspend h s)))) TICNT = rtc_regs s TICNT \<and>
     bit (rtc_regs (snd (rtc_resume h (snd (rtc_suspend h s)))) RTCCON) 0"
proof (intro conjI allI impI)
  fix flag :: s32 assume "flag \<noteq> 0"
  then show "bit (rtc_regs (rtc_enable h flag s) RTCCON) 0"
    "\<not> bit (rtc_regs (rtc_enable h flag s) RTCCON) 3"
    "bit (rtc_regs (rtc_enable h flag s) RTCCON) 2 \<longleftrightarrow> bit (rtc_regs s RTCCON) 2"
    "bit (rtc_regs s RTCCON) 2 \<Longrightarrow> \<not> bit (rtc_regs (rtc_enable h flag s) RTCCON) 6"
    by (simp_all add: rtc_enable_on_bits [OF assms])
next
  have sv: "ticnt_save (rtc_enable h f t) = ticnt_save t" for f t
    by (simp add: rtc_enable_def Let_def)
  show "\<not> bit (rtc_regs (snd (rtc_suspend h s)) RTCCON) 0" "\<not> bit (rtc_regs (snd (rtc_suspend h s)) TICNT) 7"
    by (simp_all add: rtc_suspend_def Let_def rtc_enable_off_bits [OF assms])
  show "rtc_regs (snd (rtc_resume h (snd (rtc_suspend h s)))) TICNT = rtc_regs s TICNT"
    by (simp add: rtc_suspend_def rtc_resume_def Let_def sv rtc_readb_def)
  show "bit (rtc_regs (snd (rtc_resume h (snd (rtc_suspend h s)))) RTCCON) 0"
    by (simp add: rtc_suspend_def rtc_resume_def Let_def rtc_enable_on_bits [OF assms])
qed

theorem rtc_enable_keeps_cntsel_witness:
  "bit (rtc_regs (rtc_enable s3c2440_rtc 1 (rtc_start\<lparr>rtc_regs := (\<lambda>_. 0x4e)\<rparr>)) RTCCON) 2"
proof -
  have "bit (rtc_regs (rtc_start\<lparr>rtc_regs := (\<lambda>_. 0x4e)\<rparr>) RTCCON) 2" by simp
  moreover have "(1 :: s32) \<noteq> 0" by simp
  ultimately show ?thesis
    using rtc_enable_keeps_cntsel [OF s3c2440_rtc_ok, of "rtc_start\<lparr>rtc_regs := (\<lambda>_. 0x4e)\<rparr>"] by blast
qed

subsection \<open>Interrupt lines and resources\<close>

lemma rtc_hold_fields [simp]:
  "rtc_held (rtc_hold r s) = add_mset r (rtc_held s)" "rtc_regs (rtc_hold r s) = rtc_regs s"
  "rtc_alarmno (rtc_hold r s) = rtc_alarmno s" "rtc_tickno (rtc_hold r s) = rtc_tickno s"
  by (simp_all add: rtc_hold_def take_res_def)

lemma rtc_enable_fields [simp]:
  "rtc_held (rtc_enable h f s) = rtc_held s" "rtc_alarmno (rtc_enable h f s) = rtc_alarmno s"
  "rtc_tickno (rtc_enable h f s) = rtc_tickno s"
  by (simp_all add: rtc_enable_def Let_def)

lemma rtc_setpie_fields [simp]:
  "rtc_held (snd (rtc_setpie h f s)) = rtc_held s"
  "rtc_alarmno (snd (rtc_setpie h f s)) = rtc_alarmno s"
  "rtc_tickno (snd (rtc_setpie h f s)) = rtc_tickno s"
  by (simp_all add: rtc_setpie_def Let_def)

lemma rtc_setfreq_fields [simp]: "rtc_held (snd (rtc_setfreq h f s)) = rtc_held s"
  by (simp add: rtc_setfreq_def Let_def)

lemma rtc_setaie_fields [simp]:
  "rtc_held (rtc_setaie h f s) = rtc_held s" "rtc_regs (rtc_setaie h f s) TICNT = rtc_regs s TICNT"
  by (simp_all add: rtc_setaie_def Let_def)

text \<open>Releasing a driver that still holds its two lines.\<close>

lemma rtc_release_lines:
  assumes "rtc_held s = add_mset (tick_line s) (add_mset (alarm_line s) l)"
  shows "rtc_release h s = Inr ((snd (rtc_setpie h 0 s))\<lparr>rtc_held := l\<rparr>)"
  using assms
  by (cases "alarm_line s = tick_line s")
    (simp_all add: rtc_release_def rtc_drop_def case_prod_unfold res_simps)

lemma rtc_setpie_bit:
  assumes "rtc_hdr_ok h"
  shows "bit (rtc_regs (snd (rtc_setpie h f s)) TICNT) 7 \<longleftrightarrow> f \<noteq> 0"
  unfolding bit_rtc_readb [symmetric] rtc_setpie_def Let_def rtc_hdr_masks [OF assms]
  by (simp add: bit_simps)

text \<open>C30 (safety). Opening takes both interrupt lines or none, and reports the refusal of the line
  that could not be had; releasing an opened device switches the tick interrupt off and gives both
  lines back, leaving the ledger as before the open.\<close>

theorem rtc_open_all_or_nothing:
  assumes "rtc_hdr_ok h"
  shows "\<exists>r s'. rtc_open alarm_req tick_req s = Inr (r, s') \<and>
     (alarm_req = None \<and> tick_req = None \<longrightarrow> r = Inr 0 \<and>
        rtc_held s' = {#alarm_line s, tick_line s#} + rtc_held s \<and>
        (\<exists>s''. rtc_release h s' = Inr s'' \<and> rtc_held s'' = rtc_held s \<and> \<not> bit (rtc_regs s'' TICNT) 7)) \<and>
     (alarm_req \<noteq> None \<or> tick_req \<noteq> None \<longrightarrow>
        r = Inl (case alarm_req of Some e \<Rightarrow> e | None \<Rightarrow> the tick_req) \<and> rtc_held s' = rtc_held s)"
proof (cases alarm_req; cases tick_req)
  assume "alarm_req = None" "tick_req = None"
  moreover define s1 where "s1 = rtc_hold (tick_line s) (rtc_hold (alarm_line s) s)"
  moreover define s2 where "s2 = snd (rtc_setpie h 0 s1)"
  moreover have "rtc_held s2 = add_mset (tick_line s) (add_mset (alarm_line s) (rtc_held s))"
      "rtc_alarmno s2 = rtc_alarmno s" "rtc_tickno s2 = rtc_tickno s"
    by (simp_all add: s2_def s1_def)
  moreover have "rtc_release h s1 = Inr (s2\<lparr>rtc_held := rtc_held s\<rparr>)"
    using calculation
    by (cases "alarm_line s = tick_line s")
      (simp_all add: rtc_release_def rtc_drop_def case_prod_unfold s2_def [symmetric] res_simps)
  moreover have "\<not> bit (rtc_regs s2 TICNT) 7" by (simp add: s2_def rtc_setpie_bit [OF assms])
  ultimately show ?thesis by (simp add: rtc_open_def)
qed (auto simp: rtc_open_def rtc_drop_def res_simps)

theorem rtc_open_all_or_nothing_witness:
  "\<exists>s'. rtc_open None (Some EBUSY) rtc_start = Inr (Inl EBUSY, s') \<and> rtc_held s' = {#}"
  using rtc_open_all_or_nothing [OF s3c2440_rtc_ok, of None "Some EBUSY" rtc_start]
  by (auto simp: rtc_start_def)

text \<open>What probing leaves behind for every answer of the platform.\<close>

definition rtc_leak :: "rtc_platform \<Rightarrow> ledger" where
  "rtc_leak pf =
     (if sint (rp_alarm pf) < 0 \<or> sint (rp_tick pf) < 0 \<or> \<not> rp_mem pf \<or> \<not> rp_region pf then {#}
      else {#Mem_desc#})"

text \<open>Further (error). Probing never faults.  When it fails after the memory region was reserved (no
  mapping, or the RTC core refuses the device) it gives back the mapping and the region but not the
  descriptor that \<open>request_mem_region\<close> allocated; earlier failures hold nothing.  After a success,
  removing the device gives back all that probing took.\<close>

theorem rtc_probe_leaks_descriptor:
  "\<exists>r s'. rtc_probe h pf s = Inr (r, s') \<and>
     (r = Inr 0 \<longleftrightarrow> sint (rp_alarm pf) \<ge> 0 \<and> sint (rp_tick pf) \<ge> 0 \<and> rp_mem pf \<and> rp_region pf \<and>
        rp_map pf \<and> rp_register pf = None) \<and>
     (r \<noteq> Inr 0 \<longrightarrow> rtc_held s' = rtc_leak pf + rtc_held s) \<and>
     (r = Inr 0 \<longrightarrow> (\<exists>s''. rtc_remove h s' = Inr (Inr 0, s'') \<and> rtc_held s'' = rtc_held s))"
  by (cases "sint (rp_alarm pf) < 0"; cases "sint (rp_tick pf) < 0"; cases "rp_mem pf";
      cases "rp_region pf"; cases "rp_map pf"; cases "rp_register pf")
    (simp_all add: rtc_probe_def rtc_leak_def Let_def rtc_err_nomap_def rtc_err_nortc_def
      rtc_drop_def rtc_remove_def res_simps not_less)

definition rtc_board :: rtc_platform where
  "rtc_board = \<lparr>rp_alarm = 46, rp_tick = 24, rp_mem = True, rp_region = True, rp_map = False,
     rp_register = None\<rparr>"

theorem rtc_probe_leaks_descriptor_witness:
  "\<exists>r s'. rtc_probe s3c2440_rtc rtc_board rtc_start = Inr (r, s') \<and> r \<noteq> Inr 0 \<and>
     rtc_held s' = {#Mem_desc#}"
  using rtc_probe_leaks_descriptor [of s3c2440_rtc rtc_board rtc_start]
  by (auto simp: rtc_board_def rtc_leak_def rtc_start_def)

text \<open>The alarm and tick handlers each hand the core one update carrying their own
  flag and \<open>RTC_IRQF\<close>, in the order of the interrupts, and change nothing else.\<close>

lemma rtc_irq_updates:
  "rtc_events (fold (\<lambda>alarm. if alarm then rtc_alarmirq else rtc_tickirq) irqs s) =
     rtc_events s @ map (\<lambda>alarm. [if alarm then RTC_AF else RTC_PF, RTC_IRQF]) irqs \<and>
   rtc_regs (fold (\<lambda>alarm. if alarm then rtc_alarmirq else rtc_tickirq) irqs s) = rtc_regs s \<and>
   rtc_held (fold (\<lambda>alarm. if alarm then rtc_alarmirq else rtc_tickirq) irqs s) = rtc_held s"
  by (induction irqs arbitrary: s)
    (simp_all add: rtc_alarmirq_def rtc_tickirq_def rtc_update_irq_def)

end
