(* ===== verification/Rtc_Unit_Test.thy ===== *)
theory Rtc_Unit_Test
  imports User_Threads Rtc
begin

text \<open>
  The client of the clock (\<open>rtc/app/rtc_unit_test.c\<close>): twenty-two tests, each of which opens
  \<open>/dev/rtc\<close> under the mutex, issues one \<open>ioctl\<close>, and returns 0 or the error number; ten threads run
  all of them.  Local variables the code does not initialise have the contents \<open>junk\<close>.
\<close>

subsection \<open>Requests and their arguments\<close>

text \<open>The structure of the header, three members longer than the driver's use of it.\<close>

record user_time = rtc_time +
  tm_wday :: s32
  tm_yday :: s32
  tm_isdst :: s32

record user_wkalrm =
  wk_enabled :: u8
  wk_pending :: u8
  wk_time :: user_time

record rtc_pll_info =
  pll_ctrl :: s32
  pll_value :: s32
  pll_max :: s32
  pll_min :: s32
  pll_posmult :: s32
  pll_negmult :: s32
  pll_clock :: s32

datatype rtc_request =
    RTC_AIE_ON | RTC_AIE_OFF | RTC_UIE_ON | RTC_UIE_OFF | RTC_PIE_ON | RTC_PIE_OFF
  | RTC_WIE_ON | RTC_WIE_OFF | RTC_ALM_SET | RTC_ALM_READ | RTC_RD_TIME | RTC_SET_TIME
  | RTC_IRQP_READ | RTC_IRQP_SET | RTC_EPOCH_READ | RTC_EPOCH_SET | RTC_WKALM_SET | RTC_WKALM_RD
  | RTC_PLL_GET | RTC_PLL_SET | RTC_VL_READ | RTC_VL_CLR

text \<open>There are finitely many requests, so what holds of every request can be computed.\<close>

instantiation rtc_request :: enum
begin

definition enum_rtc_request :: "rtc_request list" where
  "enum_rtc_request = [RTC_AIE_ON, RTC_AIE_OFF, RTC_UIE_ON, RTC_UIE_OFF, RTC_PIE_ON, RTC_PIE_OFF,
     RTC_WIE_ON, RTC_WIE_OFF, RTC_ALM_SET, RTC_ALM_READ, RTC_RD_TIME, RTC_SET_TIME, RTC_IRQP_READ,
     RTC_IRQP_SET, RTC_EPOCH_READ, RTC_EPOCH_SET, RTC_WKALM_SET, RTC_WKALM_RD, RTC_PLL_GET, RTC_PLL_SET,
     RTC_VL_READ, RTC_VL_CLR]"

definition enum_all_rtc_request :: "(rtc_request \<Rightarrow> bool) \<Rightarrow> bool" where
  "enum_all_rtc_request P \<longleftrightarrow> list_all P enum_class.enum"

definition enum_ex_rtc_request :: "(rtc_request \<Rightarrow> bool) \<Rightarrow> bool" where
  "enum_ex_rtc_request P \<longleftrightarrow> list_ex P enum_class.enum"

instance
proof
  have all: "q \<in> set enum_class.enum" for q :: rtc_request
    by (cases q) (simp_all add: enum_rtc_request_def)
  then show "(UNIV :: rtc_request set) = set enum_class.enum" by blast
  show "distinct (enum_class.enum :: rtc_request list)" by (simp add: enum_rtc_request_def)
  show "enum_class.enum_all P \<longleftrightarrow> Ball UNIV P" for P :: "rtc_request \<Rightarrow> bool"
    using all by (auto simp: enum_all_rtc_request_def list_all_iff)
  show "enum_class.enum_ex P \<longleftrightarrow> Bex UNIV P" for P :: "rtc_request \<Rightarrow> bool"
    using all by (auto simp: enum_ex_rtc_request_def list_ex_iff)
qed

end

text \<open>The third argument of the call: a value, or what a pointer points to.\<close>

datatype rtc_arg =
    Arg_value u32
  | Arg_time user_time
  | Arg_ulong u32
  | Arg_alarm user_wkalrm
  | Arg_pll rtc_pll_info
  | Arg_int s32

type_synonym rtc_sys = "(rtc_request, rtc_arg) sys"

record junk =
  junk_time :: user_time
  junk_alarm :: user_wkalrm
  junk_pll :: rtc_pll_info
  junk_int :: s32

definition ENOTTY_number :: int where "ENOTTY_number = 25"

subsection \<open>Helpers\<close>

definition rtc_lock :: "rtc_sys \<Rightarrow> rtc_sys" where "rtc_lock k = Mutex_lock k"
definition rtc_unlock :: "rtc_sys \<Rightarrow> rtc_sys" where "rtc_unlock k = Mutex_unlock k"

definition rtc_time_dump :: "user_time \<Rightarrow> rtc_sys \<Rightarrow> rtc_sys" where
  "rtc_time_dump rt k = Printf
     [(''tm_sec'', sint (tm_sec rt)), (''tm_min'', sint (tm_min rt)), (''tm_hour'', sint (tm_hour rt)),
      (''tm_mday'', sint (tm_mday rt)), (''tm_mon'', sint (tm_mon rt)), (''tm_year'', sint (tm_year rt)),
      (''tm_wday'', sint (tm_wday rt)), (''tm_yday'', sint (tm_yday rt)), (''tm_isdst'', sint (tm_isdst rt))] k"

text \<open>What a pointer argument points to after the call.\<close>

fun time_of :: "rtc_arg \<Rightarrow> user_time \<Rightarrow> user_time" where
  "time_of (Arg_time t) _ = t" | "time_of _ t = t"
fun alarm_of :: "rtc_arg \<Rightarrow> user_wkalrm \<Rightarrow> user_wkalrm" where
  "alarm_of (Arg_alarm t) _ = t" | "alarm_of _ t = t"
fun ulong_of :: "rtc_arg \<Rightarrow> u32 \<Rightarrow> u32" where
  "ulong_of (Arg_ulong t) _ = t" | "ulong_of _ t = t"
fun pll_of :: "rtc_arg \<Rightarrow> rtc_pll_info \<Rightarrow> rtc_pll_info" where
  "pll_of (Arg_pll t) _ = t" | "pll_of _ t = t"

text \<open>The body every test has: lock, open, one request, what to print when it succeeded, close,
  unlock.  \<open>errno\<close> is read after the error has been logged.\<close>

definition rtc_test :: "rtc_request \<Rightarrow> rtc_arg \<Rightarrow> (rtc_arg \<Rightarrow> rtc_sys \<Rightarrow> rtc_sys) \<Rightarrow> rtc_sys" where
  "rtc_test request arg report =
     rtc_lock (Open (\<lambda>fd.
       if fd < 0 then Log_err (Get_errno (\<lambda>err. rtc_unlock (Return err)))
       else Ioctl fd request arg (\<lambda>err arg.
         if err \<noteq> 0 then Log_err (Get_errno (\<lambda>err. Close fd (rtc_unlock (Return err))))
         else report arg (Close fd (rtc_unlock (Return 0))))))"

definition no_report :: "rtc_arg \<Rightarrow> rtc_sys \<Rightarrow> rtc_sys" where "no_report arg k = k"

subsection \<open>The tests\<close>

definition RTC_AIE_ON_test :: rtc_sys where
  "RTC_AIE_ON_test = rtc_test RTC_AIE_ON (Arg_value 0) no_report"
definition RTC_AIE_OFF_test :: rtc_sys where
  "RTC_AIE_OFF_test = rtc_test RTC_AIE_OFF (Arg_value 0) no_report"
definition RTC_UIE_ON_test :: rtc_sys where
  "RTC_UIE_ON_test = rtc_test RTC_UIE_ON (Arg_value 0) no_report"
definition RTC_UIE_OFF_test :: rtc_sys where
  "RTC_UIE_OFF_test = rtc_test RTC_UIE_OFF (Arg_value 0) no_report"
definition RTC_PIE_ON_test :: rtc_sys where
  "RTC_PIE_ON_test = rtc_test RTC_PIE_ON (Arg_value 0) no_report"
definition RTC_PIE_OFF_test :: rtc_sys where
  "RTC_PIE_OFF_test = rtc_test RTC_PIE_OFF (Arg_value 0) no_report"
definition RTC_WIE_ON_test :: rtc_sys where
  "RTC_WIE_ON_test = rtc_test RTC_WIE_ON (Arg_value 0) no_report"
definition RTC_WIE_OFF_test :: rtc_sys where
  "RTC_WIE_OFF_test = rtc_test RTC_WIE_OFF (Arg_value 0) no_report"

definition RTC_ALM_SET_test :: "junk \<Rightarrow> rtc_sys" where
  "RTC_ALM_SET_test j =
     (let rt = (junk_time j)\<lparr>tm_hour := 0, tm_min := 0, tm_sec := 0, tm_year := 1900, tm_mon := 0,
         tm_mday := 0, tm_isdst := 0\<rparr>
      in rtc_test RTC_ALM_SET (Arg_time rt) (\<lambda>a. rtc_time_dump (time_of a rt)))"

definition RTC_ALM_READ_test :: "junk \<Rightarrow> rtc_sys" where
  "RTC_ALM_READ_test j =
     rtc_test RTC_ALM_READ (Arg_time (junk_time j)) (\<lambda>a. rtc_time_dump (time_of a (junk_time j)))"

definition RTC_RD_TIME_test :: "junk \<Rightarrow> rtc_sys" where
  "RTC_RD_TIME_test j =
     rtc_test RTC_RD_TIME (Arg_time (junk_time j)) (\<lambda>a. rtc_time_dump (time_of a (junk_time j)))"

definition RTC_SET_TIME_test :: "junk \<Rightarrow> rtc_sys" where
  "RTC_SET_TIME_test j =
     (let rt = (junk_time j)\<lparr>tm_hour := 9, tm_min := 50, tm_sec := 4, tm_year := 2017 - 1900,
         tm_mon := 1, tm_mday := 13\<rparr>
      in rtc_test RTC_SET_TIME (Arg_time rt) (\<lambda>a. rtc_time_dump (time_of a rt)))"

definition RTC_IRQP_READ_test :: rtc_sys where
  "RTC_IRQP_READ_test =
     rtc_test RTC_IRQP_READ (Arg_ulong 0) (\<lambda>a. Printf [(''RTC IRQ rate'', sint (ulong_of a 0))])"

definition RTC_IRQP_SET_test :: rtc_sys where
  "RTC_IRQP_SET_test = rtc_test RTC_IRQP_SET (Arg_value 512) no_report"

definition RTC_EPOCH_READ_test :: rtc_sys where
  "RTC_EPOCH_READ_test =
     rtc_test RTC_EPOCH_READ (Arg_ulong 0) (\<lambda>a. Printf [(''EPOCH'', sint (ulong_of a 0))])"

definition RTC_EPOCH_SET_test :: rtc_sys where
  "RTC_EPOCH_SET_test = rtc_test RTC_EPOCH_SET (Arg_ulong 986) no_report"

definition RTC_WKALM_SET_test :: "junk \<Rightarrow> rtc_sys" where
  "RTC_WKALM_SET_test j =
     (let rt_alarm = (junk_alarm j)\<lparr>wk_enabled := 1, wk_pending := 0,
         wk_time := (wk_time (junk_alarm j))\<lparr>tm_hour := 9, tm_min := 0, tm_sec := 0,
           tm_year := 2017 - 1900, tm_mon := 1, tm_mday := 13\<rparr>\<rparr>
      in rtc_test RTC_WKALM_SET (Arg_alarm rt_alarm) no_report)"

definition RTC_WKALM_RD_test :: "junk \<Rightarrow> rtc_sys" where
  "RTC_WKALM_RD_test j =
     rtc_test RTC_WKALM_RD (Arg_alarm (junk_alarm j))
       (\<lambda>a k. let rt_alarm = alarm_of a (junk_alarm j) in
          Printf [(''rt_alarm.enabled'', uint (wk_enabled rt_alarm)), (''rt_alarm.pending'', uint (wk_pending rt_alarm))]
            (rtc_time_dump (wk_time rt_alarm) k))"

definition RTC_PLL_GET_test :: "junk \<Rightarrow> rtc_sys" where
  "RTC_PLL_GET_test j =
     rtc_test RTC_PLL_GET (Arg_pll (junk_pll j))
       (\<lambda>a. let rtc_pll = pll_of a (junk_pll j) in
          Printf [(''pll_ctrl'', sint (pll_ctrl rtc_pll)), (''pll_value'', sint (pll_value rtc_pll)),
            (''pll_max'', sint (pll_max rtc_pll)), (''pll_min'', sint (pll_min rtc_pll)),
            (''pll_posmult'', sint (pll_posmult rtc_pll)), (''pll_negmult'', sint (pll_negmult rtc_pll)),
            (''pll_clock'', sint (pll_clock rtc_pll))])"

definition RTC_PLL_SET_test :: "junk \<Rightarrow> rtc_sys" where
  "RTC_PLL_SET_test j =
     rtc_test RTC_PLL_SET
       (Arg_pll ((junk_pll j)\<lparr>pll_clock := 1, pll_ctrl := 2, pll_max := 8, pll_min := 4\<rparr>)) no_report"

definition RTC_VL_READ_test :: "junk \<Rightarrow> rtc_sys" where
  "RTC_VL_READ_test j = rtc_test RTC_VL_READ (Arg_int (junk_int j)) no_report"

definition RTC_VL_CLR_test :: rtc_sys where
  "RTC_VL_CLR_test = rtc_test RTC_VL_CLR (Arg_value 0) no_report"

subsection \<open>The entry of a thread\<close>

definition assert_result :: "rtc_sys \<Rightarrow> int \<Rightarrow> rtc_sys \<Rightarrow> rtc_sys" where
  "assert_result test expected k = sys_bind test (\<lambda>r. if r = expected then k else Abort)"

definition unit_test_entry :: "junk \<Rightarrow> rtc_sys" where
  "unit_test_entry j =
     assert_result RTC_AIE_ON_test 0 (
     assert_result RTC_AIE_OFF_test 0 (
     assert_result RTC_UIE_ON_test 0 (
     assert_result RTC_UIE_OFF_test 0 (
     assert_result RTC_PIE_ON_test 0 (
     assert_result RTC_PIE_OFF_test 0 (
     assert_result RTC_WIE_ON_test ENOTTY_number (
     assert_result RTC_WIE_OFF_test ENOTTY_number (
     assert_result (RTC_ALM_SET_test j) 0 (
     assert_result (RTC_ALM_READ_test j) 0 (
     assert_result (RTC_RD_TIME_test j) 0 (
     assert_result (RTC_SET_TIME_test j) 0 (
     assert_result RTC_IRQP_READ_test 0 (
     assert_result RTC_IRQP_SET_test 0 (
     assert_result RTC_EPOCH_READ_test ENOTTY_number (
     assert_result RTC_EPOCH_SET_test ENOTTY_number (
     assert_result (RTC_WKALM_SET_test j) 0 (
     assert_result (RTC_WKALM_RD_test j) 0 (
     assert_result (RTC_PLL_GET_test j) ENOTTY_number (
     assert_result (RTC_PLL_SET_test j) ENOTTY_number (
     assert_result (RTC_VL_READ_test j) ENOTTY_number (
     assert_result RTC_VL_CLR_test ENOTTY_number (
     Return 0))))))))))))))))))))))"

text \<open>The process after \<open>main\<close> has tried to create its ten threads: \<open>created i\<close> is whether the
  \<open>i\<close>-th came to be, with junk \<open>js i\<close>.  \<open>main\<close> joins all ten handles, those of threads that were
  never created included.\<close>

definition RTC_THREAD_NUM :: nat where "RTC_THREAD_NUM = 10"

definition rtc_main :: "(nat \<Rightarrow> bool) \<Rightarrow> (nat \<Rightarrow> junk) \<Rightarrow> 'd \<Rightarrow> fault + (rtc_request, rtc_arg, 'd) threads" where
  "rtc_main created js d =
     (if list_all created [0..<RTC_THREAD_NUM]
      then Inr (map (\<lambda>i. (unit_test_entry (js i), 0)) [0..<RTC_THREAD_NUM],
        \<lparr>mutex = None, descriptors = [], device = d, printed_lines = [], bad_call = None\<rparr>)
      else Inl BadRelease)"

subsection \<open>What a test returns\<close>

text \<open>All tests with what they ask for, and what the entry expects of each.\<close>

definition rtc_tests :: "junk \<Rightarrow> (rtc_sys \<times> rtc_request \<times> int) list" where
  "rtc_tests j =
    [(RTC_AIE_ON_test, RTC_AIE_ON, 0), (RTC_AIE_OFF_test, RTC_AIE_OFF, 0),
     (RTC_UIE_ON_test, RTC_UIE_ON, 0), (RTC_UIE_OFF_test, RTC_UIE_OFF, 0),
     (RTC_PIE_ON_test, RTC_PIE_ON, 0), (RTC_PIE_OFF_test, RTC_PIE_OFF, 0),
     (RTC_WIE_ON_test, RTC_WIE_ON, 25), (RTC_WIE_OFF_test, RTC_WIE_OFF, 25),
     (RTC_ALM_SET_test j, RTC_ALM_SET, 0), (RTC_ALM_READ_test j, RTC_ALM_READ, 0),
     (RTC_RD_TIME_test j, RTC_RD_TIME, 0), (RTC_SET_TIME_test j, RTC_SET_TIME, 0),
     (RTC_IRQP_READ_test, RTC_IRQP_READ, 0), (RTC_IRQP_SET_test, RTC_IRQP_SET, 0),
     (RTC_EPOCH_READ_test, RTC_EPOCH_READ, 25), (RTC_EPOCH_SET_test, RTC_EPOCH_SET, 25),
     (RTC_WKALM_SET_test j, RTC_WKALM_SET, 0), (RTC_WKALM_RD_test j, RTC_WKALM_RD, 0),
     (RTC_PLL_GET_test j, RTC_PLL_GET, 25), (RTC_PLL_SET_test j, RTC_PLL_SET, 25),
     (RTC_VL_READ_test j, RTC_VL_READ, 25), (RTC_VL_CLR_test, RTC_VL_CLR, 25)]"

lemmas rtc_test_defs = RTC_AIE_ON_test_def RTC_AIE_OFF_test_def RTC_UIE_ON_test_def RTC_UIE_OFF_test_def
  RTC_PIE_ON_test_def RTC_PIE_OFF_test_def RTC_WIE_ON_test_def RTC_WIE_OFF_test_def RTC_ALM_SET_test_def
  RTC_ALM_READ_test_def RTC_RD_TIME_test_def RTC_SET_TIME_test_def RTC_IRQP_READ_test_def
  RTC_IRQP_SET_test_def RTC_EPOCH_READ_test_def RTC_EPOCH_SET_test_def RTC_WKALM_SET_test_def
  RTC_WKALM_RD_test_def RTC_PLL_GET_test_def RTC_PLL_SET_test_def RTC_VL_READ_test_def RTC_VL_CLR_test_def

lemma unit_test_entry_fold:
  "unit_test_entry j = foldr (\<lambda>(c, q, x) k. assert_result c x k) (rtc_tests j) (Return 0)"
  by (simp add: unit_test_entry_def rtc_tests_def ENOTTY_number_def)

definition expected_result :: "rtc_request \<Rightarrow> int" where
  "expected_result q = (if q \<in> {RTC_WIE_ON, RTC_WIE_OFF, RTC_EPOCH_READ, RTC_EPOCH_SET, RTC_PLL_GET,
     RTC_PLL_SET, RTC_VL_READ, RTC_VL_CLR} then ENOTTY_number else 0)"

text \<open>The tests make every request once, in the order of the enumeration.\<close>

lemma rtc_tests_requests: "map (\<lambda>(c, q, x). q) (rtc_tests j) = enum_class.enum"
  by (simp add: rtc_tests_def enum_rtc_request_def)

lemma rtc_tests_expected: "(c, q, x) \<in> set (rtc_tests j) \<Longrightarrow> x = expected_result q"
  by (auto simp: rtc_tests_def expected_result_def ENOTTY_number_def)

lemma rtc_tests_cover: "\<exists>c. (c, q, expected_result q) \<in> set (rtc_tests j)"
proof -
  have "q \<in> set (map (\<lambda>(c, q, x). q) (rtc_tests j))"
    unfolding rtc_tests_requests using UNIV_enum by blast
  then obtain c x where "(c, q, x) \<in> set (rtc_tests j)" by auto
  then show ?thesis using rtc_tests_expected by blast
qed

text \<open>A report prints, and goes on.\<close>

definition reports :: "(rtc_arg \<Rightarrow> rtc_sys \<Rightarrow> rtc_sys) \<Rightarrow> bool" where
  "reports f \<longleftrightarrow> (\<forall>a. \<exists>lss. \<forall>k. f a k = foldr Printf lss k)"

lemma run_prints: "run_sys env t (foldr Printf lss k) (e, p) =
    run_sys env t k (e, p\<lparr>printed_lines := printed_lines p @ concat lss\<rparr>)"
  by (induction lss arbitrary: p) simp_all

lemma reports_simps [simp]:
  "reports no_report" "reports (\<lambda>a. Printf (ls a))" "reports (\<lambda>a. rtc_time_dump (rt a))"
  "reports (\<lambda>a k. Printf (ls a) (rtc_time_dump (rt a) k))"
proof -
  show "reports no_report" unfolding reports_def no_report_def by (auto intro: exI [of _ "[]"])
  show "reports (\<lambda>a. Printf (ls a))"
    unfolding reports_def by (rule allI, rule_tac x = "[ls a]" in exI) simp
  show "reports (\<lambda>a. rtc_time_dump (rt a))"
    unfolding reports_def rtc_time_dump_def by (rule allI, rule exI [of _ "[_]"]) simp
  show "reports (\<lambda>a k. Printf (ls a) (rtc_time_dump (rt a) k))"
    unfolding reports_def rtc_time_dump_def by (rule allI, rule exI [of _ "[_, _]"]) simp
qed

text \<open>Every test is the common body with some argument and a report.\<close>

lemma formI: "reports f \<Longrightarrow> \<exists>a g. rtc_test q b f = rtc_test q a g \<and> reports g"
  by blast

lemma rtc_tests_form:
  "(c, q, x) \<in> set (rtc_tests j) \<Longrightarrow> \<exists>a f. c = rtc_test q a f \<and> reports f"
  unfolding rtc_tests_def rtc_test_defs Let_def by (auto intro!: formI)

lemma proper_report: "proper h d k \<Longrightarrow> proper h d (no_report a k)"
  "proper h d k \<Longrightarrow> proper h d (rtc_time_dump rt k)"
  by (simp_all add: no_report_def rtc_time_dump_def)

lemma rtc_tests_proper: "(c, q, x) \<in> set (rtc_tests j) \<Longrightarrow> proper False None c"
  unfolding rtc_tests_def rtc_test_defs Let_def
  by (auto simp: rtc_test_def rtc_lock_def rtc_unlock_def no_report_def rtc_time_dump_def)

lemma proper_assert:
  "proper h d c \<Longrightarrow> proper False None k \<Longrightarrow> proper h d (assert_result c x k)"
  unfolding assert_result_def by (rule proper_bind) simp_all

lemma unit_test_entry_proper: "proper False None (unit_test_entry j)"
proof -
  have "proper False None (foldr (\<lambda>(c, q, x) k. assert_result c x k) ts (Return 0))"
    if "set ts \<subseteq> set (rtc_tests j)" for ts
    using that
  proof (induction ts)
    case (Cons a ts)
    obtain c q x where a: "a = (c, q, x)" by (metis prod_cases3)
    then have "proper False None c" using Cons.prems rtc_tests_proper by auto
    then have "proper False None (assert_result c x (foldr (\<lambda>(c, q, x) k. assert_result c x k) ts (Return 0)))"
      using Cons by (intro proper_assert) auto
    then show ?case by (simp add: a)
  qed simp
  then show ?thesis unfolding unit_test_entry_fold by blast
qed

lemma rtc_test_run:
  assumes "idle p" and "reports f" and "dev_env_ok env"
  shows "\<exists>ls. run_sys env t (rtc_test q a f) (e, p) =
    (case dev_open env [] (device p) of
       (Inl x, d) \<Rightarrow> Inr (Some (log_errno env x), log_errno env x, p\<lparr>device := d\<rparr>)
     | (Inr fd, d) \<Rightarrow>
         (case dev_ioctl env q a d of ((x, b), d') \<Rightarrow>
            if x = 0
            then Inr (Some 0, e, p\<lparr>device := dev_close env d', printed_lines := printed_lines p @ ls\<rparr>)
            else Inr (Some (log_errno env x), log_errno env x, p\<lparr>device := dev_close env d'\<rparr>)))"
proof -
  have m: "mutex p = None" "descriptors p = []" using assms(1) by (simp_all add: idle_def)
  obtain r d where od: "dev_open env [] (device p) = (r, d)" by fastforce
  show ?thesis
  proof (cases r)
    case (Inl x)
    have "p\<lparr>mutex := None, device := d\<rparr> = p\<lparr>device := d\<rparr>" using m by (cases p) simp
    then show ?thesis using od Inl m by (simp add: rtc_test_def rtc_lock_def rtc_unlock_def)
  next
    case (Inr fd)
    obtain x b d' where io: "dev_ioctl env q a d = ((x, b), d')" by (metis surj_pair)
    obtain lss where lss: "\<And>k. f b k = foldr Printf lss k"
      using assms(2) unfolding reports_def by metis
    have "\<not> fd < 0" using assms(3) od Inr by (metis dev_env_ok_def fst_conv not_le)
    moreover obtain a1 a2 a3 a4 a5 where "p = \<lparr>mutex = a1, descriptors = a2, device = a3, printed_lines = a4, bad_call = a5\<rparr>"
      by (cases p)
    ultimately show ?thesis
      using od Inr io m by (intro exI [of _ "concat lss"]) (simp add: lss run_prints rtc_test_def rtc_lock_def rtc_unlock_def)
  qed
qed

text \<open>Further (error). Run by one thread on an idle process, every one of the tests returns 0 exactly when
  the open and its request succeed; otherwise it returns the number \<open>errno\<close> holds after the error
  line was written.  On every path the descriptor is closed and the mutex free again, and only a
  test that succeeded prints.\<close>

theorem rtc_unit_test_result:
  assumes "idle p" and "dev_env_ok env" and "(test, q, x) \<in> set (rtc_tests j)"
  shows "\<exists>a ls. run_sys env t test (e, p) =
    (case dev_open env [] (device p) of
       (Inl err, d) \<Rightarrow> Inr (Some (log_errno env err), log_errno env err, p\<lparr>device := d\<rparr>)
     | (Inr fd, d) \<Rightarrow>
         (case dev_ioctl env q a d of ((err, b), d') \<Rightarrow>
            if err = 0
            then Inr (Some 0, e, p\<lparr>device := dev_close env d', printed_lines := printed_lines p @ ls\<rparr>)
            else Inr (Some (log_errno env err), log_errno env err, p\<lparr>device := dev_close env d'\<rparr>)))"
proof -
  obtain a f where "test = rtc_test q a f" "reports f" using rtc_tests_form [OF assms(3)] by blast
  then show ?thesis using rtc_test_run [OF assms(1) _ assms(2)] by blast
qed

definition no_junk :: junk where
  "no_junk = (let t = \<lparr>tm_sec = 0, tm_min = 0, tm_hour = 0, tm_mday = 0, tm_mon = 0, tm_year = 0,
       tm_wday = 0, tm_yday = 0, tm_isdst = 0\<rparr> in
     \<lparr>junk_time = t, junk_alarm = \<lparr>wk_enabled = 0, wk_pending = 0, wk_time = t\<rparr>,
      junk_pll = \<lparr>pll_ctrl = 0, pll_value = 0, pll_max = 0, pll_min = 0, pll_posmult = 0,
        pll_negmult = 0, pll_clock = 0\<rparr>, junk_int = 0\<rparr>)"

text \<open>A device that opens, and answers each request by a fixed number.\<close>

definition answering :: "(rtc_request \<Rightarrow> int) \<Rightarrow> (int \<Rightarrow> int) \<Rightarrow> (rtc_request, rtc_arg, unit) dev_env" where
  "answering ans log = \<lparr>dev_open = (\<lambda>fds d. (Inr 3, d)), dev_ioctl = (\<lambda>q a d. ((ans q, a), d)),
     dev_close = (\<lambda>d. d), log_errno = log\<rparr>"

definition idle_process :: "'d \<Rightarrow> 'd process" where
  "idle_process d = \<lparr>mutex = None, descriptors = [], device = d, printed_lines = [], bad_call = None\<rparr>"

lemma idle_idle_process [simp]: "idle (idle_process d)"
  by (simp add: idle_def idle_process_def)

theorem rtc_unit_test_result_witness:
  "run_sys (answering (\<lambda>q. 25) (\<lambda>e. e)) 0 RTC_WIE_ON_test (0, idle_process ()) =
     Inr (Some 25, 25, idle_process ())"
proof -
  have env: "dev_env_ok (answering (\<lambda>q. 25) (\<lambda>e. e))" by (simp add: dev_env_ok_def answering_def)
  have mem: "(RTC_WIE_ON_test, RTC_WIE_ON, 25) \<in> set (rtc_tests j)" for j by (simp add: rtc_tests_def)
  from rtc_unit_test_result [OF idle_idle_process [of "()"] env mem, where t = 0 and e = 0]
  show ?thesis by (auto simp: answering_def idle_process_def)
qed

subsection \<open>The verdict of a thread\<close>

definition test_result :: "(rtc_request \<Rightarrow> int) \<Rightarrow> (int \<Rightarrow> int) \<Rightarrow> rtc_request \<Rightarrow> int" where
  "test_result ans log q = (if ans q = 0 then 0 else log (ans q))"

lemma run_test_answered:
  assumes "idle p" and "dev_env_ok env" and "(c, q, x) \<in> set (rtc_tests j)"
    and opens: "\<forall>d. \<exists>fd d'. dev_open env [] d = (Inr fd, d')"
    and answers: "\<forall>q a d. fst (fst (dev_ioctl env q a d)) = ans q"
  shows "\<exists>e' p'. idle p' \<and> run_sys env t c (e, p) = Inr (Some (test_result ans (log_errno env) q), e', p')"
proof -
  obtain a ls where run: "run_sys env t c (e, p) =
    (case dev_open env [] (device p) of
       (Inl err, d) \<Rightarrow> Inr (Some (log_errno env err), log_errno env err, p\<lparr>device := d\<rparr>)
     | (Inr fd, d) \<Rightarrow>
         (case dev_ioctl env q a d of ((err, b), d') \<Rightarrow>
            if err = 0
            then Inr (Some 0, e, p\<lparr>device := dev_close env d', printed_lines := printed_lines p @ ls\<rparr>)
            else Inr (Some (log_errno env err), log_errno env err, p\<lparr>device := dev_close env d'\<rparr>)))"
    using rtc_tests_form [OF assms(3)] rtc_test_run [OF assms(1) _ assms(2)] by blast
  obtain fd d where o1: "dev_open env [] (device p) = (Inr fd, d)" using opens by blast
  obtain b d' where io: "dev_ioctl env q a d = ((ans q, b), d')" using answers by (metis prod.collapse)
  show ?thesis using assms(1) by (simp add: run o1 io test_result_def idle_def)
qed

lemma run_tests_answered:
  assumes env: "dev_env_ok env" and opens: "\<forall>d. \<exists>fd d'. dev_open env [] d = (Inr fd, d')"
    and answers: "\<forall>q a d. fst (fst (dev_ioctl env q a d)) = ans q"
  shows "set ts \<subseteq> set (rtc_tests j) \<Longrightarrow> idle p \<Longrightarrow>
    \<exists>r e' p'. idle p' \<and>
      run_sys env t (foldr (\<lambda>(c, q, x) k. assert_result c x k) ts (Return 0)) (e, p) = Inr (r, e', p') \<and>
      (r = Some 0 \<and> (\<forall>(c, q, x) \<in> set ts. test_result ans (log_errno env) q = x) \<or>
       r = None \<and> \<not> (\<forall>(c, q, x) \<in> set ts. test_result ans (log_errno env) q = x))"
proof (induction ts arbitrary: e p)
  case (Cons a ts)
  obtain c q x where a: "a = (c, q, x)" by (metis prod_cases3)
  then have "(c, q, x) \<in> set (rtc_tests j)" using Cons.prems by auto
  from run_test_answered [OF Cons.prems(2) env this opens answers] obtain e1 p1 where
    1: "idle p1" "run_sys env t c (e, p) = Inr (Some (test_result ans (log_errno env) q), e1, p1)" by blast
  show ?case
  proof (cases "test_result ans (log_errno env) q = x")
    case True
    with 1 Cons.IH [of p1 e1] Cons.prems show ?thesis
      by (simp add: a assert_result_def run_sys_bind)
  next
    case False
    with 1 show ?thesis by (simp add: a assert_result_def run_sys_bind)
  qed
qed simp

text \<open>Further (functional). A thread's run over all tests ends without an abort exactly when every request
  is answered as the entry asserts (0, or \<open>ENOTTY\<close> for the eight requests the board does not
  support), seen through what writing an error line does to \<open>errno\<close>: a library that changes it there
  fails the tests on a device that answers as expected.\<close>

theorem rtc_entry_verdict:
  assumes "dev_env_ok env" and "idle p"
    and "\<forall>d. \<exists>fd d'. dev_open env [] d = (Inr fd, d')"
    and "\<forall>q a d. fst (fst (dev_ioctl env q a d)) = ans q"
  shows "\<exists>r e' p'. run_sys env t (unit_test_entry j) (e, p) = Inr (r, e', p') \<and> idle p' \<and>
     (if \<forall>q. (if ans q = 0 then 0 else log_errno env (ans q)) = expected_result q
      then r = Some 0 else r = None)"
proof -
  have all: "(\<forall>(c, q, x) \<in> set (rtc_tests j). test_result ans (log_errno env) q = x) \<longleftrightarrow>
      (\<forall>q. test_result ans (log_errno env) q = expected_result q)"
  proof
    assume *: "\<forall>(c, q, x) \<in> set (rtc_tests j). test_result ans (log_errno env) q = x"
    show "\<forall>q. test_result ans (log_errno env) q = expected_result q"
    proof
      fix q
      obtain c where "(c, q, expected_result q) \<in> set (rtc_tests j)" using rtc_tests_cover by blast
      with * have "case (c, q, expected_result q) of (c, q, x) \<Rightarrow> test_result ans (log_errno env) q = x"
        by (rule bspec)
      then show "test_result ans (log_errno env) q = expected_result q" by simp
    qed
  next
    assume *: "\<forall>q. test_result ans (log_errno env) q = expected_result q"
    show "\<forall>(c, q, x) \<in> set (rtc_tests j). test_result ans (log_errno env) q = x"
    proof (clarify)
      fix c q x assume "(c, q, x) \<in> set (rtc_tests j)"
      from rtc_tests_expected [OF this] show "test_result ans (log_errno env) q = x" using * by simp
    qed
  qed
  define pass where "pass \<longleftrightarrow> (\<forall>q. test_result ans (log_errno env) q = expected_result q)"
  note run = run_tests_answered [OF assms(1,3,4) subset_refl assms(2), where j = j and t = t and e = e,
      unfolded all, folded pass_def unit_test_entry_fold]
  have "(\<forall>q. (if ans q = 0 then 0 else log_errno env (ans q)) = expected_result q) \<longleftrightarrow> pass"
    by (simp add: pass_def test_result_def)
  then show ?thesis using run by (simp only:) (metis (full_types))
qed

theorem rtc_entry_verdict_witness:
  "\<exists>e' p'. run_sys (answering expected_result (\<lambda>e. e)) 0 (unit_test_entry no_junk) (0, idle_process ()) =
     Inr (Some 0, e', p')"
proof -
  let ?env = "answering expected_result (\<lambda>e. e)"
  have "dev_env_ok ?env" "\<forall>d. \<exists>fd d'. dev_open ?env [] d = (Inr fd, d')"
    "\<forall>q a d. fst (fst (dev_ioctl ?env q a d)) = expected_result q"
    by (simp_all add: dev_env_ok_def answering_def expected_result_def ENOTTY_number_def)
  from rtc_entry_verdict [OF this(1) idle_idle_process this(2,3), of 0 no_junk 0 "()"] obtain r e' p' where
    run: "run_sys ?env 0 (unit_test_entry no_junk) (0, idle_process ()) = Inr (r, e', p')" and
    r: "if \<forall>q. (if expected_result q = 0 then 0 else log_errno ?env (expected_result q)) = expected_result q
      then r = Some 0 else r = None" by blast
  have "r = Some 0" using r by (simp add: answering_def)
  then show ?thesis using run by blast
qed

subsection \<open>Ten threads\<close>

lemma rtc_main_ok:
  assumes "rtc_main created js d = Inr w"
  shows "threads_ok w"
  using assms unit_test_entry_proper
  by (auto simp: rtc_main_def threads_ok_def process_ok_def own_def split: if_splits)

text \<open>C4 (safety). However the ten threads are interleaved and whatever the device answers, none
  unlocks or closes what it does not hold; at most one descriptor is open, and only while the mutex
  is held; whenever a thread is about to open the device no descriptor is open, so a device that
  admits one user at a time never refuses it.\<close>

theorem rtc_threads_exclusive:
  assumes "dev_env_ok env" and "rtc_main created js d = Inr w"
  shows "case fold (thread_step env) sched w of (ths, p) \<Rightarrow>
     bad_call p = None \<and> length (descriptors p) \<le> 1 \<and> (mutex p = None \<longrightarrow> descriptors p = []) \<and>
     (\<forall>t < length ths. \<forall>k. fst (ths ! t) = Open k \<longrightarrow> mutex p = Some t \<and> descriptors p = [])"
proof -
  have "fold (thread_step env) sched w = fold (\<lambda>(env, t). thread_step env t) (map (Pair env) sched) w"
    by (simp add: fold_map comp_def)
  moreover have "list_all (\<lambda>(env, t). dev_env_ok env) (map (Pair env) sched)"
    using assms(1) by (simp add: list_all_length)
  ultimately have ok: "threads_ok (fold (thread_step env) sched w)"
    using threads.run_inv [OF rtc_main_ok [OF assms(2)]] by simp
  obtain ths p where w': "fold (thread_step env) sched w = (ths, p)" by fastforce
  have "mutex p = Some t \<and> descriptors p = []" if "t < length ths" "fst (ths ! t) = Open k" for t k
  proof -
    have "proper (mutex p = Some t) (own t p) (fst (ths ! t))"
      using ok that(1) by (auto simp: threads_ok_def w')
    then show ?thesis unfolding that(2) by (auto simp: own_def)
  qed
  moreover have "process_ok p" using ok by (simp add: threads_ok_def w')
  ultimately show ?thesis unfolding w' process_ok_def prod.case by blast
qed

theorem rtc_threads_exclusive_witness:
  "\<exists>w. rtc_main (\<lambda>_. True) (\<lambda>_. no_junk) () = Inr w \<and>
     length (descriptors (snd (fold (thread_step (answering expected_result (\<lambda>e. e))) [0, 1, 0, 1, 2] w))) \<le> 1"
proof -
  obtain w where w: "rtc_main (\<lambda>_. True) (\<lambda>_. no_junk) () = Inr w"
    by (simp add: rtc_main_def list_all_length)
  have "dev_env_ok (answering expected_result (\<lambda>e. e))"
    by (simp add: dev_env_ok_def answering_def expected_result_def ENOTTY_number_def)
  from rtc_threads_exclusive [OF this w, of "[0, 1, 0, 1, 2]"] w show ?thesis
    by (auto split: prod.splits)
qed

text \<open>C5 (liveness). No schedule can lock the threads up: whatever has happened so far, there is a
  continuation after which every thread has returned, or an \<open>assert\<close> has stopped the program.\<close>

theorem rtc_threads_finish:
  assumes "dev_env_ok env" and "rtc_main created js d = Inr w"
  shows "\<exists>more. settled (fold (thread_step env) (sched @ more) w)"
proof -
  have "threads_ok (fold (thread_step env) sched w)"
    using rtc_main_ok [OF assms(2)] thread_step_ok [OF assms(1)]
    by (induction sched arbitrary: w) simp_all
  from can_settle [OF assms(1) this] show ?thesis by simp
qed

theorem rtc_threads_finish_witness:
  "\<exists>w more. rtc_main (\<lambda>_. True) (\<lambda>_. no_junk) () = Inr w \<and>
     settled (fold (thread_step (answering expected_result (\<lambda>e. e))) ([0, 3, 7] @ more) w)"
proof -
  obtain w where w: "rtc_main (\<lambda>_. True) (\<lambda>_. no_junk) () = Inr w"
    by (simp add: rtc_main_def list_all_length)
  have "dev_env_ok (answering expected_result (\<lambda>e. e))"
    by (simp add: dev_env_ok_def answering_def expected_result_def ENOTTY_number_def)
  from rtc_threads_finish [OF this w, of "[0, 3, 7]"] w show ?thesis by blast
qed

subsection \<open>Progress\<close>

text \<open>A thread that cannot move: it is done, or it waits for the mutex.\<close>

definition stuck :: "'d process \<Rightarrow> rtc_sys \<Rightarrow> bool" where
  "stuck p c \<longleftrightarrow> (case c of Return r \<Rightarrow> True | Abort \<Rightarrow> True | Mutex_lock k \<Rightarrow> mutex p \<noteq> None | _ \<Rightarrow> False)"

lemma proper_holder_moves: "proper True d c \<Longrightarrow> \<not> stuck p c"
  by (cases c) (simp_all add: stuck_def)

lemma unsettled_thread:
  fixes ths :: "(rtc_sys \<times> int) list"
  assumes "\<not> settled (ths, p)"
  shows "\<exists>t < length ths. case fst (ths ! t) of Return r \<Rightarrow> False | Abort \<Rightarrow> False | _ \<Rightarrow> True"
proof -
  define returned where "returned = (\<lambda>(c :: rtc_sys, e :: int). case c of Return r \<Rightarrow> True | _ \<Rightarrow> False)"
  have live: "\<not> aborted (ths, p)" and "\<not> list_all returned ths"
    using assms by (simp_all only: settled_def fst_conv de_Morgan_disj simp_thms returned_def)
  then obtain t where "t < length ths" "\<not> returned (ths ! t)"
    unfolding list_all_length by blast
  then have t: "t < length ths" "\<not> (case ths ! t of (c, e) \<Rightarrow> case c of Return r \<Rightarrow> True | _ \<Rightarrow> False)"
    unfolding returned_def .
  obtain c e where ce: "ths ! t = (c, e)" by fastforce
  have "c \<noteq> Abort"
    using live ce nth_mem [OF t(1)] unfolding aborted_def list_ex_iff fst_conv by fastforce
  then show ?thesis using t ce by (intro exI [of _ t]) (auto split: sys.splits)
qed

text \<open>Further (type). The use of the mutex and of the descriptor is a discipline that the tests follow like a
  type: at every state that any schedule reaches, what is left of each thread's program fits what
  the thread holds at that moment (an open descriptor only under the mutex, nothing at the end),
  and as long as the program is not over some thread can move.\<close>

theorem rtc_threads_typed:
  assumes "dev_env_ok env" and "rtc_main created js d = Inr w"
  shows "case fold (thread_step env) sched w of (ths, p) \<Rightarrow>
     (\<forall>t < length ths. proper (mutex p = Some t) (if mutex p = Some t then opened p else None) (fst (ths ! t))) \<and>
     (settled (ths, p) \<or> (\<exists>t < length ths. \<not> stuck p (fst (ths ! t))))"
proof -
  obtain ths p where w': "fold (thread_step env) sched w = (ths, p)" by fastforce
  have "threads_ok (fold (thread_step env) sched w)"
    using rtc_main_ok [OF assms(2)] thread_step_ok [OF assms(1)] by (induction sched arbitrary: w) simp_all
  then have ok: "\<forall>t < length ths. proper (mutex p = Some t) (own t p) (fst (ths ! t))"
    "\<forall>t. mutex p = Some t \<longrightarrow> t < length ths" by (simp_all add: threads_ok_def w')
  have "\<exists>t < length ths. \<not> stuck p (fst (ths ! t))" if unsettled: "\<not> settled (ths, p)"
  proof (cases "mutex p")
    case None
    obtain t where "t < length ths" "case fst (ths ! t) of Return r \<Rightarrow> False | Abort \<Rightarrow> False | _ \<Rightarrow> True"
      using unsettled_thread [OF unsettled] by blast
    then show ?thesis using None by (intro exI [of _ t]) (auto simp: stuck_def split: sys.splits)
  next
    case (Some u)
    then have "u < length ths" "proper True (own u p) (fst (ths ! u))" using ok by auto
    then show ?thesis using proper_holder_moves by blast
  qed
  then show ?thesis using ok(1) by (auto simp: w' own_def)
qed

theorem rtc_threads_typed_witness:
  "\<exists>w. rtc_main (\<lambda>_. True) (\<lambda>_. no_junk) () = Inr w \<and>
     (case fold (thread_step (answering expected_result (\<lambda>e. e))) [0, 1, 1] w of (ths, p) \<Rightarrow>
        settled (ths, p) \<or> (\<exists>t < length ths. \<not> stuck p (fst (ths ! t))))"
proof -
  obtain w where w: "rtc_main (\<lambda>_. True) (\<lambda>_. no_junk) () = Inr w"
    by (simp add: rtc_main_def list_all_length)
  have "dev_env_ok (answering expected_result (\<lambda>e. e))"
    by (simp add: dev_env_ok_def answering_def expected_result_def ENOTTY_number_def)
  from rtc_threads_typed [OF this w, of "[0, 1, 1]"] w show ?thesis by (auto split: prod.splits)
qed

end
