(* ===== verification/Rtc_Stack.thy ===== *)
theory Rtc_Stack
  imports Rtc_Unit_Test
begin

text \<open>
  The clock's unit test on the clock's driver.  Between the two stands the RTC class of the kernel,
  which is not part of the repository: \<open>rtc_served\<close> states what its documentation says of the calls
  that matter here, for a privileged caller: opening, closing, setting and reading the time and
  setting the interrupt rate are handed to the driver's operations.  The class checks every time
  against the calendar first; \<open>plain_time\<close> are times that pass, whatever the month.
\<close>

definition plain_time :: "rtc_time \<Rightarrow> bool" where
  "plain_time t \<longleftrightarrow> 0 \<le> sint (tm_sec t) \<and> sint (tm_sec t) < 60 \<and> 0 \<le> sint (tm_min t) \<and> sint (tm_min t) < 60 \<and>
     0 \<le> sint (tm_hour t) \<and> sint (tm_hour t) < 24 \<and> 1 \<le> sint (tm_mday t) \<and> sint (tm_mday t) \<le> 28 \<and>
     0 \<le> sint (tm_mon t) \<and> sint (tm_mon t) < 12 \<and> 70 \<le> sint (tm_year t)"

definition rtc_served :: "rtc_hdr \<Rightarrow> (rtc_request, rtc_arg, rtc) dev_env \<Rightarrow> bool" where
  "rtc_served h env \<longleftrightarrow>
     (\<forall>d d'. rtc_open None None d = Inr (Inr 0, d') \<longrightarrow> (\<exists>fd. 0 \<le> fd \<and> dev_open env [] d = (Inr fd, d'))) \<and>
     (\<forall>d d'. rtc_release h d = Inr d' \<longrightarrow> dev_close env d = d') \<and>
     (\<forall>t d r t' d'. plain_time (rtc_time.truncate t) \<and>
        rtc_settime h (rtc_time.truncate t) d = (Inr r, t', d') \<longrightarrow>
        dev_ioctl env RTC_SET_TIME (Arg_time t) d = ((0, Arg_time t), d')) \<and>
     (\<forall>t d. plain_time (rtc_gettime h (\<lambda>_. rtc_regs d)) \<longrightarrow>
        (\<exists>u. dev_ioctl env RTC_RD_TIME (Arg_time t) d = ((0, Arg_time u), d) \<and>
        rtc_time.truncate u = rtc_gettime h (\<lambda>_. rtc_regs d))) \<and>
     (\<forall>f d r d'. rtc_setfreq h f d = (Inr r, d') \<longrightarrow>
        dev_ioctl env RTC_IRQP_SET (Arg_value f) d = ((0, Arg_value f), d'))"

text \<open>A class that does just that, and refuses every other time.\<close>

fun rtc_class_ioctl :: "rtc_hdr \<Rightarrow> rtc_request \<Rightarrow> rtc_arg \<Rightarrow> rtc \<Rightarrow> (int \<times> rtc_arg) \<times> rtc" where
  "rtc_class_ioctl h RTC_SET_TIME (Arg_time t) d =
     (if \<not> plain_time (rtc_time.truncate t) then ((22, Arg_time t), d) else
      case rtc_settime h (rtc_time.truncate t) d of
        (Inr _, _, d') \<Rightarrow> ((0, Arg_time t), d') | (Inl _, _, d') \<Rightarrow> ((22, Arg_time t), d'))"
| "rtc_class_ioctl h RTC_RD_TIME (Arg_time t) d =
     (let g = rtc_gettime h (\<lambda>_. rtc_regs d) in
      if \<not> plain_time g then ((22, Arg_time t), d) else
      ((0, Arg_time (t\<lparr>tm_sec := tm_sec g, tm_min := tm_min g, tm_hour := tm_hour g,
         tm_mday := tm_mday g, tm_mon := tm_mon g, tm_year := tm_year g\<rparr>)), d))"
| "rtc_class_ioctl h RTC_IRQP_SET (Arg_value f) d =
     (case rtc_setfreq h f d of (Inr _, d') \<Rightarrow> ((0, Arg_value f), d') | (Inl _, d') \<Rightarrow> ((22, Arg_value f), d'))"
| "rtc_class_ioctl h q a d = ((25, a), d)"

definition rtc_class :: "rtc_hdr \<Rightarrow> (rtc_request, rtc_arg, rtc) dev_env" where
  "rtc_class h = \<lparr>dev_open = (\<lambda>fds d. case rtc_open None None d of Inr (Inr _, d') \<Rightarrow> (Inr 3, d') | _ \<Rightarrow> (Inl 16, d)),
     dev_ioctl = rtc_class_ioctl h,
     dev_close = (\<lambda>d. case rtc_release h d of Inr d' \<Rightarrow> d' | Inl _ \<Rightarrow> d),
     log_errno = (\<lambda>e. e)\<rparr>"

lemma rtc_class_served: "rtc_served h (rtc_class h)"
  unfolding rtc_served_def rtc_class_def
  by (auto simp: Let_def rtc_time.truncate_def intro!: exI)

lemma rtc_class_ioctl_nonneg: "0 \<le> fst (fst (rtc_class_ioctl h q a d))"
  by (cases "(h, q, a, d)" rule: rtc_class_ioctl.cases)
    (auto simp: Let_def split: prod.splits sum.splits)

lemma rtc_class_env_ok: "dev_env_ok (rtc_class h)"
  by (auto simp: dev_env_ok_def rtc_class_def rtc_class_ioctl_nonneg split: sum.splits prod.splits)

subsection \<open>A session on the driver\<close>

definition rtc_opened :: "rtc \<Rightarrow> rtc" where
  "rtc_opened d = rtc_hold (tick_line d) (rtc_hold (alarm_line d) d)"

lemma rtc_open_granted: "rtc_open None None d = Inr (Inr 0, rtc_opened d)"
  by (simp add: rtc_open_def rtc_opened_def)

lemma rtc_opened_fields [simp]:
  "rtc_regs (rtc_opened d) = rtc_regs d" "rtc_alarmno (rtc_opened d) = rtc_alarmno d"
  "rtc_tickno (rtc_opened d) = rtc_tickno d"
  "rtc_held (rtc_opened d) = add_mset (tick_line d) (add_mset (alarm_line d) (rtc_held d))"
  by (simp_all add: rtc_opened_def)

lemma rtc_setpie_regs: "r \<noteq> TICNT \<Longrightarrow> rtc_regs (snd (rtc_setpie h f s)) r = rtc_regs s r"
  by (simp add: rtc_setpie_def Let_def)

text \<open>A test whose request the driver grants.\<close>

lemma rtc_test_granted:
  assumes "idle p" and "rtc_served h env" and io: "dev_ioctl env q a (rtc_opened (device p)) = ((0, b), d')"
    and held: "rtc_held d' = rtc_held (rtc_opened (device p))" "rtc_alarmno d' = rtc_alarmno (device p)"
      "rtc_tickno d' = rtc_tickno (device p)"
    and f: "\<And>k. f b k = foldr Printf lss k"
  shows "run_sys env t (rtc_test q a f) (e, p) =
    Inr (Some 0, e, p\<lparr>device := (snd (rtc_setpie h 0 d'))\<lparr>rtc_held := rtc_held (device p)\<rparr>,
       printed_lines := printed_lines p @ concat lss\<rparr>)"
proof -
  have m: "mutex p = None" "descriptors p = []" using assms(1) by (simp_all add: idle_def)
  obtain fd where fd: "0 \<le> fd" "dev_open env [] (device p) = (Inr fd, rtc_opened (device p))"
    using assms(2) rtc_open_granted unfolding rtc_served_def by blast
  have "rtc_release h d' = Inr ((snd (rtc_setpie h 0 d'))\<lparr>rtc_held := rtc_held (device p)\<rparr>)"
    by (rule rtc_release_lines) (simp add: held)
  then have cl: "dev_close env d' = (snd (rtc_setpie h 0 d'))\<lparr>rtc_held := rtc_held (device p)\<rparr>"
    using assms(2) unfolding rtc_served_def by blast
  obtain a1 a2 a3 a4 a5 where "p = \<lparr>mutex = a1, descriptors = a2, device = a3, printed_lines = a4, bad_call = a5\<rparr>"
    by (cases p)
  then show ?thesis
    using m fd io by (simp add: rtc_test_def rtc_lock_def rtc_unlock_def f run_prints cl)
qed

text \<open>A granted test that prints a time.\<close>

definition time_lines :: "user_time \<Rightarrow> (string \<times> int) list" where
  "time_lines rt =
     [(''tm_sec'', sint (tm_sec rt)), (''tm_min'', sint (tm_min rt)), (''tm_hour'', sint (tm_hour rt)),
      (''tm_mday'', sint (tm_mday rt)), (''tm_mon'', sint (tm_mon rt)), (''tm_year'', sint (tm_year rt)),
      (''tm_wday'', sint (tm_wday rt)), (''tm_yday'', sint (tm_yday rt)), (''tm_isdst'', sint (tm_isdst rt))]"

lemma rtc_test_dump:
  assumes "idle p" and "rtc_served h env" and "dev_ioctl env q a (rtc_opened (device p)) = ((0, b), d')"
    and "rtc_held d' = rtc_held (rtc_opened (device p))" "rtc_alarmno d' = rtc_alarmno (device p)"
      "rtc_tickno d' = rtc_tickno (device p)"
  shows "run_sys env t (rtc_test q a (\<lambda>a. rtc_time_dump (g a))) (e, p) =
    Inr (Some 0, e, p\<lparr>device := (snd (rtc_setpie h 0 d'))\<lparr>rtc_held := rtc_held (device p)\<rparr>,
       printed_lines := printed_lines p @ time_lines (g b)\<rparr>)"
proof -
  have "rtc_time_dump (g b) k = foldr Printf [time_lines (g b)] k" for k
    by (simp add: rtc_time_dump_def time_lines_def)
  from rtc_test_granted [OF assms(1-6), where f = "\<lambda>a. rtc_time_dump (g a)" and lss = "[time_lines (g b)]",
      OF this]
  show ?thesis by simp
qed

subsection \<open>Setting and reading the time\<close>

definition test_time :: rtc_time where
  "test_time = \<lparr>tm_sec = 4, tm_min = 50, tm_hour = 9, tm_mday = 13, tm_mon = 1, tm_year = 117\<rparr>"

lemma plain_test_time: "plain_time test_time"
  by (simp add: plain_time_def test_time_def)

text \<open>The driver after the time of the test was set.\<close>

definition clock_set :: "rtc_hdr \<Rightarrow> rtc \<Rightarrow> rtc" where
  "clock_set h d = d\<lparr>rtc_regs := (rtc_regs d)(RTCSEC := bin2bcd h 4, RTCMIN := bin2bcd h 50,
     RTCHOUR := bin2bcd h 9, RTCDATE := bin2bcd h 13, RTCMON := bin2bcd h 2, RTCYEAR := bin2bcd h 17)\<rparr>"

lemma settime_test_time:
  "\<exists>t'. rtc_settime h test_time d = (Inr 0, t', clock_set h d)"
proof -
  have "\<not> sint (tm_year test_time - 100) < 0" "\<not> sint (tm_year test_time - 100) \<ge> 100"
    by (simp_all add: test_time_def)
  from rtc_settime_ok [OF this] show ?thesis by (simp add: test_time_def clock_set_def)
qed

lemma gettime_clock_set:
  assumes "rtc_hdr_ok h"
    and "\<forall>r \<in> {RTCSEC, RTCMIN, RTCHOUR, RTCDATE, RTCMON, RTCYEAR}. m r = rtc_regs (clock_set h d) r"
  shows "rtc_gettime h (\<lambda>_. m) = test_time"
proof -
  have "bcd2bin h (bin2bcd h 4) = 4" "bcd2bin h (bin2bcd h 50) = 50" "bcd2bin h (bin2bcd h 9) = 9"
    "bcd2bin h (bin2bcd h 13) = 13" "bcd2bin h (bin2bcd h 2) = 2" "bcd2bin h (bin2bcd h 17) = 17"
    by (simp_all add: rtc_hdr_bcd(1) [OF assms(1)])
  then show ?thesis using assms(2) by (simp add: rtc_gettime_still clock_set_def test_time_def)
qed

lemma clock_set_fields [simp]:
  "rtc_held (clock_set h d) = rtc_held d" "rtc_alarmno (clock_set h d) = rtc_alarmno d"
  "rtc_tickno (clock_set h d) = rtc_tickno d"
  by (simp_all add: clock_set_def)

text \<open>C17 (roundtrip). On this driver the test that sets the time returns 0, and the test that reads it,
  run next, returns 0 and prints 09:50:04 on 13 February 2017 (year 117, month 1) with nothing in
  between; both leave the driver holding what it held.\<close>

theorem unit_test_sets_clock:
  assumes "rtc_hdr_ok h" and "rtc_served h env" and "idle p"
  shows "\<exists>p1 p2 rest. run_sys env t (RTC_SET_TIME_test j) (e, p) = Inr (Some 0, e, p1) \<and>
     run_sys env t (RTC_RD_TIME_test j) (e, p1) = Inr (Some 0, e, p2) \<and>
     printed_lines p2 = printed_lines p1 @ [(''tm_sec'', 4), (''tm_min'', 50), (''tm_hour'', 9),
       (''tm_mday'', 13), (''tm_mon'', 1), (''tm_year'', 117)] @ rest \<and> length rest = 3 \<and>
     rtc_held (device p1) = rtc_held (device p) \<and> rtc_held (device p2) = rtc_held (device p)"
proof -
  define rt where "rt = (junk_time j)\<lparr>tm_hour := 9, tm_min := 50, tm_sec := 4, tm_year := 2017 - 1900,
         tm_mon := 1, tm_mday := 13\<rparr>"
  have "rtc_time.truncate rt = test_time" by (simp add: rt_def test_time_def rtc_time.truncate_def)
  then have io: "dev_ioctl env RTC_SET_TIME (Arg_time rt) (rtc_opened (device p)) =
      ((0, Arg_time rt), clock_set h (rtc_opened (device p)))"
    using settime_test_time [of h "rtc_opened (device p)"] plain_test_time assms(2) unfolding rtc_served_def by metis
  define d1 where "d1 = (snd (rtc_setpie h 0 (clock_set h (rtc_opened (device p)))))\<lparr>rtc_held := rtc_held (device p)\<rparr>"
  define p1 where "p1 = p\<lparr>device := d1, printed_lines := printed_lines p @ time_lines rt\<rparr>"
  have p1: "run_sys env t (RTC_SET_TIME_test j) (e, p) = Inr (Some 0, e, p1)"
    unfolding RTC_SET_TIME_test_def Let_def rt_def [symmetric] p1_def d1_def
    using rtc_test_dump [OF assms(3,2) io, where g = "\<lambda>a. time_of a rt"] by simp
  have d1: "rtc_held d1 = rtc_held (device p)" "device p1 = d1" "idle p1"
    using assms(3) by (simp_all add: d1_def p1_def idle_def)
  have regs: "rtc_gettime h (\<lambda>_. rtc_regs d1) = test_time"
    by (rule gettime_clock_set [OF assms(1), where d = "device p"])
      (simp add: d1_def rtc_setpie_regs, simp add: clock_set_def)
  have plain: "plain_time (rtc_gettime h (\<lambda>_. rtc_regs (rtc_opened d1)))"
    using regs plain_test_time by simp
  obtain u where u: "dev_ioctl env RTC_RD_TIME (Arg_time (junk_time j)) (rtc_opened d1) =
      ((0, Arg_time u), rtc_opened d1)" "rtc_time.truncate u = rtc_gettime h (\<lambda>_. rtc_regs (rtc_opened d1))"
    using assms(2) plain unfolding rtc_served_def by blast
  then have time: "rtc_time.truncate u = test_time" using regs by simp
  define p2 where "p2 = p1\<lparr>device := (snd (rtc_setpie h 0 (rtc_opened d1)))\<lparr>rtc_held := rtc_held d1\<rparr>,
    printed_lines := printed_lines p1 @ time_lines u\<rparr>"
  have p2: "run_sys env t (RTC_RD_TIME_test j) (e, p1) = Inr (Some 0, e, p2)"
    unfolding RTC_RD_TIME_test_def p2_def
    using rtc_test_dump [OF d1(3) assms(2), where d' = "rtc_opened d1" and b = "Arg_time u" and
        g = "\<lambda>a. time_of a (junk_time j)"] u(1) d1(2) by simp
  have "time_lines u = [(''tm_sec'', 4), (''tm_min'', 50), (''tm_hour'', 9), (''tm_mday'', 13),
      (''tm_mon'', 1), (''tm_year'', 117)] @ drop 6 (time_lines u)"
    using time by (simp add: time_lines_def test_time_def rtc_time.truncate_def)
  moreover have "length (drop 6 (time_lines u)) = 3" by (simp add: time_lines_def)
  ultimately show ?thesis
    using p1 p2 d1 by (intro exI [of _ p1] exI [of _ p2] exI [of _ "drop 6 (time_lines u)"]) (simp add: p2_def)
qed

theorem unit_test_sets_clock_witness:
  "\<exists>p1 p2 rest. run_sys (rtc_class s3c2440_rtc) 0 (RTC_RD_TIME_test no_junk) (0, p1) = Inr (Some 0, 0, p2) \<and>
     printed_lines p2 = printed_lines p1 @ [(''tm_sec'', 4), (''tm_min'', 50), (''tm_hour'', 9),
       (''tm_mday'', 13), (''tm_mon'', 1), (''tm_year'', 117)] @ rest"
  using unit_test_sets_clock [OF s3c2440_rtc_ok rtc_class_served idle_idle_process [of rtc_start], of 0 no_junk 0]
  by blast

subsection \<open>The interrupt rate\<close>

lemma rtc_setfreq_512:
  assumes "rtc_hdr_ok h"
  shows "rtc_setfreq h 512 s = (Inr 0, rtc_writeb (- 1) TICNT s)"
proof -
  have "\<exists>k<32. unat (512 :: s32) = 2 ^ k" by (intro exI [of _ 9]) simp
  then have "is_power_of_2 h 512" using rtc_hdr_bcd(3) [OF assms] by blast
  moreover have "c_div 128 512 - 1 = (- 1 :: s32)" by (simp add: c_div_def)
  ultimately show ?thesis by (simp add: rtc_setfreq_def Let_def)
qed

lemma rtc_setfreq_1:
  assumes "rtc_hdr_ok h" and "rtc_regs s TICNT = 0x7f"
  shows "rtc_regs (snd (rtc_setfreq h 1 s)) TICNT = 0x7f"
proof -
  have "\<exists>k<32. unat (1 :: s32) = 2 ^ k" by (intro exI [of _ 0]) simp
  then have "is_power_of_2 h 1" using rtc_hdr_bcd(3) [OF assms(1)] by blast
  moreover have "c_div 128 1 - 1 = (127 :: s32)" by (simp add: c_div_def)
  ultimately show ?thesis using assms(2)
    by (simp add: rtc_setfreq_def Let_def rtc_readb_def readb_def rtc_hdr_masks [OF assms(1)])
qed

text \<open>C18 (error). The test that asks the driver for 512 interrupts a second passes on it, but the driver
  has filled the tick register with ones: while the device is open the tick interrupt is switched
  on unasked, and once it is closed the count left behind is 127, the slowest rate, of one interrupt
  a second.\<close>

theorem unit_test_rate_wraps:
  assumes "rtc_hdr_ok h" and "rtc_served h env" and "idle p"
  shows "\<exists>p1 d. run_sys env t RTC_IRQP_SET_test (e, p) = Inr (Some 0, e, p1) \<and>
     dev_ioctl env RTC_IRQP_SET (Arg_value 512) (rtc_opened (device p)) = ((0, Arg_value 512), d) \<and>
     rtc_regs d TICNT = 0xff \<and> rtc_regs (device p1) TICNT = 0x7f \<and>
     rtc_regs (snd (rtc_setfreq h 1 (device p1))) TICNT = 0x7f"
proof -
  define d where "d = rtc_writeb (- 1) TICNT (rtc_opened (device p))"
  have io: "dev_ioctl env RTC_IRQP_SET (Arg_value 512) (rtc_opened (device p)) = ((0, Arg_value 512), d)"
    using assms(2) rtc_setfreq_512 [OF assms(1)] unfolding rtc_served_def d_def by blast
  define p1 where "p1 = p\<lparr>device := (snd (rtc_setpie h 0 d))\<lparr>rtc_held := rtc_held (device p)\<rparr>\<rparr>"
  have "run_sys env t RTC_IRQP_SET_test (e, p) = Inr (Some 0, e, p1)"
    using rtc_test_granted [OF assms(3,2) io, where f = no_report and lss = "[]"]
    by (simp add: RTC_IRQP_SET_test_def no_report_def d_def p1_def)
  moreover have "rtc_regs d TICNT = 0xff" by (simp add: d_def ucast_m1)
  moreover have "rtc_regs (snd (rtc_setpie h 0 d)) TICNT = 0x7f"
    unfolding rtc_setpie_def Let_def rtc_hdr_masks [OF assms(1)]
    by (simp add: rtc_readb_def readb_def d_def ucast_m1)
  moreover from this have "rtc_regs (device p1) TICNT = 0x7f" by (simp add: p1_def)
  ultimately show ?thesis using io rtc_setfreq_1 [OF assms(1)] by blast
qed

theorem unit_test_rate_wraps_witness:
  "\<exists>p1. run_sys (rtc_class s3c2440_rtc) 0 RTC_IRQP_SET_test (0, idle_process rtc_start) = Inr (Some 0, 0, p1) \<and>
     rtc_regs (device p1) TICNT = 0x7f"
  using unit_test_rate_wraps [OF s3c2440_rtc_ok rtc_class_served idle_idle_process [of rtc_start], of 0 0]
  by blast

end
