(* ===== verification/Rtc_Platform.thy ===== *)
theory Rtc_Platform
  imports Rtc Platform
begin

text \<open>
  The real-time clock driver on the platform bus and in the kernel's RTC class
  (\<open>rtc/driver/rtc.c\<close>): the two tables of its entry points, loading and unloading, and what holds
  over the whole life of the device.  The class calls the driver through the table \<open>rtc_fops\<close>; as
  documented, it lets one process hold the device and closes only what it opened.
\<close>

subsection \<open>The tables and the module\<close>

record 's rtc_class_ops =
  class_open :: "outcome \<Rightarrow> outcome \<Rightarrow> 's \<Rightarrow> fault + int result \<times> 's"
  class_release :: "'s \<Rightarrow> fault + 's"
  irq_set_freq :: "s32 \<Rightarrow> 's \<Rightarrow> int result \<times> 's"
  irq_set_state :: "s32 \<Rightarrow> 's \<Rightarrow> int result \<times> 's"
  read_time :: "(nat \<Rightarrow> rtc_reg \<Rightarrow> u8) \<Rightarrow> rtc_time"
  set_time :: "rtc_time \<Rightarrow> 's \<Rightarrow> int result \<times> rtc_time \<times> 's"
  read_alarm :: "'s \<Rightarrow> rtc_wkalrm"
  set_alarm :: "rtc_wkalrm \<Rightarrow> 's \<Rightarrow> int result \<times> 's"

definition rtc_fops :: "rtc_hdr \<Rightarrow> rtc rtc_class_ops" where
  "rtc_fops h =
     \<lparr>class_open = rtc_open,
      class_release = rtc_release h,
      irq_set_freq = rtc_setfreq h,
      irq_set_state = rtc_setpie h,
      read_time = rtc_gettime h,
      set_time = rtc_settime h,
      read_alarm = rtc_getalarm h,
      set_alarm = rtc_setalarm h\<rparr>"

text \<open>Without \<open>CONFIG_PM\<close> the names of the power operations stand for \<open>NULL\<close>; there is no shutdown.\<close>

definition rtc_driver :: "bool \<Rightarrow> rtc_hdr \<Rightarrow> (rtc_platform, rtc) platform_driver" where
  "rtc_driver config_pm h =
     \<lparr>drv_name = ''s3c2410-rtc'',
      probe = rtc_probe h,
      remove = rtc_remove h,
      shutdown = None,
      suspend = (if config_pm then Some (rtc_suspend h) else None),
      resume = (if config_pm then Some (rtc_resume h) else None)\<rparr>"

definition rtc_module_init ::
    "((rtc_platform, rtc) platform_driver \<Rightarrow> 'k \<Rightarrow> int result \<times> 'k) \<Rightarrow> bool \<Rightarrow> rtc_hdr \<Rightarrow> 'k \<Rightarrow> int result \<times> 'k" where
  "rtc_module_init platform_driver_register config_pm h k = platform_driver_register (rtc_driver config_pm h) k"

definition rtc_module_exit ::
    "((rtc_platform, rtc) platform_driver \<Rightarrow> 'k \<Rightarrow> 'k) \<Rightarrow> bool \<Rightarrow> rtc_hdr \<Rightarrow> 'k \<Rightarrow> 'k" where
  "rtc_module_exit platform_driver_unregister config_pm h k = platform_driver_unregister (rtc_driver config_pm h) k"

subsection \<open>The class\<close>

datatype rtc_call =
    Class_open outcome outcome
  | Class_close
  | Class_set_freq s32
  | Class_set_state s32
  | Class_read_time "nat \<Rightarrow> rtc_reg \<Rightarrow> u8"
  | Class_set_time rtc_time
  | Class_read_alarm
  | Class_set_alarm rtc_wkalrm
  | Alarm_interrupt
  | Tick_interrupt

fun rtc_serve :: "rtc_hdr \<Rightarrow> rtc_call \<Rightarrow> rtc \<Rightarrow> fault + rtc" where
  "rtc_serve h (Class_open alarm_req tick_req) s =
     (if rtc_busy s then Inr s
      else case class_open (rtc_fops h) alarm_req tick_req s of
        Inl f \<Rightarrow> Inl f
      | Inr (Inl _, s) \<Rightarrow> Inr s
      | Inr (Inr _, s) \<Rightarrow> Inr (s\<lparr>rtc_busy := True\<rparr>))"
| "rtc_serve h Class_close s =
     (if rtc_busy s then seq (class_release (rtc_fops h) s) (\<lambda>s. Inr (s\<lparr>rtc_busy := False\<rparr>)) else Inr s)"
| "rtc_serve h (Class_set_freq f) s = Inr (snd (irq_set_freq (rtc_fops h) f s))"
| "rtc_serve h (Class_set_state on) s = Inr (snd (irq_set_state (rtc_fops h) on s))"
| "rtc_serve h (Class_read_time clk) s = Inr s"
| "rtc_serve h (Class_set_time t) s = Inr (snd (snd (set_time (rtc_fops h) t s)))"
| "rtc_serve h Class_read_alarm s = Inr s"
| "rtc_serve h (Class_set_alarm a) s = Inr (snd (set_alarm (rtc_fops h) a s))"
| "rtc_serve h Alarm_interrupt s = Inr (rtc_alarmirq s)"
| "rtc_serve h Tick_interrupt s = Inr (rtc_tickirq s)"

abbreviation rtc_life ::
    "bool \<Rightarrow> rtc_hdr \<Rightarrow> (rtc_platform, rtc_call) lc_event list \<Rightarrow> rtc managed \<Rightarrow> rtc managed" where
  "rtc_life config_pm h es \<equiv> fold (lifecycle (rtc_driver config_pm h) (rtc_serve h) rtc_busy) es"

subsection \<open>What a bound clock owns\<close>

definition rtc_own :: "rtc \<Rightarrow> ledger" where
  "rtc_own s = {#Rtc_dev, Io_map, Mem_region, Mem_desc#} +
     (if rtc_busy s then {#tick_line s, alarm_line s#} else {#})"

text \<open>What the routines leave alone: the ledger, the numbers of the lines, the mark of an open device.\<close>

definition rtc_same :: "rtc \<Rightarrow> rtc \<Rightarrow> bool" where
  "rtc_same s s' \<longleftrightarrow> rtc_held s' = rtc_held s \<and> rtc_alarmno s' = rtc_alarmno s \<and>
     rtc_tickno s' = rtc_tickno s \<and> rtc_busy s' = rtc_busy s"

lemma rtc_same_own: "rtc_same s s' \<Longrightarrow> rtc_held s' = rtc_held s \<and> rtc_own s' = rtc_own s"
  by (simp add: rtc_same_def rtc_own_def)

lemma rtc_busy_writeb [simp]: "rtc_busy (rtc_writeb v r s) = rtc_busy s"
  by (simp add: rtc_writeb_def)

lemma rtc_routines_same:
  "rtc_same s (snd (rtc_setfreq h f s))" "rtc_same s (snd (rtc_setpie h f s))"
  "rtc_same s (snd (snd (rtc_settime h t s)))" "rtc_same s (snd (rtc_setalarm h a s))"
  "rtc_same s (rtc_alarmirq s)" "rtc_same s (rtc_tickirq s)" "rtc_same s (rtc_enable h f s)"
  "rtc_same s (rtc_setaie h f s)" "rtc_same s (snd (rtc_suspend h s))" "rtc_same s (snd (rtc_resume h s))"
  by (simp_all add: rtc_same_def rtc_setfreq_def rtc_setpie_def rtc_settime_def rtc_setalarm_def
      rtc_alarmirq_def rtc_tickirq_def rtc_update_irq_def rtc_enable_def rtc_setaie_def rtc_suspend_def
      rtc_resume_def Let_def)

lemmas rtc_routines_own = rtc_routines_same [THEN rtc_same_own]

definition rtc_all_granted :: "rtc_platform \<Rightarrow> bool" where
  "rtc_all_granted pf \<longleftrightarrow> 0 \<le> sint (rp_alarm pf) \<and> 0 \<le> sint (rp_tick pf) \<and> rp_mem pf \<and> rp_region pf \<and>
     rp_map pf \<and> rp_register pf = None"

lemma rtc_busy_fields [simp]:
  "rtc_busy (rtc_hold r s) = rtc_busy s" "rtc_busy (rtc_enable h f s) = rtc_busy s"
  "rtc_busy (snd (rtc_setfreq h f s)) = rtc_busy s" "rtc_busy (snd (rtc_setpie h f s)) = rtc_busy s"
  "rtc_busy (rtc_setaie h f s) = rtc_busy s"
  using rtc_routines_same(1) [of s h f] rtc_routines_same(2) [of s h f] rtc_routines_same(7) [of s h f]
    rtc_routines_same(8) [of s h f]
  by (simp_all add: rtc_same_def rtc_hold_def)

lemma rtc_probe_bound:
  "rtc_all_granted pf \<Longrightarrow> \<not> rtc_busy s \<Longrightarrow>
     \<exists>s'. rtc_probe h pf s = Inr (Inr 0, s') \<and> \<not> rtc_busy s' \<and> rtc_held s' = rtc_own s' + rtc_held s"
  by (auto simp: rtc_all_granted_def rtc_probe_def Let_def rtc_own_def)

lemma rtc_probe_refused:
  "\<not> rtc_all_granted pf \<Longrightarrow> \<not> rtc_busy s \<Longrightarrow>
     \<exists>e s'. rtc_probe h pf s = Inr (Inl e, s') \<and> \<not> rtc_busy s' \<and> rtc_held s' = rtc_leak pf + rtc_held s"
  by (cases "sint (rp_alarm pf) < 0"; cases "sint (rp_tick pf) < 0"; cases "rp_mem pf";
      cases "rp_region pf"; cases "rp_map pf"; cases "rp_register pf")
    (simp_all add: rtc_all_granted_def rtc_probe_def rtc_leak_def Let_def rtc_err_nomap_def rtc_err_nortc_def
      rtc_drop_def res_simps not_less)

lemma rtc_remove_bound:
  "\<not> rtc_busy s \<Longrightarrow> rtc_held s = rtc_own s + l \<Longrightarrow>
     \<exists>s'. rtc_remove h s = Inr (Inr 0, s') \<and> \<not> rtc_busy s' \<and> rtc_held s' = l"
  by (simp add: rtc_own_def rtc_remove_def rtc_drop_def Let_def res_simps)

lemma rtc_serve_open:
  assumes "rtc_held s = rtc_own s + l"
  shows "\<exists>s'. rtc_serve h (Class_open a t) s = Inr s' \<and> rtc_held s' = rtc_own s' + l"
  using assms
  by (cases "rtc_busy s"; cases a; cases t)
    (simp_all add: rtc_fops_def rtc_open_def rtc_drop_def Let_def rtc_own_def res_simps)

lemma rtc_serve_close:
  assumes "rtc_held s = rtc_own s + l"
  shows "\<exists>s'. rtc_serve h Class_close s = Inr s' \<and> rtc_held s' = rtc_own s' + l"
proof (cases "rtc_busy s")
  case True
  then have "rtc_held s = add_mset (tick_line s) (add_mset (alarm_line s)
      ({#Rtc_dev, Io_map, Mem_region, Mem_desc#} + l))"
    using assms by (simp add: rtc_own_def)
  from rtc_release_lines [OF this, of h] show ?thesis using True
    by (simp add: rtc_fops_def rtc_own_def)
qed (use assms in simp)

lemma rtc_serve_accounts:
  "rtc_held s = rtc_own s + l \<Longrightarrow> \<exists>s'. rtc_serve h x s = Inr s' \<and> rtc_held s' = rtc_own s' + l"
  by (cases x)
    (auto simp: rtc_serve_open rtc_serve_close rtc_fops_def rtc_routines_own simp del: rtc_serve.simps(1,2))

interpretation rtp: platform_contract "rtc_driver config_pm h" "rtc_serve h" rtc_busy
    rtc_held rtc_own rtc_leak "\<lambda>_. True" "\<lambda>s. \<not> rtc_busy s" "\<lambda>_. True" for config_pm h
proof unfold_locales
  fix pf :: rtc_platform and s :: rtc
  assume "\<not> rtc_busy s"
  then show "(\<exists>e s'. probe (rtc_driver config_pm h) pf s = Inr (Inl e, s') \<and> \<not> rtc_busy s' \<and>
          rtc_held s' = rtc_leak pf + rtc_held s) \<or>
        (\<exists>n s'. probe (rtc_driver config_pm h) pf s = Inr (Inr n, s') \<and> True \<and>
          rtc_held s' = rtc_own s' + rtc_held s)"
    using rtc_probe_bound [of pf s h] rtc_probe_refused [of pf s h] by (auto simp: rtc_driver_def)
next
  fix s :: rtc and l :: ledger
  assume "\<not> rtc_busy s" "rtc_held s = rtc_own s + l"
  then show "\<exists>r s'. remove (rtc_driver config_pm h) s = Inr (r, s') \<and> \<not> rtc_busy s' \<and> rtc_held s' = l"
    using rtc_remove_bound [of s l h] by (auto simp: rtc_driver_def)
next
  fix s :: rtc and l :: ledger and x :: rtc_call
  assume "rtc_held s = rtc_own s + l"
  then show "\<exists>s'. rtc_serve h x s = Inr s' \<and> True \<and> rtc_held s' = rtc_own s' + l"
    using rtc_serve_accounts by simp
qed (auto simp: rtc_driver_def rtc_routines_own split: if_splits)

subsection \<open>The life of the device\<close>

text \<open>The register access of the processor is switched on while the driver is bound, and off, with the
  tick interrupt, while the system sleeps.\<close>

fun rtc_controlled :: "bool \<Rightarrow> rtc managed \<Rightarrow> bool" where
  "rtc_controlled config_pm (Bound s) \<longleftrightarrow> bit (rtc_regs s RTCCON) 0"
| "rtc_controlled config_pm (Asleep s) \<longleftrightarrow>
     (if config_pm then \<not> bit (rtc_regs s RTCCON) 0 \<and> \<not> bit (rtc_regs s TICNT) 7 else bit (rtc_regs s RTCCON) 0)"
| "rtc_controlled config_pm m \<longleftrightarrow> True"

lemma rtc_drop_regs: "rtc_drop rs s = Inr s' \<Longrightarrow> rtc_regs s' = rtc_regs s"
  by (auto simp: rtc_drop_def seq_eq_Inr)

lemma rtc_routines_rtccon:
  "rtc_regs (snd (rtc_setfreq h f s)) RTCCON = rtc_regs s RTCCON"
  "rtc_regs (snd (rtc_setpie h f s)) RTCCON = rtc_regs s RTCCON"
  "rtc_regs (snd (snd (rtc_settime h t s))) RTCCON = rtc_regs s RTCCON"
  "rtc_regs (snd (rtc_setalarm h a s)) RTCCON = rtc_regs s RTCCON"
  "rtc_regs (rtc_alarmirq s) = rtc_regs s" "rtc_regs (rtc_tickirq s) = rtc_regs s"
  by (simp_all add: rtc_setfreq_def rtc_setpie_def rtc_settime_def rtc_setalarm_def
      rtc_alarmirq_def rtc_tickirq_def rtc_update_irq_def rtc_setaie_def Let_def)

lemma rtc_open_regs: "rtc_open a t s = Inr (r, s') \<Longrightarrow> rtc_regs s' = rtc_regs s"
  by (auto simp: rtc_open_def Let_def seq_eq_Inr dest!: rtc_drop_regs split: option.splits)

lemma rtc_release_rtccon: "rtc_release h s = Inr s' \<Longrightarrow> rtc_regs s' RTCCON = rtc_regs s RTCCON"
  by (auto simp: rtc_release_def Let_def case_prod_unfold rtc_routines_rtccon dest!: rtc_drop_regs)

lemma rtc_serve_rtccon:
  "rtc_serve h x s = Inr s' \<Longrightarrow> rtc_regs s' RTCCON = rtc_regs s RTCCON"
  by (cases x)
    (auto simp: rtc_fops_def rtc_routines_rtccon seq_eq_Inr dest!: rtc_open_regs rtc_release_rtccon
      split: if_splits sum.splits prod.splits)

lemma rtc_probe_control:
  assumes "rtc_hdr_ok h" and "rtc_probe h pf s = Inr (Inr n, s')"
  shows "bit (rtc_regs s' RTCCON) 0"
  using assms(2)
  by (auto simp: rtc_probe_def Let_def rtc_err_nomap_def rtc_err_nortc_def seq_eq_Inr
      rtc_routines_rtccon rtc_enable_on_bits [OF assms(1)] split: if_splits option.splits)

interpretation rtl: machine "lifecycle (rtc_driver config_pm h) (rtc_serve h) rtc_busy" "\<lambda>_. rtc_hdr_ok h"
    "rtc_controlled config_pm" for config_pm h
proof unfold_locales
  fix m e
  assume m: "rtc_controlled config_pm m" and h: "rtc_hdr_ok h"
  have on: "bit (rtc_regs (snd (rtc_resume h s)) RTCCON) 0" for s
    by (simp add: rtc_resume_def Let_def rtc_enable_on_bits [OF h])
  have off: "\<exists>s'. rtc_suspend h s = (Inr 0, s') \<and> \<not> bit (rtc_regs s' RTCCON) 0 \<and> \<not> bit (rtc_regs s' TICNT) 7" for s
    by (simp add: rtc_suspend_def Let_def rtc_enable_off_bits [OF h])
  show "rtc_controlled config_pm (lifecycle (rtc_driver config_pm h) (rtc_serve h) rtc_busy e m)"
  proof (cases m)
    case (Unbound s)
    then show ?thesis
      by (cases e) (auto simp: rtc_driver_def dest: rtc_probe_control [OF h] split: sum.split)
  next
    case (Bound s)
    obtain s1 where "rtc_suspend h s = (Inr 0, s1)" "\<not> bit (rtc_regs s1 RTCCON) 0" "\<not> bit (rtc_regs s1 TICNT) 7"
      using off by blast
    then show ?thesis
      using Bound m
      by (cases e) (auto simp: rtc_driver_def rtc_serve_rtccon split: sum.split simp del: rtc_serve.simps)
  next
    case (Asleep s)
    then show ?thesis using m on by (cases e) (simp_all add: rtc_driver_def)
  qed (use m in \<open>cases e; simp\<close>)+
qed

text \<open>C3 (invariant). Whatever the bus and the users of the clock do, in any order, nothing faults, no
  interrupt line is freed that is not held, and the accounts balance: a bound or sleeping driver
  holds the device, the mapping, the region and its descriptor, and both interrupt lines exactly
  while the device is open; after a removal or a failed probe it holds nothing but one descriptor
  for each probe that failed after the region was reserved.  The processor's access to the clock is
  on whenever the driver is bound, and off, with the tick interrupt, while the kernel has put the
  system to sleep.\<close>

theorem rtc_life_accounts:
  fixes es :: "(rtc_platform, rtc_call) lc_event list" and s :: rtc and config_pm :: bool
  assumes "rtc_hdr_ok h" and "\<not> rtc_busy s"
  defines "l \<equiv> losses (rtc_driver config_pm h) (rtc_serve h) rtc_busy rtc_leak es (Unbound s) + rtc_held s"
  shows "case rtc_life config_pm h es (Unbound s) of
      Unbound s' \<Rightarrow> rtc_held s' = l
    | Bound s' \<Rightarrow> rtc_held s' = rtc_own s' + l \<and> bit (rtc_regs s' RTCCON) 0
    | Asleep s' \<Rightarrow> rtc_held s' = rtc_own s' + l \<and>
        (config_pm \<longrightarrow> \<not> bit (rtc_regs s' RTCCON) 0 \<and> \<not> bit (rtc_regs s' TICNT) 7)
    | Down s' \<Rightarrow> rtc_held s' = rtc_own s' + l
    | Crashed f \<Rightarrow> False"
proof -
  have granted: "list_all (lc_granted (\<lambda>_. True)) es"
    by (simp add: list_all_iff)
  have "accounted rtc_held rtc_own (\<lambda>s. \<not> rtc_busy s) (\<lambda>_. True) (l, rtc_life config_pm h es (Unbound s))"
    unfolding l_def by (rule rtp.life_accounted [OF assms(2) granted])
  moreover have "rtc_controlled config_pm (rtc_life config_pm h es (Unbound s))"
    by (rule rtl.run_inv) (simp_all add: list_all_iff assms(1))
  ultimately show ?thesis
    by (cases "rtc_life config_pm h es (Unbound s)") auto
qed

theorem rtc_life_accounts_witness:
  "\<forall>f. rtc_life True s3c2440_rtc [Attach rtc_board, Attach (rtc_board\<lparr>rp_map := True\<rparr>), Use (Class_open None None),
      Sleep, Wake, Use Class_close, Detach] (Unbound rtc_start) \<noteq> Crashed f"
proof -
  define es where "es = [Attach rtc_board, Attach (rtc_board\<lparr>rp_map := True\<rparr>), Use (Class_open None None),
      Sleep, Wake, Use Class_close, Detach]"
  have "\<not> rtc_busy rtc_start" by (simp add: rtc_start_def)
  from rtc_life_accounts [OF s3c2440_rtc_ok this, of True es] show ?thesis
    unfolding es_def [symmetric] by (cases "rtc_life True s3c2440_rtc es (Unbound rtc_start)") simp_all
qed

text \<open>A probe that fails after the reservation leaves the driver unbound and one descriptor poorer; the
  kernel may try again.\<close>

lemma rtc_failed_attach:
  assumes "\<not> rtc_all_granted pf" and "\<not> rtc_busy s"
  shows "\<exists>s'. lifecycle (rtc_driver config_pm h) (rtc_serve h) rtc_busy (Attach pf) (Unbound s) = Unbound s' \<and>
    \<not> rtc_busy s' \<and> rtc_held s' = rtc_leak pf + rtc_held s"
  using rtc_probe_refused [OF assms, of h] by (auto simp: rtc_driver_def)

text \<open>C27 (error). Each probe that fails after the memory region was reserved, because the mapping or the
  registration with the RTC core is refused, leaks the descriptor of the region for good: after \<open>n\<close>
  attempts \<open>n\<close> descriptors are held that no event gives back.  Probes that fail earlier leak
  nothing, and a later probe that succeeds is undone by the removal without them.\<close>

theorem rtc_probes_leak:
  assumes "\<not> rtc_all_granted pf" and "\<not> rtc_busy s"
  shows "\<exists>s'. rtc_life config_pm h (replicate n (Attach pf)) (Unbound s) = Unbound s' \<and>
      rtc_held s' = replicate_mset (if 0 \<le> sint (rp_alarm pf) \<and> 0 \<le> sint (rp_tick pf) \<and> rp_mem pf \<and> rp_region pf
        then n else 0) Mem_desc + rtc_held s \<and>
      (rtc_all_granted pf' \<longrightarrow>
        (\<exists>s''. rtc_life config_pm h [Attach pf', Detach] (Unbound s') = Unbound s'' \<and> rtc_held s'' = rtc_held s'))"
proof -
  define c where "c = (0 \<le> sint (rp_alarm pf) \<and> 0 \<le> sint (rp_tick pf) \<and> rp_mem pf \<and> rp_region pf)"
  have leak: "rtc_leak pf = replicate_mset (if c then 1 else 0) Mem_desc"
    by (auto simp: rtc_leak_def c_def not_less)
  have "\<exists>s'. rtc_life config_pm h (replicate n (Attach pf)) (Unbound s) = Unbound s' \<and> \<not> rtc_busy s' \<and>
      rtc_held s' = replicate_mset (if c then n else 0) Mem_desc + rtc_held s"
    using assms(2)
  proof (induction n arbitrary: s)
    case (Suc n)
    obtain s1 where s1: "lifecycle (rtc_driver config_pm h) (rtc_serve h) rtc_busy (Attach pf) (Unbound s) = Unbound s1"
      "\<not> rtc_busy s1" "rtc_held s1 = rtc_leak pf + rtc_held s"
      using rtc_failed_attach [OF assms(1) Suc.prems] by blast
    show ?case using Suc.IH [OF s1(2)] s1(1,3) leak by (auto simp del: lifecycle.simps)
  qed simp
  then obtain s' where s': "rtc_life config_pm h (replicate n (Attach pf)) (Unbound s) = Unbound s'"
    "\<not> rtc_busy s'" "rtc_held s' = replicate_mset (if c then n else 0) Mem_desc + rtc_held s" by blast
  have "\<exists>s''. rtc_life config_pm h [Attach pf', Detach] (Unbound s') = Unbound s'' \<and> rtc_held s'' = rtc_held s'"
    if granted: "rtc_all_granted pf'"
  proof -
    obtain s1 where s1: "rtc_probe h pf' s' = Inr (Inr 0, s1)" "\<not> rtc_busy s1"
      "rtc_held s1 = rtc_own s1 + rtc_held s'"
      using rtc_probe_bound [OF granted s'(2), of h] by blast
    show ?thesis using rtc_remove_bound [OF s1(2,3), of h] s1 by (auto simp: rtc_driver_def)
  qed
  then show ?thesis using s' unfolding c_def by blast
qed

theorem rtc_probes_leak_witness:
  "\<exists>s'. rtc_life True s3c2440_rtc (replicate 3 (Attach rtc_board)) (Unbound rtc_start) = Unbound s' \<and>
     rtc_held s' = {#Mem_desc, Mem_desc, Mem_desc#}"
proof -
  have "\<not> rtc_all_granted rtc_board" "\<not> rtc_busy rtc_start"
    by (simp_all add: rtc_all_granted_def rtc_board_def rtc_start_def)
  from rtc_probes_leak [OF this, of True s3c2440_rtc 3] show ?thesis
    by (auto simp: rtc_board_def rtc_start_def numeral_3_eq_3)
qed

subsection \<open>Loading and unloading the module\<close>

text \<open>Further (roundtrip). Loading the driver always succeeds and binds the board's clock device exactly when
  the platform grants everything; unloading it again, with the clock not open, leaves the accounts
  as before but for the descriptor that a late failing probe leaks.\<close>

theorem rtc_module_load_unload:
  assumes "bus_served (rtc_serve h) rtc_busy reg unreg"
    and "bus_driver k = None" and "bus_device k = Some (''s3c2410-rtc'', pf)" and "bus_managed k = Unbound s"
    and "\<not> rtc_busy s"
  shows "\<exists>k1 s'. rtc_module_init reg config_pm h k = (Inr 0, k1) \<and>
     ((\<exists>s1. bus_managed k1 = Bound s1) \<longleftrightarrow> rtc_all_granted pf) \<and>
     bus_managed (rtc_module_exit unreg config_pm h k1) = Unbound s' \<and>
     rtc_held s' = (if rtc_all_granted pf then {#} else rtc_leak pf) + rtc_held s"
proof -
  define d where "d = rtc_driver config_pm h"
  have d: "drv_name d = ''s3c2410-rtc''" "probe d = rtc_probe h" by (simp_all add: d_def rtc_driver_def)
  note pr = rtc_probe_bound [OF _ assms(5), of pf h] rtc_probe_refused [OF _ assms(5), of pf h]
  have idle: "\<not> rtc_busy s'" if "probe d pf s = Inr (Inr n, s')" for n s'
    using that pr by (cases "rtc_all_granted pf") (auto simp: d)
  have bnd: "(\<exists>s1. bus_managed (snd (reg d k)) = Bound s1) \<longleftrightarrow> rtc_all_granted pf"
    using assms(1-4) pr by (cases "rtc_all_granted pf") (auto simp: bus_served_def d)
  have "lost d rtc_leak (Attach pf) (Unbound s) = (if rtc_all_granted pf then {#} else rtc_leak pf)"
    using pr by (cases "rtc_all_granted pf") (auto simp: d)
  moreover have "fst (reg d k) = Inr 0 \<and> (\<exists>s'. bus_managed (unreg d (snd (reg d k))) = Unbound s' \<and> \<not> rtc_busy s' \<and>
      rtc_held s' = (if ''s3c2410-rtc'' = drv_name d then lost d rtc_leak (Attach pf) (Unbound s) else {#}) + rtc_held s)"
    unfolding d_def by (rule rtp.load_unload [OF assms(1-5) TrueI]) (use idle in \<open>simp add: d_def\<close>)
  ultimately obtain s' where s': "fst (reg d k) = Inr 0" "bus_managed (unreg d (snd (reg d k))) = Unbound s'"
    "rtc_held s' = (if rtc_all_granted pf then {#} else rtc_leak pf) + rtc_held s"
    using d(1) by auto
  have "reg d k = (Inr 0, snd (reg d k))" by (rule prod_eqI) (simp_all add: s'(1))
  then show ?thesis
    using s'(2,3) bnd unfolding rtc_module_init_def rtc_module_exit_def d_def [symmetric] by metis
qed

theorem rtc_module_load_unload_witness:
  "\<exists>k1. rtc_module_init (bus_register (rtc_serve s3c2440_rtc) rtc_busy) True s3c2440_rtc
      \<lparr>bus_device = Some (''s3c2410-rtc'', rtc_board\<lparr>rp_map := True\<rparr>), bus_driver = None,
        bus_managed = Unbound rtc_start\<rparr> = (Inr 0, k1) \<and> (\<exists>s1. bus_managed k1 = Bound s1)"
proof -
  have "rtc_all_granted (rtc_board\<lparr>rp_map := True\<rparr>)" "\<not> rtc_busy rtc_start"
    by (simp_all add: rtc_all_granted_def rtc_board_def rtc_start_def)
  then show ?thesis
    using rtc_module_load_unload [OF bus_example_served, of "\<lparr>bus_device = Some (''s3c2410-rtc'',
        rtc_board\<lparr>rp_map := True\<rparr>), bus_driver = None, bus_managed = Unbound rtc_start\<rparr>" "rtc_board\<lparr>rp_map := True\<rparr>"
        rtc_start s3c2440_rtc True]
    by auto
qed

end
