(* ===== verification/Keys.thy ===== *)
theory Keys
  imports Kernel_Api
begin

text \<open>
  The button driver (\<open>key/driver/keys.c\<close>) and its client (\<open>key/app/unit-test.c\<close>).  Six buttons
  interrupt on both edges; the handler records each button as the character 0 or 1 and raises
  \<open>ev_press\<close>; a read waits for \<open>ev_press\<close>, clears it and copies the six characters.  Pin levels,
  signals and the interrupts that arrive while a read runs are arguments.  The step relation at
  the end interleaves the handler with a read that copies byte by byte.
\<close>

subsection \<open>State\<close>

record button_irq_desc =
  irq :: s32
  pin :: u32
  pin_setting :: u32
  number :: s32
  name :: string

text \<open>Board constants: interrupt numbers, pins and pin functions.\<close>

record keys_hdr =
  IRQ_EINT :: "nat \<Rightarrow> s32"
  S3C2410_GPG :: "nat \<Rightarrow> u32"
  S3C2410_GPG_EINT :: "nat \<Rightarrow> nat \<Rightarrow> u32"

definition button_irqs :: "keys_hdr \<Rightarrow> button_irq_desc list" where
  "button_irqs h =
     [\<lparr>irq = IRQ_EINT h 8, pin = S3C2410_GPG h 0, pin_setting = S3C2410_GPG_EINT h 0 8, number = 0, name = ''KEY0''\<rparr>,
      \<lparr>irq = IRQ_EINT h 11, pin = S3C2410_GPG h 3, pin_setting = S3C2410_GPG_EINT h 3 11, number = 1, name = ''KEY1''\<rparr>,
      \<lparr>irq = IRQ_EINT h 13, pin = S3C2410_GPG h 5, pin_setting = S3C2410_GPG_EINT h 5 13, number = 2, name = ''KEY2''\<rparr>,
      \<lparr>irq = IRQ_EINT h 14, pin = S3C2410_GPG h 6, pin_setting = S3C2410_GPG_EINT h 6 14, number = 3, name = ''KEY3''\<rparr>,
      \<lparr>irq = IRQ_EINT h 15, pin = S3C2410_GPG h 7, pin_setting = S3C2410_GPG_EINT h 7 15, number = 4, name = ''KEY4''\<rparr>,
      \<lparr>irq = IRQ_EINT h 19, pin = S3C2410_GPG h 11, pin_setting = S3C2410_GPG_EINT h 11 19, number = 5, name = ''KEY5''\<rparr>]"

text \<open>\<open>wakeups\<close> counts the calls of \<open>wake_up_interruptible\<close>; \<open>irq_depth\<close> how often a line was
  disabled since it was requested.\<close>

record keys =
  key_values :: "u8 list"
  ev_press :: s32
  wakeups :: nat
  keys_gpio :: gpio
  irq_depth :: "int \<Rightarrow> nat"
  keys_held :: ledger

definition key_values_init :: "u8 list" where
  "key_values_init = [48, 48, 48, 48, 48, 48]"

subsection \<open>The interrupt handler\<close>

text \<open>\<open>level\<close> is what \<open>s3c2410_gpio_getpin\<close> reads from the button's pin; 0 is a pressed button.\<close>

definition buttons_interrupt :: "button_irq_desc \<Rightarrow> u32 \<Rightarrow> keys \<Rightarrow> fault + keys" where
  "buttons_interrupt b level s =
     (let down = (if level = 0 then 1 else 0) :: s32 in
      seq (array_at (key_values s) (number b)) (\<lambda>v.
        if down \<noteq> ucast v AND 1
        then Inr (s\<lparr>key_values := (key_values s)[nat (sint (number b)) := ucast (48 + down)],
                    ev_press := 1, wakeups := wakeups s + 1\<rparr>)
        else Inr s))"

fun buttons_interrupts :: "(button_irq_desc \<times> u32) list \<Rightarrow> keys \<Rightarrow> fault + keys" where
  "buttons_interrupts [] s = Inr s"
| "buttons_interrupts ((b, level) # irqs) s =
     seq (buttons_interrupt b level s) (buttons_interrupts irqs)"

subsection \<open>Open and close\<close>

definition keys_request_irq :: "button_irq_desc \<Rightarrow> keys \<Rightarrow> keys" where
  "keys_request_irq b s =
     s\<lparr>keys_held := take_res (Irq_line (sint (irq b))) (keys_held s),
       irq_depth := (irq_depth s)(sint (irq b) := 0)\<rparr>"

definition keys_disable_irq :: "button_irq_desc \<Rightarrow> keys \<Rightarrow> keys" where
  "keys_disable_irq b s =
     s\<lparr>irq_depth := (irq_depth s)(sint (irq b) := irq_depth s (sint (irq b)) + 1)\<rparr>"

definition keys_free_irq :: "button_irq_desc \<Rightarrow> keys \<Rightarrow> fault + keys" where
  "keys_free_irq b s =
     seq (give_res (Irq_line (sint (irq b))) (keys_held s)) (\<lambda>l. Inr (s\<lparr>keys_held := l\<rparr>))"

text \<open>The request loop from index \<open>i\<close> on: where it stopped and whether a request failed; \<open>req\<close>
  gives what each \<open>request_irq\<close> returns.\<close>

fun buttons_request :: "(nat \<Rightarrow> outcome) \<Rightarrow> nat \<Rightarrow> button_irq_desc list \<Rightarrow> keys \<Rightarrow> nat \<times> bool \<times> keys" where
  "buttons_request req i [] s = (i, False, s)"
| "buttons_request req i (b # bs) s =
     (let s = s\<lparr>keys_gpio := s3c2410_gpio_cfgpin (pin b) (pin_setting b) (keys_gpio s)\<rparr> in
      if sint (irq b) < 0 then buttons_request req (Suc i) bs s
      else if failed (req i) then (i, True, s)
      else buttons_request req (Suc i) bs (keys_request_irq b s))"

text \<open>The loop back over the buttons below the failed one.\<close>

fun buttons_unwind :: "button_irq_desc list \<Rightarrow> keys \<Rightarrow> fault + keys" where
  "buttons_unwind [] s = Inr s"
| "buttons_unwind (b # bs) s =
     (if sint (irq b) < 0 then buttons_unwind bs s
      else seq (keys_free_irq b (keys_disable_irq b s)) (buttons_unwind bs))"

definition s3c24xx_buttons_open :: "keys_hdr \<Rightarrow> (nat \<Rightarrow> outcome) \<Rightarrow> keys \<Rightarrow> fault + int result \<times> keys" where
  "s3c24xx_buttons_open h req s =
     (let (i, err, s) = buttons_request req 0 (button_irqs h) s
      in if err then seq (buttons_unwind (rev (take i (button_irqs h))) s) (\<lambda>s. Inr (Inl EBUSY, s))
         else Inr (Inr 0, s))"

fun buttons_free :: "button_irq_desc list \<Rightarrow> keys \<Rightarrow> fault + keys" where
  "buttons_free [] s = Inr s"
| "buttons_free (b # bs) s =
     (if sint (irq b) < 0 then buttons_free bs s else seq (keys_free_irq b s) (buttons_free bs))"

definition s3c24xx_buttons_close :: "keys_hdr \<Rightarrow> keys \<Rightarrow> fault + int result \<times> keys" where
  "s3c24xx_buttons_close h s = seq (buttons_free (button_irqs h) s) (\<lambda>s. Inr (Inr 0, s))"

subsection \<open>Read and poll\<close>

text \<open>\<open>wait_event_interruptible\<close>: the interrupts that arrive during the wait, and whether a signal
  ends it.  Without either the reader never returns.\<close>

definition buttons_wait :: "(button_irq_desc \<times> u32) list \<Rightarrow> bool \<Rightarrow> keys \<Rightarrow> fault + keys" where
  "buttons_wait irqs sig s =
     seq (buttons_interrupts irqs s) (\<lambda>s. if ev_press s \<noteq> 0 \<or> sig then Inr s else Inl Blocked)"

definition buttons_clear :: "keys \<Rightarrow> keys" where
  "buttons_clear s = s\<lparr>ev_press := 0\<rparr>"

text \<open>The result of the wait is not looked at.  \<open>mid\<close> are the interrupts between the clearing of
  \<open>ev_press\<close> and the copy.\<close>

definition s3c24xx_buttons_read ::
    "uaccess \<Rightarrow> bool \<Rightarrow> (button_irq_desc \<times> u32) list \<Rightarrow> bool \<Rightarrow> (button_irq_desc \<times> u32) list \<Rightarrow> u32 \<Rightarrow> keys \<Rightarrow>
     fault + int result \<times> u8 list \<times> keys" where
  "s3c24xx_buttons_read ua nonblock irqs sig mid cnt s =
     (if ev_press s = 0 \<and> nonblock then Inr (Inl EAGAIN, [], s)
      else seq (if ev_press s = 0 then buttons_wait irqs sig s else Inr s) (\<lambda>s.
           let s = buttons_clear s in
           seq (buttons_interrupts mid s) (\<lambda>s.
           let n = min 6 cnt;
               (bs, err) = to_user ua (take (unat n) (key_values s))
           in Inr (if err \<noteq> 0 then Inl EFAULT else Inr (int (unat n)), bs, s))))"

text \<open>The mask a poll returns: empty, or both input flags.\<close>

datatype poll_flag = POLLIN | POLLRDNORM

definition s3c24xx_buttons_poll :: "keys \<Rightarrow> poll_flag list" where
  "s3c24xx_buttons_poll s = (if ev_press s \<noteq> 0 then [POLLIN, POLLRDNORM] else [])"

definition buttons_module_init :: "outcome \<Rightarrow> keys \<Rightarrow> int result \<times> keys" where
  "buttons_module_init ret s =
     (outcome_result ret, if failed ret then s else s\<lparr>keys_held := take_res Misc_dev (keys_held s)\<rparr>)"

definition buttons_module_exit :: "keys \<Rightarrow> fault + keys" where
  "buttons_module_exit s = seq (give_res Misc_dev (keys_held s)) (\<lambda>l. Inr (s\<lparr>keys_held := l\<rparr>))"

subsection \<open>The client\<close>

text \<open>One line of output: key number and whether it is down.\<close>

type_synonym key_line = "nat \<times> bool"

text \<open>One round of the comparison loop, from key \<open>i\<close> on.\<close>

fun keys_compare :: "nat \<Rightarrow> u8 list \<Rightarrow> u8 list \<Rightarrow> u8 list \<times> key_line list" where
  "keys_compare i (l # ls) (c # cs) =
     (let (ls', out) = keys_compare (Suc i) ls cs
      in if c \<noteq> l then (c # ls', (i + 1, c \<noteq> 48) # out) else (l # ls', out))"
| "keys_compare i ls cs = (ls, [])"

text \<open>The client's endless loop over the results its reads return; the exit code when it ends.\<close>

fun keys_main_loop :: "u8 list \<Rightarrow> (int result \<times> u8 list) list \<Rightarrow> key_line list \<times> nat option \<times> u8 list" where
  "keys_main_loop shown [] = ([], None, shown)"
| "keys_main_loop shown ((r, current) # reads) =
     (if r \<noteq> Inr 6 then ([], Some 2, shown)
      else let (shown, out) = keys_compare 0 shown current;
               (out', ex, shown) = keys_main_loop shown reads
           in (out @ out', ex, shown))"

definition keys_main :: "bool \<Rightarrow> (int result \<times> u8 list) list \<Rightarrow> key_line list \<times> nat option \<times> u8 list" where
  "keys_main opened reads =
     (if \<not> opened then ([], Some 1, key_values_init) else keys_main_loop key_values_init reads)"

subsection \<open>Interleaving the handler with a client that reads in a loop\<close>

datatype reader = Rd_idle | Rd_copy "u8 list"

text \<open>The device, the read in progress with the bytes it has copied, and the client's picture of
  the keys.\<close>

record keys_sys =
  sys_dev :: keys
  sys_rd :: reader
  sys_last :: "u8 list"

inductive keys_step :: "keys_hdr \<Rightarrow> keys_sys \<Rightarrow> keys_sys \<Rightarrow> bool" for h :: keys_hdr where
  key_irq: "b \<in> set (button_irqs h) \<Longrightarrow> buttons_interrupt b level (sys_dev s) = Inr d \<Longrightarrow>
     keys_step h s (s\<lparr>sys_dev := d\<rparr>)"
| read_begin: "sys_rd s = Rd_idle \<Longrightarrow> ev_press (sys_dev s) \<noteq> 0 \<or> interrupted \<Longrightarrow>
     keys_step h s (s\<lparr>sys_dev := buttons_clear (sys_dev s), sys_rd := Rd_copy []\<rparr>)"
| read_byte: "sys_rd s = Rd_copy bs \<Longrightarrow> length bs < 6 \<Longrightarrow>
     keys_step h s (s\<lparr>sys_rd := Rd_copy (bs @ [key_values (sys_dev s) ! length bs])\<rparr>)"
| read_end: "sys_rd s = Rd_copy bs \<Longrightarrow> length bs = 6 \<Longrightarrow>
     keys_step h s (s\<lparr>sys_rd := Rd_idle, sys_last := fst (keys_compare 0 (sys_last s) bs)\<rparr>)"

definition keys_loaded :: "keys_sys \<Rightarrow> bool" where
  "keys_loaded s \<longleftrightarrow> key_values (sys_dev s) = key_values_init \<and> ev_press (sys_dev s) = 0 \<and>
     sys_rd s = Rd_idle \<and> sys_last s = key_values_init"

inductive_cases keys_stepE: "keys_step h s t"

text \<open>Every value is the character 0 or 1, for all six keys.\<close>

definition key_values_ok :: "u8 list \<Rightarrow> bool" where
  "key_values_ok kv \<longleftrightarrow> length kv = 6 \<and> (\<forall>v \<in> set kv. v = 48 \<or> v = 49)"

text \<open>The client is up to date unless a read is due; a read in progress has copied current values
  unless another read is due.\<close>

definition keys_inv :: "keys_sys \<Rightarrow> bool" where
  "keys_inv s \<longleftrightarrow> key_values_ok (key_values (sys_dev s)) \<and> length (sys_last s) = 6 \<and>
     (case sys_rd s of
        Rd_idle \<Rightarrow> ev_press (sys_dev s) \<noteq> 0 \<or> sys_last s = key_values (sys_dev s)
      | Rd_copy bs \<Rightarrow> length bs \<le> 6 \<and>
          (ev_press (sys_dev s) \<noteq> 0 \<or> bs = take (length bs) (key_values (sys_dev s))))"

lemma keys_compare_current:
  "length ls = length cs \<Longrightarrow> fst (keys_compare i ls cs) = cs"
proof (induction ls arbitrary: cs i)
  case (Cons l ls)
  then obtain c cs' where "cs = c # cs'" "length ls = length cs'" by (cases cs) auto
  with Cons.IH [of cs' "Suc i"] show ?case by (simp add: Let_def case_prod_unfold)
qed simp

lemma length_key_values_init [simp]: "length key_values_init = 6"
  by (simp add: key_values_init_def)

lemma button_numbers:
  "b \<in> set (button_irqs h) \<Longrightarrow> 0 \<le> sint (number b) \<and> nat (sint (number b)) < 6"
  by (auto simp: button_irqs_def)

lemma buttons_interrupt_ok:
  assumes "b \<in> set (button_irqs h)" and "key_values_ok (key_values s)"
  obtains s' where "buttons_interrupt b level s = Inr s'" "key_values_ok (key_values s')"
    "key_values s' ! nat (sint (number b)) = (if level = 0 then 49 else 48)"
    "s' = s \<or> ev_press s' \<noteq> 0"
    "\<And>j. j < 6 \<Longrightarrow> j \<noteq> nat (sint (number b)) \<Longrightarrow> key_values s' ! j = key_values s ! j"
proof -
  define n where "n = nat (sint (number b))"
  have n: "n < 6" "0 \<le> sint (number b)" using button_numbers [OF assms(1)] by (simp_all add: n_def)
  have len: "length (key_values s) = 6" using assms(2) by (simp add: key_values_ok_def)
  have v: "key_values s ! n = 48 \<or> key_values s ! n = 49"
    using assms(2) n(1) len by (auto simp: key_values_ok_def)
  have get: "array_at (key_values s) (number b) = Inr (key_values s ! n)"
    using n len by (simp add: array_at_def n_def)
  define new :: u8 where "new = (if level = 0 then 49 else 48)"
  define s' where "s' = (if key_values s ! n = new then s
    else s\<lparr>key_values := (key_values s)[n := new], ev_press := 1, wakeups := wakeups s + 1\<rparr>)"
  have "buttons_interrupt b level s = Inr s'"
    using v by (auto simp: buttons_interrupt_def get s'_def new_def n_def [symmetric])
  moreover have "key_values_ok (key_values s')"
  proof -
    have "set ((key_values s)[n := new]) \<subseteq> insert new (set (key_values s))"
      by (rule set_update_subset_insert)
    then show ?thesis using assms(2) by (auto simp: key_values_ok_def s'_def new_def)
  qed
  moreover have "key_values s' ! n = new" using n(1) len by (simp add: s'_def)
  moreover have "s' = s \<or> ev_press s' \<noteq> 0" by (simp add: s'_def)
  moreover have "\<And>j. j < 6 \<Longrightarrow> j \<noteq> n \<Longrightarrow> key_values s' ! j = key_values s ! j" by (simp add: s'_def)
  ultimately show thesis using that [of s'] by (simp add: new_def n_def)
qed

lemma keys_inv_step: "keys_step h s t \<Longrightarrow> keys_inv s \<Longrightarrow> keys_inv t"
proof (induction rule: keys_step.induct)
  case (key_irq b level s d)
  then have ok: "key_values_ok (key_values (sys_dev s))" by (simp add: keys_inv_def)
  from buttons_interrupt_ok [OF key_irq(1) ok, of level] key_irq(2)
  have "key_values_ok (key_values d)" "d = sys_dev s \<or> ev_press d \<noteq> 0" by auto
  then show ?case using key_irq(3) by (auto simp: keys_inv_def split: reader.splits)
next
  case (read_begin s interrupted)
  then show ?case by (simp add: keys_inv_def buttons_clear_def)
next
  case (read_byte s bs)
  then have "length bs < length (key_values (sys_dev s))" by (simp add: keys_inv_def key_values_ok_def)
  with read_byte show ?case by (auto simp: keys_inv_def take_Suc_conv_app_nth)
next
  case (read_end s bs)
  then have "fst (keys_compare 0 (sys_last s) bs) = bs" by (simp add: keys_compare_current keys_inv_def)
  with read_end show ?case by (auto simp: keys_inv_def key_values_ok_def)
qed

interpretation keys_system: step_invariant keys_loaded "keys_step h" keys_inv for h
proof unfold_locales
  show "keys_inv s" if "keys_loaded s" for s
    using that by (simp add: keys_inv_def keys_loaded_def key_values_ok_def key_values_init_def)
qed (rule keys_inv_step)

text \<open>C11 (invariant). No key event is lost: in every reachable state of the driver, its interrupts
  and a client that reads in a loop, the six values are characters 0 or 1, and whenever no read is
  in progress and a poll reports nothing to read, the client's picture of all six keys is the
  device's.\<close>

theorem keys_no_lost_event:
  assumes "reachable keys_loaded (keys_step h) s"
  shows "key_values_ok (key_values (sys_dev s)) \<and>
    (sys_rd s = Rd_idle \<and> s3c24xx_buttons_poll (sys_dev s) = [] \<longrightarrow>
       sys_last s = key_values (sys_dev s))"
  using keys_system.inv_reachable [OF assms]
  by (auto simp: keys_inv_def s3c24xx_buttons_poll_def split: if_splits)

definition mini2440_keys :: keys_hdr where
  "mini2440_keys = \<lparr>IRQ_EINT = (\<lambda>n. of_nat (44 + n)), S3C2410_GPG = (\<lambda>n. 192 + of_nat n),
     S3C2410_GPG_EINT = (\<lambda>_ _. 2)\<rparr>"

definition keys_start :: keys where
  "keys_start = \<lparr>key_values = key_values_init, ev_press = 0, wakeups = 0,
     keys_gpio = \<lparr>pin_cfg = (\<lambda>_. 0), pin_out = (\<lambda>_. 0)\<rparr>, irq_depth = (\<lambda>_. 0), keys_held = {#}\<rparr>"

theorem keys_no_lost_event_witness:
  "\<exists>s. reachable keys_loaded (keys_step mini2440_keys) s \<and> ev_press (sys_dev s) = 1 \<and>
     key_values_ok (key_values (sys_dev s))"
proof -
  let ?s = "\<lparr>sys_dev = keys_start, sys_rd = Rd_idle, sys_last = key_values_init\<rparr> :: keys_sys"
  let ?b = "button_irqs mini2440_keys ! 0"
  have b: "?b \<in> set (button_irqs mini2440_keys)" by (simp add: button_irqs_def)
  have "\<exists>d. buttons_interrupt ?b 0 keys_start = Inr d \<and> ev_press d = 1"
    by (simp add: buttons_interrupt_def keys_start_def key_values_init_def button_irqs_def
        array_at_def mini2440_keys_def)
  then obtain d where d: "buttons_interrupt ?b 0 (sys_dev ?s) = Inr d" "ev_press d = 1" by auto
  have "reachable keys_loaded (keys_step mini2440_keys) ?s"
    by (rule reach_init) (simp add: keys_loaded_def keys_start_def)
  then have r: "reachable keys_loaded (keys_step mini2440_keys) (?s\<lparr>sys_dev := d\<rparr>)"
    by (rule reach_step) (rule key_irq [OF b d(1)])
  with keys_no_lost_event [OF r] d(2) show ?thesis by (intro exI [of _ "?s\<lparr>sys_dev := d\<rparr>"]) simp
qed

subsection \<open>Interrupt lines over open and close\<close>

definition button_lines :: "button_irq_desc list \<Rightarrow> ledger" where
  "button_lines bs = mset (map (\<lambda>b. Irq_line (sint (irq b))) (filter (\<lambda>b. 0 \<le> sint (irq b)) bs))"

lemma button_lines_simps [simp]:
  "button_lines [] = {#}"
  "button_lines (b # bs) =
     (if 0 \<le> sint (irq b) then add_mset (Irq_line (sint (irq b))) (button_lines bs) else button_lines bs)"
  "button_lines (rev bs) = button_lines bs"
  by (simp_all add: button_lines_def rev_filter [symmetric] rev_map [symmetric])

lemma buttons_request_held:
  assumes "buttons_request req i bs s = (j, err, s')"
  shows "i \<le> j \<and> j \<le> i + length bs \<and> keys_held s' = button_lines (take (j - i) bs) + keys_held s \<and>
    (\<not> err \<longrightarrow> j = i + length bs) \<and>
    (err \<longleftrightarrow> (\<exists>k < length bs. 0 \<le> sint (irq (bs ! k)) \<and> failed (req (i + k))))"
  using assms
proof (induction req i bs s arbitrary: j err s' rule: buttons_request.induct)
  case (2 req i b bs s)
  let ?s = "s\<lparr>keys_gpio := s3c2410_gpio_cfgpin (pin b) (pin_setting b) (keys_gpio s)\<rparr>"
  show ?case
  proof (cases "0 \<le> sint (irq b) \<and> failed (req i)")
    case True
    then show ?thesis using 2(3) by (auto simp: Let_def intro!: exI [of _ 0])
  next
    case False
    define t where "t = (if sint (irq b) < 0 then ?s else keys_request_irq b ?s)"
    have run: "buttons_request req (Suc i) bs t = (j, err, s')"
      using 2(3) False by (auto simp: Let_def t_def split: if_splits)
    then have IH: "Suc i \<le> j" "j \<le> Suc i + length bs"
      "keys_held s' = button_lines (take (j - Suc i) bs) + keys_held t"
      "\<not> err \<longrightarrow> j = Suc i + length bs"
      "err \<longleftrightarrow> (\<exists>k < length bs. 0 \<le> sint (irq (bs ! k)) \<and> failed (req (Suc i + k)))"
      using 2(1) [OF refl] 2(2) [OF refl] False by (auto simp: t_def split: if_splits)
    have take: "take (j - i) (b # bs) = b # take (j - Suc i) bs"
      using IH(1) by (simp add: Suc_diff_Suc [symmetric] Suc_le_eq)
    have held: "keys_held t = (if sint (irq b) < 0 then keys_held s
        else add_mset (Irq_line (sint (irq b))) (keys_held s))"
      by (simp add: t_def keys_request_irq_def take_res_def)
    have len: "length (b # bs) = Suc (length bs)" by simp
    have ex: "(\<exists>k < length (b # bs). 0 \<le> sint (irq ((b # bs) ! k)) \<and> failed (req (i + k))) \<longleftrightarrow>
        (\<exists>k < length bs. 0 \<le> sint (irq (bs ! k)) \<and> failed (req (Suc i + k)))"
      unfolding len Ex_less_Suc2 using False by auto
    show ?thesis unfolding take ex using IH held by auto
  qed
qed auto

lemma buttons_unwind_held:
  "keys_held s = button_lines bs + H \<Longrightarrow> \<exists>s'. buttons_unwind bs s = Inr s' \<and> keys_held s' = H"
  by (induction bs arbitrary: s) (simp_all add: keys_free_irq_def keys_disable_irq_def res_simps)

lemma buttons_free_held:
  "keys_held s = button_lines bs + H \<Longrightarrow> \<exists>s'. buttons_free bs s = Inr s' \<and> keys_held s' = H"
  by (induction bs arbitrary: s) (simp_all add: keys_free_irq_def res_simps)

text \<open>C39 (error). Opening requests the line of every button that has one.  It returns 0 and holds
  them all exactly when every request succeeds, and closing then gives them all back; if one fails,
  the lines requested before it are freed, the result is \<open>EBUSY\<close> and nothing is held.\<close>

theorem keys_open_all_or_nothing:
  "\<exists>s'. (if \<exists>k < 6. 0 \<le> sint (irq (button_irqs h ! k)) \<and> failed (req k)
     then s3c24xx_buttons_open h req s = Inr (Inl EBUSY, s') \<and> keys_held s' = keys_held s
     else s3c24xx_buttons_open h req s = Inr (Inr 0, s') \<and>
       keys_held s' = button_lines (button_irqs h) + keys_held s \<and>
       (\<exists>s''. s3c24xx_buttons_close h s' = Inr (Inr 0, s'') \<and> keys_held s'' = keys_held s))"
proof -
  obtain j err t where run: "buttons_request req 0 (button_irqs h) s = (j, err, t)"
    using prod_cases3 by blast
  have len: "length (button_irqs h) = 6" by (simp add: button_irqs_def)
  note r = buttons_request_held [OF run, unfolded len]
  show ?thesis
  proof (cases err)
    case True
    have "keys_held t = button_lines (rev (take j (button_irqs h))) + keys_held s" using r by simp
    from buttons_unwind_held [OF this] show ?thesis
      using True r by (auto simp: s3c24xx_buttons_open_def run)
  next
    case False
    then have "keys_held t = button_lines (button_irqs h) + keys_held s" using r len by simp
    from buttons_free_held [OF this] this show ?thesis
      using False r by (auto simp: s3c24xx_buttons_open_def s3c24xx_buttons_close_def run)
  qed
qed

theorem keys_open_all_or_nothing_witness:
  "\<exists>s'. s3c24xx_buttons_open mini2440_keys (\<lambda>k. if k = 3 then Some EBUSY else None) keys_start =
     Inr (Inl EBUSY, s') \<and> keys_held s' = {#}"
proof -
  have "\<exists>k < 6. 0 \<le> sint (irq (button_irqs mini2440_keys ! k)) \<and>
      failed (if k = 3 then Some EBUSY else None)"
    by (rule exI [of _ 3]) (simp add: button_irqs_def mini2440_keys_def)
  then show ?thesis
    using keys_open_all_or_nothing [of mini2440_keys "\<lambda>k. if k = 3 then Some EBUSY else None" keys_start]
    by (auto simp: keys_start_def)
qed

subsection \<open>What a read returns\<close>

lemma buttons_interrupts_ok:
  "\<forall>(b, l) \<in> set irqs. b \<in> set (button_irqs h) \<Longrightarrow> key_values_ok (key_values s) \<Longrightarrow>
     \<exists>s'. buttons_interrupts irqs s = Inr s' \<and> key_values_ok (key_values s')"
proof (induction irqs s rule: buttons_interrupts.induct)
  case (2 b level irqs s)
  then have "b \<in> set (button_irqs h)" by simp
  from buttons_interrupt_ok [OF this 2(3), of level] obtain t where
    t: "buttons_interrupt b level s = Inr t" "key_values_ok (key_values t)" by blast
  from 2(1) [OF _ t(2)] 2(2) t show ?case by simp
qed simp

text \<open>Further (error). A blocking read that a signal interrupts while no event is pending does not
  report the interruption: it goes on to return the six values as they are, like a read that had
  an event.  A non-blocking read without an event is answered \<open>EAGAIN\<close> with nothing copied.\<close>

theorem keys_read_ignores_signal:
  assumes "ev_press s = 0" and "length (key_values s) = 6"
  shows "s3c24xx_buttons_read uaccess_mapped False [] True [] 6 s = Inr (Inr 6, key_values s, s) \<and>
     s3c24xx_buttons_read uaccess_mapped True irqs sig mid 6 s = Inr (Inl EAGAIN, [], s) \<and>
     s3c24xx_buttons_read uaccess_mapped False [] False [] 6 s = Inl Blocked"
  using assms
  by (simp add: s3c24xx_buttons_read_def buttons_wait_def buttons_clear_def uaccess_mapped_def)

theorem keys_read_ignores_signal_witness:
  "s3c24xx_buttons_read uaccess_mapped False [] True [] 6 keys_start =
     Inr (Inr 6, key_values_init, keys_start)"
  using keys_read_ignores_signal [of keys_start] by (simp add: keys_start_def)

end
