(* ===== verification/Adc.thy ===== *)
theory Adc
  imports Kernel_Api
begin

text \<open>
  The analogue-digital converter (\<open>adc/driver/adc.c\<close>) and its client (\<open>adc/app/adc-unit-test.c\<close>).
  A read takes \<open>ADC_LOCK\<close> if it is free, starts a conversion on the opened channel, waits for the
  interrupt, and hands the value over as a decimal line.  The interrupts that arrive while the
  process owns the converter (each with the data register it finds), and whether a signal ends the
  wait, are arguments.
\<close>

subsection \<open>State\<close>

datatype adc_reg = ADCCON | ADCTSC | ADCDLY | ADCDAT0 | ADCDAT1 | ADCUPDN

record adc =
  base_addr :: bool        \<comment> \<open>mapped\<close>
  adc_clock :: bool        \<comment> \<open>not \<open>NULL\<close>\<close>
  OwnADC :: s32
  ADC_LOCK :: nat
  adcdev_channel :: s32
  adcdev_prescale :: s32
  ev_adc :: s32
  adc_data :: s32
  adc_regs :: "adc_reg \<Rightarrow> u32"
  adc_held :: ledger

definition PRESCALE_EN :: u32 where "PRESCALE_EN = push_bit 14 1"
definition PRSCVL :: "u32 \<Rightarrow> u32" where "PRSCVL x = push_bit 6 x"
definition ADC_INPUT :: "u32 \<Rightarrow> u32" where "ADC_INPUT x = push_bit 3 x"
definition ADC_START :: u32 where "ADC_START = push_bit 0 1"

definition START_ADC_AIN :: "u32 \<Rightarrow> u32 \<Rightarrow> adc \<Rightarrow> adc" where
  "START_ADC_AIN ch prescale s =
     (let s = s\<lparr>adc_regs := writel (PRESCALE_EN OR PRSCVL prescale OR ADC_INPUT ch) ADCCON (adc_regs s)\<rparr>
      in s\<lparr>adc_regs := writel (readl (adc_regs s) ADCCON OR ADC_START) ADCCON (adc_regs s)\<rparr>)"

subsection \<open>Interrupt, read, open\<close>

definition adcdone_int_handler :: "adc \<Rightarrow> adc" where
  "adcdone_int_handler s =
     (if OwnADC s \<noteq> 0
      then s\<lparr>adc_data := readl (adc_regs s) ADCDAT0 AND 0x3ff, ev_adc := 1\<rparr>
      else s)"

text \<open>An interrupt of the shared line; the converter has put \<open>dat\<close> in its data register.\<close>

definition adc_irq :: "u32 \<Rightarrow> adc \<Rightarrow> adc" where
  "adc_irq dat s = adcdone_int_handler (s\<lparr>adc_regs := writel dat ADCDAT0 (adc_regs s)\<rparr>)"

definition adc_wait :: "u32 list \<Rightarrow> bool \<Rightarrow> adc \<Rightarrow> fault + adc" where
  "adc_wait irqs sig s =
     (let s = fold adc_irq irqs s in if ev_adc s \<noteq> 0 \<or> sig then Inr s else Inl Blocked)"

text \<open>\<open>sprintf\<close>, as bytes.\<close>

fun dec_digits :: "nat \<Rightarrow> u8 list" where
  "dec_digits n = (if n < 10 then [48 + of_nat n] else dec_digits (n div 10) @ [48 + of_nat (n mod 10)])"

declare dec_digits.simps [simp del]

definition sprintf_d :: "int \<Rightarrow> u8 list" where
  "sprintf_d v = (if v < 0 then 45 # dec_digits (nat (- v)) else dec_digits (nat v)) @ [10]"

text \<open>The interrupts that arrive, in order, up to the end of the wait, between it and the clearing of the
  event, between that and the reading of the value, and from there until the converter is given up.
  The line is shared, so that there may be any number of them.\<close>

record adc_arrivals =
  in_wait :: "u32 list"
  woken :: "u32 list"
  cleared :: "u32 list"
  taken :: "u32 list"

definition arriving :: "u32 list \<Rightarrow> adc_arrivals" where
  "arriving irqs = \<lparr>in_wait = irqs, woken = [], cleared = [], taken = []\<rparr>"

definition adc_take_value :: "adc_arrivals \<Rightarrow> bool \<Rightarrow> adc \<Rightarrow> fault + s32 \<times> adc" where
  "adc_take_value irqs sig s =
     (let (busy, l) = down_trylock (ADC_LOCK s); s = s\<lparr>ADC_LOCK := l\<rparr> in
      if busy = 0 then
        let s = s\<lparr>OwnADC := 1\<rparr>;
            s = START_ADC_AIN (adcdev_channel s) (adcdev_prescale s) s
        in seq (adc_wait (in_wait irqs) sig s) (\<lambda>s.
             let s = fold adc_irq (woken irqs) s;
                 s = s\<lparr>ev_adc := 0\<rparr>;
                 s = fold adc_irq (cleared irqs) s;
                 value = adc_data s;
                 s = fold adc_irq (taken irqs) s;
                 s = s\<lparr>OwnADC := 0\<rparr>
             in Inr (value, s\<lparr>ADC_LOCK := sem_up (ADC_LOCK s)\<rparr>))
      else Inr (- 1, s))"

definition adc_read ::
    "uaccess \<Rightarrow> adc_arrivals \<Rightarrow> bool \<Rightarrow> u32 \<Rightarrow> adc \<Rightarrow> fault + int result \<times> u8 list \<times> adc" where
  "adc_read ua irqs sig cnt s =
     seq (adc_take_value irqs sig s) (\<lambda>(value, s).
       let str = sprintf_d (sint value); len = length str in
       if len \<le> unat cnt
       then let (bs, r) = to_user ua str
            in Inr (Inr (if r \<noteq> 0 then int r else int len), bs, s)
       else Inr (Inl EINVAL, [], s))"

definition adc_open :: "adc \<Rightarrow> int result \<times> adc" where
  "adc_open s = (Inr 0, s\<lparr>adcdev_channel := 0, adcdev_prescale := 0xff\<rparr>)"

definition adc_release :: "adc \<Rightarrow> int result \<times> adc" where
  "adc_release s = (Inr 0, s)"

subsection \<open>Load and unload\<close>

text \<open>\<open>mapped\<close>, \<open>clk\<close> (not null), \<open>irq\<close> and \<open>reg\<close> are the outcomes of \<open>ioremap\<close>, \<open>clk_get\<close>,
  \<open>request_irq\<close> and \<open>misc_register\<close>; \<open>IRQ_ADC\<close> is the board's interrupt number.\<close>

definition adc_hold :: "resource \<Rightarrow> adc \<Rightarrow> adc" where
  "adc_hold r s = s\<lparr>adc_held := take_res r (adc_held s)\<rparr>"

definition adc_drop :: "resource list \<Rightarrow> adc \<Rightarrow> fault + adc" where
  "adc_drop rs s = seq (give_all rs (adc_held s)) (\<lambda>l. Inr (s\<lparr>adc_held := l\<rparr>))"

definition adc_module_init ::
    "int \<Rightarrow> bool \<Rightarrow> bool \<Rightarrow> outcome \<Rightarrow> outcome \<Rightarrow> adc \<Rightarrow> fault + int result \<times> adc" where
  "adc_module_init IRQ_ADC mapped clk irq reg s =
     (let s = s\<lparr>base_addr := mapped\<rparr> in
      if \<not> mapped then Inr (Inl ENOMEM, s) else
      let s = adc_hold Io_map s;
          s = s\<lparr>adc_clock := clk\<rparr> in
      if \<not> clk then Inr (Inl ENOENT, s) else
      let s = adc_hold Clk_on (adc_hold Clk_ref s);
          s = s\<lparr>adc_regs := writel 0 ADCTSC (adc_regs s)\<rparr> in
      (case irq of
         Some e \<Rightarrow> seq (adc_drop [Io_map] s) (\<lambda>s. Inr (Inl e, s))
       | None \<Rightarrow>
           let s = adc_hold (Irq_line IRQ_ADC) s in
           Inr (outcome_result reg, if failed reg then s else adc_hold Misc_dev s)))"

definition adc_module_exit :: "int \<Rightarrow> adc \<Rightarrow> fault + adc" where
  "adc_module_exit IRQ_ADC s =
     seq (adc_drop [Irq_line IRQ_ADC, Io_map] s) (\<lambda>s.
     seq (if adc_clock s
          then seq (adc_drop [Clk_on, Clk_ref] s) (\<lambda>s. Inr (s\<lparr>adc_clock := False\<rparr>))
          else Inr s) (adc_drop [Misc_dev]))"

subsection \<open>The client\<close>

text \<open>One round of the client on its ten-byte buffer: what it prints, if anything.\<close>

definition adc_show :: "u8 list \<Rightarrow> int result \<times> u8 list \<Rightarrow> fault + u8 list \<times> u8 list option" where
  "adc_show buff rd =
     (let buff = overwrite buff 0 (snd rd) in
      case fst rd of
        Inr ret \<Rightarrow>
          if ret > 0 then seq (array_set buff (nat ret) 0) (\<lambda>buff. Inr (buff, Some (takeWhile (\<lambda>c. c \<noteq> 0) buff)))
          else Inr (buff, None)
      | Inl _ \<Rightarrow> Inr (buff, None))"

fun adc_main_loop :: "nat \<Rightarrow> u8 list \<Rightarrow> (int result \<times> u8 list) list \<Rightarrow> fault + (nat \<times> u8 list) list" where
  "adc_main_loop n buff [] = Inr []"
| "adc_main_loop n buff (rd # rds) =
     seq (adc_show buff rd) (\<lambda>(buff, line).
       case line of
         None \<Rightarrow> adc_main_loop n buff rds
       | Some l \<Rightarrow> seq (adc_main_loop (n + 1) buff rds) (\<lambda>ls. Inr ((n + 1, l) # ls)))"

subsection \<open>Decimal text\<close>

text \<open>The number a string of decimal digits stands for.\<close>

definition dec_value :: "u8 list \<Rightarrow> nat" where
  "dec_value cs = foldl (\<lambda>acc c. acc * 10 + unat (c - 48)) 0 cs"

lemma dec_value_digits [simp]: "dec_value (dec_digits n) = n"
proof (induction n rule: dec_digits.induct)
  case (1 n)
  have d: "unat (48 + of_nat (m mod 10) - 48 :: u8) = m mod 10" for m
    by (simp add: unat_of_nat take_bit_eq_mod)
  show ?case
  proof (cases "n < 10")
    case True
    then show ?thesis using d [of n] by (subst dec_digits.simps) (simp add: dec_value_def)
  next
    case False
    then show ?thesis using 1 d [of n] by (subst dec_digits.simps) (simp add: dec_value_def)
  qed
qed

lemma length_dec_digits: "n < 10 ^ Suc k \<Longrightarrow> length (dec_digits n) \<le> Suc k"
proof (induction k arbitrary: n)
  case 0
  then show ?case by (subst dec_digits.simps) simp
next
  case (Suc k)
  then have "n div 10 < 10 ^ Suc k" by (simp add: less_mult_imp_div_less mult.commute)
  with Suc.IH [of "n div 10"] show ?case by (subst dec_digits.simps) simp
qed

lemma dec_digits_nonempty [simp]: "dec_digits n \<noteq> []"
  by (subst dec_digits.simps) simp

lemma dec_digits_nonzero: "c \<in> set (dec_digits n) \<Longrightarrow> c \<noteq> 0"
proof (induction n rule: dec_digits.induct)
  case (1 n)
  have d: "48 + of_nat m \<noteq> (0 :: u8)" if "m < 10" for m
  proof
    assume "48 + of_nat m = (0 :: u8)"
    moreover have "unat (of_nat (48 + m) :: u8) = 48 + m"
      using that by (simp add: unat_of_nat take_bit_eq_mod del: of_nat_add of_nat_numeral)
    ultimately show False by simp
  qed
  show ?case
    using 1(2) 1(1) d [of n] d [of "n mod 10"]
    by (subst (asm) dec_digits.simps) (auto split: if_splits)
qed

text \<open>The 20-byte array \<open>str\<close> holds any number with its terminator.\<close>

lemma length_sprintf_d: "length (sprintf_d (sint (v :: s32))) < 20"
proof -
  have "sint v < 2 ^ 31" "- (2 ^ 31) \<le> sint v" using sint_lt [of v] sint_ge [of v] by simp_all
  then have "nat (sint v) < 10 ^ Suc 10" "nat (- sint v) < 10 ^ Suc 10" by auto
  from this [THEN length_dec_digits] show ?thesis by (simp add: sprintf_d_def)
qed

lemma sprintf_d_small:
  assumes "unat (v :: s32) < 1024"
  shows "sprintf_d (sint v) = dec_digits (unat v) @ [10]" "length (sprintf_d (sint v)) \<le> 5"
proof -
  have "sint v = int (unat v)" using sint_of_nat_s32 [of "unat v"] assms by simp
  then show eq: "sprintf_d (sint v) = dec_digits (unat v) @ [10]" by (simp add: sprintf_d_def)
  have "length (dec_digits (unat v)) \<le> Suc 3" by (rule length_dec_digits) (use assms in simp)
  then show "length (sprintf_d (sint v)) \<le> 5" by (simp add: eq)
qed

subsection \<open>The converter\<close>

lemma START_ADC_AIN_fields [simp]:
  "ADC_LOCK (START_ADC_AIN c p s) = ADC_LOCK s" "OwnADC (START_ADC_AIN c p s) = OwnADC s"
  "ev_adc (START_ADC_AIN c p s) = ev_adc s" "adc_data (START_ADC_AIN c p s) = adc_data s"
  by (simp_all add: START_ADC_AIN_def Let_def)

lemma START_ADC_AIN_con:
  "readl (adc_regs (START_ADC_AIN c p s)) ADCCON = PRESCALE_EN OR PRSCVL p OR ADC_INPUT c OR ADC_START"
  by (simp add: START_ADC_AIN_def Let_def readl_def writel_def or.assoc)

lemma adc_irq_not_own: "OwnADC s = 0 \<Longrightarrow> adc_irq dat s = s\<lparr>adc_regs := writel dat ADCDAT0 (adc_regs s)\<rparr>"
  by (simp add: adc_irq_def adcdone_int_handler_def)

lemma adc_irqs_own:
  assumes "OwnADC s = 1"
  shows "OwnADC (fold adc_irq irqs s) = 1 \<and> ADC_LOCK (fold adc_irq irqs s) = ADC_LOCK s \<and>
    readl (adc_regs (fold adc_irq irqs s)) ADCCON = readl (adc_regs s) ADCCON \<and>
    ev_adc (fold adc_irq irqs s) = (if irqs = [] then ev_adc s else 1) \<and>
    adc_data (fold adc_irq irqs s) = last (adc_data s # map (\<lambda>dat. dat AND 0x3ff) irqs)"
  by (induction irqs rule: rev_induct)
    (use assms in \<open>auto simp: adc_irq_def adcdone_int_handler_def readl_def writel_def\<close>)

lemma adc_data_bound: "unat (x AND 0x3ff :: u32) < 1024"
proof -
  have "(0x3ff :: u32) = mask 10" by (simp add: mask_eq_exp_minus_1)
  then have "unat (x AND 0x3ff) = unat x mod 2 ^ 10"
    by (metis take_bit_eq_mask take_bit_eq_mod unsigned_take_bit_eq)
  then show ?thesis by simp
qed

text \<open>The state between reads: lock free, converter not owned, value of ten bits; and, if no event is
  left over, idle.\<close>

definition adc_balanced :: "adc \<Rightarrow> bool" where
  "adc_balanced s \<longleftrightarrow> ADC_LOCK s = 1 \<and> OwnADC s = 0 \<and> unat (adc_data s) < 1024"

definition adc_quiet :: "adc \<Rightarrow> bool" where
  "adc_quiet s \<longleftrightarrow> adc_balanced s \<and> ev_adc s = 0"

text \<open>The value a read takes: what the last interrupt before it found.\<close>

definition adc_found :: "adc_arrivals \<Rightarrow> adc \<Rightarrow> s32" where
  "adc_found irqs s = last (adc_data s # map (\<lambda>dat. dat AND 0x3ff) (in_wait irqs @ woken irqs @ cleared irqs))"

lemma last_last: "last (last (x # xs) # ys) = last (x # xs @ ys)"
  by auto

lemma adc_found_small: "unat (adc_data s) < 1024 \<Longrightarrow> unat (last (adc_data s # map (\<lambda>dat. dat AND 0x3ff) ds)) < 1024"
  using adc_data_bound by (cases ds rule: rev_cases) auto

lemma adc_take_value_balanced:
  assumes "adc_balanced s"
  shows "adc_take_value irqs sig s = Inl Blocked \<and> ev_adc s = 0 \<and> in_wait irqs = [] \<and> \<not> sig \<or>
    (\<exists>s'. adc_take_value irqs sig s = Inr (adc_found irqs s, s') \<and>
       (ev_adc s \<noteq> 0 \<or> in_wait irqs \<noteq> [] \<or> sig) \<and> adc_balanced s' \<and> unat (adc_found irqs s) < 1024 \<and>
       (ev_adc s' = 0 \<longleftrightarrow> cleared irqs = [] \<and> taken irqs = []) \<and>
       readl (adc_regs s') ADCCON = PRESCALE_EN OR PRSCVL (adcdev_prescale s) OR
          ADC_INPUT (adcdev_channel s) OR ADC_START)"
proof -
  define s1 where "s1 = START_ADC_AIN (adcdev_channel s) (adcdev_prescale s)
    (s\<lparr>ADC_LOCK := 0, OwnADC := 1\<rparr>)"
  have s1: "OwnADC s1 = 1" "ADC_LOCK s1 = 0" "ev_adc s1 = ev_adc s" "adc_data s1 = adc_data s"
    by (simp_all add: s1_def)
  have con: "readl (adc_regs s1) ADCCON = PRESCALE_EN OR PRSCVL (adcdev_prescale s) OR
      ADC_INPUT (adcdev_channel s) OR ADC_START"
    unfolding s1_def START_ADC_AIN_con by simp
  define s2 where "s2 = (fold adc_irq (woken irqs) (fold adc_irq (in_wait irqs) s1))\<lparr>ev_adc := 0\<rparr>"
  define s3 where "s3 = fold adc_irq (cleared irqs) s2"
  define s4 where "s4 = fold adc_irq (taken irqs) s3"
  note r1 = adc_irqs_own [of s1 "in_wait irqs"]
  note r2 = adc_irqs_own [of "fold adc_irq (in_wait irqs) s1" "woken irqs"]
  note r3 = adc_irqs_own [of s2 "cleared irqs", folded s3_def]
  note r4 = adc_irqs_own [of s3 "taken irqs", folded s4_def]
  have own: "OwnADC s2 = 1" "OwnADC s3 = 1" "OwnADC s4 = 1" "ADC_LOCK s4 = 0"
    "readl (adc_regs s4) ADCCON = readl (adc_regs s1) ADCCON"
    using r1 r2 r3 r4 s1 by (simp_all add: s2_def)
  have data3: "adc_data s3 = adc_found irqs s"
    using r1 r2 r3 own s1 by (simp add: s2_def adc_found_def last_last)
  then have "adc_data s4 = last (adc_data s # map (\<lambda>dat. dat AND 0x3ff)
      (in_wait irqs @ woken irqs @ cleared irqs @ taken irqs))"
    using r4 own by (simp add: adc_found_def last_last)
  moreover have "unat (adc_data s) < 1024" using assms by (simp add: adc_balanced_def)
  note adc_found_small [OF this]
  ultimately have small: "unat (adc_data s4) < 1024" "unat (adc_found irqs s) < 1024"
    unfolding adc_found_def by metis+
  have ev: "ev_adc s4 = 0 \<longleftrightarrow> cleared irqs = [] \<and> taken irqs = []"
    using r3 r4 own by (simp add: s2_def)
  have eq: "adc_take_value irqs sig s = seq (adc_wait (in_wait irqs) sig s1) (\<lambda>t.
      Inr (adc_found irqs s, s4\<lparr>OwnADC := 0, ADC_LOCK := sem_up (ADC_LOCK s4)\<rparr>))"
    using assms
    by (simp add: adc_take_value_def adc_balanced_def down_trylock_def s1_def [symmetric] adc_wait_def Let_def
        s2_def [symmetric] s3_def [symmetric] s4_def [symmetric] data3)
  have waited: "adc_wait (in_wait irqs) sig s1 =
      (if ev_adc s \<noteq> 0 \<or> in_wait irqs \<noteq> [] \<or> sig then Inr (fold adc_irq (in_wait irqs) s1) else Inl Blocked)"
    using r1 s1 by (simp add: adc_wait_def Let_def)
  show ?thesis
    unfolding eq waited using own small ev con by (simp add: adc_balanced_def sem_up_def)
qed

text \<open>What the driver and its environment do between reads and in them: a read that returns (with
  any buffer and any interrupts), an interrupt of the shared line, an open, a release.\<close>

inductive adc_step :: "adc \<Rightarrow> adc \<Rightarrow> bool" where
  step_read: "adc_read ua irqs sig cnt s = Inr (r, bs, s') \<Longrightarrow> adc_step s s'"
| step_irq: "adc_step s (adc_irq dat s)"
| step_open: "adc_step s (snd (adc_open s))"
| step_release: "adc_step s (snd (adc_release s))"

lemma adc_read_state:
  "adc_read ua irqs sig cnt s = Inr (r, bs, s') \<Longrightarrow> \<exists>v. adc_take_value irqs sig s = Inr (v, s')"
  by (auto simp: adc_read_def Let_def seq_eq_Inr case_prod_unfold split: if_splits)

lemma adc_read_blocks: "adc_read ua irqs sig cnt s = Inl f \<longleftrightarrow> adc_take_value irqs sig s = Inl f"
  by (auto simp: adc_read_def Let_def seq_eq_Inl case_prod_unfold split: if_splits)

lemma adc_read_balanced:
  assumes "adc_balanced s" and "adc_read ua irqs sig cnt s = Inr (r, bs, s')"
  shows "adc_balanced s' \<and> (ev_adc s' = 0 \<longleftrightarrow> cleared irqs = [] \<and> taken irqs = [])"
  using adc_take_value_balanced [OF assms(1), of irqs sig] adc_read_state [OF assms(2)] by auto

interpretation adcs: step_invariant adc_balanced adc_step adc_balanced
proof unfold_locales
  fix s t assume "adc_balanced s" "adc_step s t"
  from this(2,1) show "adc_balanced t"
    by (induction rule: adc_step.induct)
      (blast dest: adc_read_balanced,
       auto simp: adc_irq_not_own adc_open_def adc_release_def adc_balanced_def)
qed

lemma adc_read_returns:
  "adc_take_value irqs sig s = Inr (v, t) \<Longrightarrow> \<exists>r bs. adc_read ua irqs sig cnt s = Inr (r, bs, t)"
  by (cases "to_user ua (sprintf_d (sint v))") (simp add: adc_read_def Let_def)

definition adc_start :: adc where
  "adc_start = \<lparr>base_addr = True, adc_clock = True, OwnADC = 0, ADC_LOCK = 1, adcdev_channel = 0,
     adcdev_prescale = 0xff, ev_adc = 0, adc_data = 0, adc_regs = (\<lambda>_. 0), adc_held = {#}\<rparr>"

text \<open>C21 (functional). A read of an idle converter, with a buffer of at least five bytes, starts a
  conversion on the opened channel and returns the decimal text of the low ten bits that the last
  interrupt before the value is taken found, with a newline; the digits stand for exactly that
  value.  The lock is free again, no event is left over unless one more interrupt arrives after the
  event was cleared, and the client's round on the result prints that line.\<close>

theorem adc_read_returns_conversion:
  assumes "adc_quiet s" and "in_wait irqs \<noteq> []" and "5 \<le> unat cnt" and "length buff = 10"
  shows "\<exists>s' ds. adc_read uaccess_mapped irqs sig cnt s = Inr (Inr (int (length ds) + 1), ds @ [10], s') \<and>
     dec_value ds = unat (last (in_wait irqs @ woken irqs @ cleared irqs) AND 0x3ff) \<and> dec_value ds < 1024 \<and>
     readl (adc_regs s') ADCCON = PRESCALE_EN OR PRSCVL (adcdev_prescale s) OR
        ADC_INPUT (adcdev_channel s) OR ADC_START \<and>
     adc_balanced s' \<and> (cleared irqs = [] \<and> taken irqs = [] \<longrightarrow> adc_quiet s') \<and>
     (\<exists>buff'. adc_show buff (Inr (int (length ds) + 1), ds @ [10]) = Inr (buff', Some (ds @ [10])))"
proof -
  have "adc_balanced s" using assms(1) by (simp add: adc_quiet_def)
  moreover have found: "adc_found irqs s = last (in_wait irqs @ woken irqs @ cleared irqs) AND 0x3ff"
    unfolding adc_found_def using assms(2) by (subst last_ConsR) (simp_all add: last_map del: map_append)
  ultimately obtain v s' where t: "adc_take_value irqs sig s = Inr (v, s')" "adc_balanced s'" "unat v < 1024"
    "v = last (in_wait irqs @ woken irqs @ cleared irqs) AND 0x3ff"
    "ev_adc s' = 0 \<longleftrightarrow> cleared irqs = [] \<and> taken irqs = []"
    "readl (adc_regs s') ADCCON = PRESCALE_EN OR PRSCVL (adcdev_prescale s) OR
       ADC_INPUT (adcdev_channel s) OR ADC_START"
    using adc_take_value_balanced [of s irqs sig] assms(2) by auto
  define ds where "ds = dec_digits (unat v)"
  note str = sprintf_d_small [OF t(3), folded ds_def]
  have len: "length ds \<le> 4" using str by simp
  have "adc_read uaccess_mapped irqs sig cnt s = Inr (Inr (int (length ds) + 1), ds @ [10], s')"
    using str(2) assms(3) by (simp add: adc_read_def t(1) str(1) uaccess_mapped_def)
  moreover have "adc_show buff (Inr (int (length ds) + 1), ds @ [10]) =
      Inr ((ds @ [10]) @ 0 # drop (length ds + 2) buff, Some (ds @ [10]))"
  proof -
    have nz: "\<forall>c \<in> set (ds @ [10]). c \<noteq> 0" using dec_digits_nonzero by (auto simp: ds_def)
    have "(overwrite buff 0 (ds @ [10]))[length ds + 1 := 0] = (ds @ [10]) @ 0 # drop (length ds + 2) buff"
      using len assms(4) by (simp add: overwrite_def list_update_append upd_conv_take_nth_drop)
    moreover have "takeWhile (\<lambda>c. c \<noteq> 0) ((ds @ [10]) @ 0 # drop (length ds + 2) buff) = ds @ [10]"
      using nz by (subst takeWhile_append2) auto
    ultimately show ?thesis
      using len assms(4) by (simp add: adc_show_def Let_def nat_add_distrib)
  qed
  ultimately show ?thesis using t by (intro exI [of _ s'] exI [of _ ds]) (simp add: ds_def adc_quiet_def)
qed

theorem adc_read_returns_conversion_witness:
  "\<exists>s' ds. adc_read uaccess_mapped (arriving [0xffff1234]) False 10 adc_start = Inr (Inr (int (length ds) + 1), ds @ [10], s') \<and>
     dec_value ds = 564"
proof -
  have q: "adc_quiet adc_start" by (simp add: adc_quiet_def adc_balanced_def adc_start_def)
  from adc_read_returns_conversion [OF q, of "arriving [0xffff1234]" 10 "replicate 10 0" False]
  show ?thesis by (auto simp: arriving_def)
qed

text \<open>C22 (invariant). After any sequence of reads (whoever makes them, however they end),
  interrupts, opens and releases, the lock is free, the converter is not owned, and the stored value
  has ten bits.  From such a state a read waits exactly if no event is left over and neither an
  interrupt nor a signal comes; it leaves an event over, by which the next read will not wait,
  exactly if an interrupt arrives after it has cleared the event and before it gives the converter
  up, as the one of its own conversion does when a signal has ended the wait too early.  A read of ten
  bytes returns between 1 and 5, and so the client's termination of its ten-byte buffer stays
  inside it, even when the copy fails.\<close>

theorem adc_reads_balanced:
  assumes "reachable adc_balanced adc_step s"
  shows "ADC_LOCK s = 1 \<and> OwnADC s = 0 \<and> unat (adc_data s) < 1024 \<and>
    (\<forall>ua irqs sig cnt. adc_read ua irqs sig cnt s = Inl Blocked \<longleftrightarrow> ev_adc s = 0 \<and> in_wait irqs = [] \<and> \<not> sig) \<and>
    (\<forall>ua irqs sig cnt r bs s'. adc_read ua irqs sig cnt s = Inr (r, bs, s') \<longrightarrow>
       (ev_adc s' = 0 \<longleftrightarrow> cleared irqs = [] \<and> taken irqs = [])) \<and>
    (\<forall>ua irqs sig r bs s' buff. uaccess_ok ua \<and> adc_read ua irqs sig 10 s = Inr (r, bs, s') \<and>
       length buff = 10 \<longrightarrow>
       (\<exists>n. r = Inr n \<and> 1 \<le> n \<and> n \<le> 5) \<and>
       (\<exists>buff' line. adc_show buff (r, bs) = Inr (buff', Some line) \<and> length buff' = 10))"
proof -
  have q: "adc_balanced s" using adcs.inv_reachable [OF assms] .
  have blocks: "adc_read ua irqs sig cnt s = Inl Blocked \<longleftrightarrow> ev_adc s = 0 \<and> in_wait irqs = [] \<and> \<not> sig"
    for ua irqs sig cnt
    using adc_take_value_balanced [OF q, of irqs sig] by (auto simp: adc_read_blocks)
  have client: "(\<exists>n. r = Inr n \<and> 1 \<le> n \<and> n \<le> 5) \<and>
       (\<exists>buff' line. adc_show buff (r, bs) = Inr (buff', Some line) \<and> length buff' = 10)"
    if a: "uaccess_ok ua \<and> adc_read ua irqs sig 10 s = Inr (r, bs, s') \<and> length buff = 10"
    for ua irqs sig r bs s' and buff :: "u8 list"
  proof -
    from adc_take_value_balanced [OF q, of irqs sig] a obtain v where
      v: "adc_take_value irqs sig s = Inr (v, s')" "unat v < 1024"
      using adc_read_state by fastforce
    note str = sprintf_d_small [OF v(2)]
    have ne: "1 \<le> length (sprintf_d (sint v))" by (simp add: str(1))
    have r: "r = Inr (if snd (to_user ua (sprintf_d (sint v))) \<noteq> 0
        then int (snd (to_user ua (sprintf_d (sint v)))) else int (length (sprintf_d (sint v))))"
      "bs = fst (to_user ua (sprintf_d (sint v)))"
      using a v str(2) by (auto simp: adc_read_def Let_def case_prod_unfold split: if_splits)
    have bnd: "snd (to_user ua (sprintf_d (sint v))) \<le> 5" "length bs \<le> 5"
      using uaccess_to_bounds [of ua "sprintf_d (sint v)"] a str(2) r(2) by simp_all
    obtain n where n: "r = Inr n" "1 \<le> n" "n \<le> 5"
      using r(1) bnd(1) ne str(2) by (cases "snd (to_user ua (sprintf_d (sint v))) = 0") auto
    then have "\<exists>buff' line. adc_show buff (r, bs) = Inr (buff', Some line) \<and> length buff' = 10"
      using bnd(2) a by (simp add: adc_show_def Let_def)
    with n show ?thesis by blast
  qed
  show ?thesis
    using q blocks client adc_read_balanced [OF q] unfolding adc_balanced_def by blast
qed

text \<open>A signal ends the wait, and the conversion ends before the converter is given up.\<close>

theorem adc_reads_balanced_witness:
  "\<exists>r bs s'. adc_read uaccess_unmapped \<lparr>in_wait = [], woken = [], cleared = [7], taken = []\<rparr> True 10
      (adc_irq 99 adc_start) = Inr (r, bs, s') \<and> ev_adc s' \<noteq> 0 \<and> (\<exists>n. r = Inr n \<and> 1 \<le> n \<and> n \<le> 5)"
proof -
  let ?i = "\<lparr>in_wait = [], woken = [], cleared = [7], taken = []\<rparr> :: adc_arrivals"
  have "adc_balanced adc_start" by (simp add: adc_balanced_def adc_start_def)
  then have "reachable adc_balanced adc_step (adc_irq 99 adc_start)"
    by (blast intro: reach_init reach_step step_irq)
  note inv = adc_reads_balanced [OF this]
  from inv have "adc_balanced (adc_irq 99 adc_start)" by (simp add: adc_balanced_def)
  from adc_take_value_balanced [OF this, of ?i True]
  obtain r bs s' where r: "adc_read uaccess_unmapped ?i True 10 (adc_irq 99 adc_start) = Inr (r, bs, s')"
    by (auto dest: adc_read_returns [where ua = uaccess_unmapped and cnt = 10])
  have buff: "length (replicate 10 0 :: u8 list) = 10" by simp
  have "ev_adc s' = 0 \<longleftrightarrow> cleared ?i = [] \<and> taken ?i = []" using inv r by blast
  moreover have "\<exists>n. r = Inr n \<and> 1 \<le> n \<and> n \<le> 5" using inv r buff uaccess_unmapped_ok by blast
  ultimately show ?thesis using r by simp
qed

subsection \<open>Load and unload\<close>

text \<open>Further (error). A load that fails keeps what it had taken: without the clock the mapping stays,
  without the interrupt line the enabled clock stays (the mapping is undone), and without the device
  node everything stays, interrupt line included.  A load that succeeds is undone in full by the
  unload.\<close>

theorem adc_load_leaks:
  "\<exists>r s'. adc_module_init line mapped clk irq reg s = Inr (r, s') \<and>
     (\<not> mapped \<longrightarrow> r = Inl ENOMEM \<and> adc_held s' = adc_held s) \<and>
     (mapped \<and> \<not> clk \<longrightarrow> r = Inl ENOENT \<and> adc_held s' = {#Io_map#} + adc_held s) \<and>
     (\<forall>e. mapped \<and> clk \<and> irq = Some e \<longrightarrow> r = Inl e \<and> adc_held s' = {#Clk_on, Clk_ref#} + adc_held s) \<and>
     (\<forall>e. mapped \<and> clk \<and> irq = None \<and> reg = Some e \<longrightarrow> r = Inl e \<and>
        adc_held s' = {#Irq_line line, Clk_on, Clk_ref, Io_map#} + adc_held s) \<and>
     (mapped \<and> clk \<and> irq = None \<and> reg = None \<longrightarrow> r = Inr 0 \<and>
        (\<exists>s''. adc_module_exit line s' = Inr s'' \<and> adc_held s'' = adc_held s))"
  by (cases mapped; cases clk; cases irq; cases reg)
    (simp_all add: adc_module_init_def adc_module_exit_def Let_def adc_hold_def adc_drop_def
      take_res_def res_simps)

theorem adc_load_leaks_witness:
  "\<exists>s'. adc_module_init 31 True True (Some EBUSY) None adc_start = Inr (Inl EBUSY, s') \<and>
     adc_held s' = {#Clk_on, Clk_ref#}"
  using adc_load_leaks [of 31 True True "Some EBUSY" None adc_start] by (auto simp: adc_start_def)

end
