(* ===== verification/Adc_Readers.thy ===== *)
theory Adc_Readers
  imports Adc
begin

text \<open>
  Several processes reading the converter at once (\<open>adc/driver/adc.c\<close>).  Here \<open>adc_read\<close> is taken
  apart into its statements, and any process, the end of a conversion and a signal may come between
  any two of them.  Conversions are the hardware's: setting the start bit starts one, and when it
  ends its value is in the data register and the interrupt is raised, once.
\<close>

subsection \<open>Statement by statement\<close>

text \<open>Where a process stands: outside, or after the statement of \<open>adc_read\<close> that names the point.\<close>

datatype adc_pc =
    Outside
  | Locked          \<comment> \<open>\<open>down_trylock\<close> succeeded\<close>
  | Owning          \<comment> \<open>\<open>OwnADC = 1\<close>\<close>
  | Waiting         \<comment> \<open>\<open>START_ADC_AIN\<close>\<close>
  | Awake           \<comment> \<open>\<open>wait_event_interruptible\<close> has returned\<close>
  | Cleared         \<comment> \<open>\<open>ev_adc = 0\<close>\<close>
  | Taken s32       \<comment> \<open>\<open>value = adc_data\<close>\<close>
  | Disowned s32    \<comment> \<open>\<open>OwnADC = 0\<close>\<close>
  | Ready s32       \<comment> \<open>\<open>up\<close>, or the lock was busy\<close>

text \<open>\<open>converting\<close> and \<open>answer\<close> belong to the hardware: whether a conversion is under way, and what the
  last one started has given, if it has ended.  \<open>samples\<close> records each value a process takes, with
  that answer.\<close>

record adc_readers =
  shared :: adc
  pcs :: "nat \<Rightarrow> adc_pc"
  converting :: bool
  answer :: "s32 option"
  samples :: "(nat \<times> s32 \<times> s32 option) list"

definition goto :: "nat \<Rightarrow> adc_pc \<Rightarrow> adc_readers \<Rightarrow> adc_readers" where
  "goto p c s = s\<lparr>pcs := (pcs s)(p := c)\<rparr>"

fun adc_statement :: "nat \<Rightarrow> adc_pc \<Rightarrow> adc_readers \<Rightarrow> adc_readers" where
  "adc_statement p Outside s =
     (let (busy, l) = down_trylock (ADC_LOCK (shared s)); s = s\<lparr>shared := (shared s)\<lparr>ADC_LOCK := l\<rparr>\<rparr>
      in goto p (if busy = 0 then Locked else Ready (- 1)) s)"
| "adc_statement p Locked s = goto p Owning (s\<lparr>shared := (shared s)\<lparr>OwnADC := 1\<rparr>\<rparr>)"
| "adc_statement p Owning s =
     goto p Waiting
       (s\<lparr>shared := START_ADC_AIN (adcdev_channel (shared s)) (adcdev_prescale (shared s)) (shared s),
          converting := True, answer := None\<rparr>)"
| "adc_statement p Waiting s = (if ev_adc (shared s) \<noteq> 0 then goto p Awake s else s)"
| "adc_statement p Awake s = goto p Cleared (s\<lparr>shared := (shared s)\<lparr>ev_adc := 0\<rparr>\<rparr>)"
| "adc_statement p Cleared s =
     goto p (Taken (adc_data (shared s))) (s\<lparr>samples := samples s @ [(p, adc_data (shared s), answer s)]\<rparr>)"
| "adc_statement p (Taken v) s = goto p (Disowned v) (s\<lparr>shared := (shared s)\<lparr>OwnADC := 0\<rparr>\<rparr>)"
| "adc_statement p (Disowned v) s =
     goto p (Ready v) (s\<lparr>shared := (shared s)\<lparr>ADC_LOCK := sem_up (ADC_LOCK (shared s))\<rparr>\<rparr>)"
| "adc_statement p (Ready v) s = goto p Outside s"

datatype adc_event =
    Run nat          \<comment> \<open>the next statement of a process\<close>
  | Conversion u32   \<comment> \<open>the conversion ends with this in the data register\<close>
  | Signal nat       \<comment> \<open>a signal for a waiting process\<close>

fun adc_concurrent :: "adc_event \<Rightarrow> adc_readers \<Rightarrow> adc_readers" where
  "adc_concurrent (Run p) s = adc_statement p (pcs s p) s"
| "adc_concurrent (Conversion dat) s =
     (if converting s
      then s\<lparr>shared := adc_irq dat (shared s), converting := False, answer := Some (dat AND 0x3ff)\<rparr> else s)"
| "adc_concurrent (Signal p) s = (if pcs s p = Waiting then goto p Awake s else s)"

subsection \<open>Run alone, the statements are the read\<close>

lemma adc_irq_owned:
  "OwnADC s \<noteq> 0 \<Longrightarrow> ev_adc (adc_irq dat s) = 1 \<and> adc_data (adc_irq dat s) = dat AND 0x3ff \<and>
     ADC_LOCK (adc_irq dat s) = ADC_LOCK s \<and> OwnADC (adc_irq dat s) = OwnADC s"
  by (simp add: adc_irq_def adcdone_int_handler_def readl_def writel_def)

text \<open>With the lock free and nobody else about, the statements of one read, with the conversion ending
  while the process waits, do to the device what \<open>adc_take_value\<close> does, and take the value it gives.\<close>

lemma adc_alone_refines:
  assumes "ADC_LOCK (shared s) = Suc n" and "pcs s p = Outside" and "ev_adc (shared s) = 0"
  shows "\<exists>v d. adc_take_value (arriving [dat]) False (shared s) = Inr (v, d) \<and>
    fold adc_concurrent (replicate 3 (Run p) @ [Conversion dat] @ replicate 6 (Run p)) s =
      s\<lparr>shared := d, pcs := (pcs s)(p := Outside), converting := False, answer := Some (dat AND 0x3ff),
        samples := samples s @ [(p, v, Some v)]\<rparr>"
proof -
  define d0 where "d0 = START_ADC_AIN (adcdev_channel (shared s)) (adcdev_prescale (shared s))
    ((shared s)\<lparr>ADC_LOCK := n, OwnADC := 1\<rparr>)"
  note i = adc_irq_owned [of d0 dat]
  have o: "OwnADC d0 \<noteq> 0" "ADC_LOCK d0 = n" "ev_adc d0 = 0" by (simp_all add: d0_def assms(3))
  have t: "adc_take_value (arriving [dat]) False (shared s) = Inr (dat AND 0x3ff,
      (adc_irq dat d0)\<lparr>ev_adc := 0, OwnADC := 0, ADC_LOCK := sem_up n\<rparr>)"
    using assms(1) i o
    by (simp add: adc_take_value_def arriving_def down_trylock_def adc_wait_def Let_def d0_def)
  show ?thesis
    unfolding t using assms i o
    by (simp add: numeral_eq_Suc goto_def down_trylock_def d0_def)
qed

subsection \<open>No signals: every process gets its own conversion\<close>

fun has_lock :: "adc_pc \<Rightarrow> bool" where
  "has_lock Outside \<longleftrightarrow> False"
| "has_lock (Ready v) \<longleftrightarrow> False"
| "has_lock c \<longleftrightarrow> True"

text \<open>What holds of the device while its holder stands at a point.\<close>

fun holder_ok :: "adc_pc \<Rightarrow> adc \<Rightarrow> bool \<Rightarrow> s32 option \<Rightarrow> bool" where
  "holder_ok Locked d conv ans \<longleftrightarrow> OwnADC d = 0 \<and> \<not> conv \<and> ev_adc d = 0"
| "holder_ok Owning d conv ans \<longleftrightarrow> OwnADC d \<noteq> 0 \<and> \<not> conv \<and> ev_adc d = 0"
| "holder_ok Waiting d conv ans \<longleftrightarrow> OwnADC d \<noteq> 0 \<and>
     (if conv then ev_adc d = 0 else ev_adc d \<noteq> 0 \<and> ans = Some (adc_data d))"
| "holder_ok Awake d conv ans \<longleftrightarrow> OwnADC d \<noteq> 0 \<and> \<not> conv \<and> ans = Some (adc_data d)"
| "holder_ok Cleared d conv ans \<longleftrightarrow> OwnADC d \<noteq> 0 \<and> \<not> conv \<and> ev_adc d = 0 \<and> ans = Some (adc_data d)"
| "holder_ok (Taken v) d conv ans \<longleftrightarrow> OwnADC d \<noteq> 0 \<and> \<not> conv \<and> ev_adc d = 0"
| "holder_ok (Disowned v) d conv ans \<longleftrightarrow> OwnADC d = 0 \<and> \<not> conv \<and> ev_adc d = 0"
| "holder_ok c d conv ans \<longleftrightarrow> False"

lemma holder_ok_lock [simp]: "holder_ok c (d\<lparr>ADC_LOCK := l\<rparr>) conv ans = holder_ok c d conv ans"
  by (cases c) simp_all

definition readers_free :: "adc_readers \<Rightarrow> bool" where
  "readers_free s \<longleftrightarrow> (\<forall>p. \<not> has_lock (pcs s p)) \<and> ADC_LOCK (shared s) = 1 \<and> OwnADC (shared s) = 0 \<and>
     \<not> converting s \<and> ev_adc (shared s) = 0"

definition readers_held :: "nat \<Rightarrow> adc_readers \<Rightarrow> bool" where
  "readers_held p s \<longleftrightarrow> (\<forall>q. has_lock (pcs s q) \<longleftrightarrow> q = p) \<and> ADC_LOCK (shared s) = 0 \<and>
     holder_ok (pcs s p) (shared s) (converting s) (answer s)"

definition samples_fresh :: "adc_readers \<Rightarrow> bool" where
  "samples_fresh s \<longleftrightarrow> list_all (\<lambda>(p, v, a). a = Some v) (samples s)"

definition readers_ok :: "adc_readers \<Rightarrow> bool" where
  "readers_ok s \<longleftrightarrow> (readers_free s \<or> (\<exists>p. readers_held p s)) \<and> samples_fresh s"

lemma goto_fields [simp]:
  "shared (goto p c s) = shared s" "pcs (goto p c s) = (pcs s)(p := c)"
  "converting (goto p c s) = converting s" "answer (goto p c s) = answer s" "samples (goto p c s) = samples s"
  by (simp_all add: goto_def)

lemma statement_free:
  assumes "readers_free s" and "samples_fresh s"
  shows "readers_ok (adc_statement p (pcs s p) s)"
proof (cases "pcs s p")
  case Outside
  have "readers_held p (adc_statement p (pcs s p) s)"
    using assms Outside by (simp add: readers_held_def readers_free_def down_trylock_def)
  then show ?thesis using assms(2) Outside by (auto simp: readers_ok_def samples_fresh_def Let_def down_trylock_def)
next
  case (Ready v)
  then show ?thesis using assms by (simp add: readers_ok_def readers_free_def samples_fresh_def)
qed (use assms in \<open>metis readers_free_def has_lock.simps\<close>)+

text \<open>A process that finds the lock taken leaves the holder alone.\<close>

lemma statement_other:
  assumes "readers_held q s" and "samples_fresh s" and "p \<noteq> q"
  shows "readers_held q (adc_statement p (pcs s p) s) \<and> samples_fresh (adc_statement p (pcs s p) s)"
proof -
  have "\<not> has_lock (pcs s p)" using assms(1,3) by (simp add: readers_held_def)
  then show ?thesis
    using assms by (cases "pcs s p") (simp_all add: readers_held_def samples_fresh_def down_trylock_def)
qed

lemma statement_holder:
  assumes "readers_held p s" and "samples_fresh s"
  shows "readers_ok (adc_statement p (pcs s p) s)"
proof -
  define t where "t = adc_statement p (pcs s p) s"
  have h: "\<forall>q. has_lock (pcs s q) \<longleftrightarrow> q = p" "ADC_LOCK (shared s) = 0"
    "holder_ok (pcs s p) (shared s) (converting s) (answer s)"
    using assms(1) by (simp_all add: readers_held_def)
  have "samples_fresh t"
    using h(3) assms(2) by (cases "pcs s p") (simp_all add: t_def samples_fresh_def)
  moreover have "readers_held p t \<or> readers_free t"
    using h by (cases "pcs s p") (auto simp: t_def readers_held_def readers_free_def sem_up_def)
  ultimately show ?thesis by (auto simp: readers_ok_def t_def)
qed

lemma conversion_ok:
  assumes "readers_ok s"
  shows "readers_ok (adc_concurrent (Conversion dat) s)"
proof (cases "converting s")
  case True
  then obtain p where p: "readers_held p s" and fr: "samples_fresh s"
    using assms by (auto simp: readers_ok_def readers_free_def)
  then have w: "pcs s p = Waiting" "OwnADC (shared s) \<noteq> 0"
    using True by (cases "pcs s p"; simp add: readers_held_def)+
  have "readers_held p (adc_concurrent (Conversion dat) s)"
    using p w True adc_irq_owned [OF w(2), of dat] by (simp add: readers_held_def)
  then show ?thesis using fr True by (auto simp: readers_ok_def samples_fresh_def)
qed (use assms in simp)

fun no_signal :: "adc_event \<Rightarrow> bool" where
  "no_signal (Signal p) \<longleftrightarrow> False"
| "no_signal e \<longleftrightarrow> True"

interpretation adcm: machine adc_concurrent no_signal readers_ok
proof unfold_locales
  fix s e
  assume ok: "readers_ok s" and e: "no_signal e"
  show "readers_ok (adc_concurrent e s)"
  proof (cases e)
    case (Run p)
    show ?thesis
    proof (cases "readers_free s")
      case True
      then show ?thesis using ok statement_free [of s p] Run by (simp add: readers_ok_def)
    next
      case False
      then obtain q where q: "readers_held q s" "samples_fresh s" using ok by (auto simp: readers_ok_def)
      show ?thesis
        using q statement_holder [of p s] statement_other [OF q, of p] Run
        by (cases "p = q") (auto simp: readers_ok_def)
    qed
  qed (use ok e conversion_ok in auto)
qed

text \<open>How many events the holder still needs.\<close>

fun holder_left :: "adc_pc \<Rightarrow> bool \<Rightarrow> nat" where
  "holder_left Locked conv = 8"
| "holder_left Owning conv = 7"
| "holder_left Waiting conv = (if conv then 6 else 5)"
| "holder_left Awake conv = 4"
| "holder_left Cleared conv = 3"
| "holder_left (Taken v) conv = 2"
| "holder_left c conv = 1"

lemma holder_moves:
  assumes "readers_held p s"
  shows "\<exists>e. no_signal e \<and> (readers_free (adc_concurrent e s) \<or>
    readers_held p (adc_concurrent e s) \<and>
    holder_left (pcs (adc_concurrent e s) p) (converting (adc_concurrent e s)) < holder_left (pcs s p) (converting s))"
proof -
  have h: "\<forall>q. has_lock (pcs s q) \<longleftrightarrow> q = p" "ADC_LOCK (shared s) = 0"
    "holder_ok (pcs s p) (shared s) (converting s) (answer s)"
    using assms by (simp_all add: readers_held_def)
  show ?thesis
  proof (cases "pcs s p = Waiting \<and> converting s")
    case True
    then have o: "OwnADC (shared s) \<noteq> 0" using h(3) by simp
    show ?thesis
      using True h adc_irq_owned [OF o, of 0] by (intro exI [of _ "Conversion 0"]) (simp add: readers_held_def)
  next
    case False
    then show ?thesis
      using h by (intro exI [of _ "Run p"], cases "pcs s p")
        (auto simp: readers_held_def readers_free_def sem_up_def)
  qed
qed

lemma holder_releases:
  "readers_held p s \<Longrightarrow> \<exists>es. list_all no_signal es \<and> readers_free (fold adc_concurrent es s)"
proof (induction "holder_left (pcs s p) (converting s)" arbitrary: s rule: less_induct)
  case less
  obtain e where e: "no_signal e" "readers_free (adc_concurrent e s) \<or>
      readers_held p (adc_concurrent e s) \<and>
      holder_left (pcs (adc_concurrent e s) p) (converting (adc_concurrent e s)) < holder_left (pcs s p) (converting s)"
    using holder_moves [OF less.prems] by blast
  show ?case
  proof (cases "readers_free (adc_concurrent e s)")
    case True
    then show ?thesis using e(1) by (intro exI [of _ "[e]"]) simp
  next
    case False
    then obtain es where "list_all no_signal es" "readers_free (fold adc_concurrent es (adc_concurrent e s))"
      using e(2) less.hyps by blast
    then show ?thesis using e(1) by (intro exI [of _ "e # es"]) simp
  qed
qed

text \<open>C10 (safety). Any number of processes may read the converter at once, their statements and the ends of
  the conversions interleaved in any order: while no signal interrupts a wait, at most one of them
  is between taking and giving back the lock, each value taken is the value of the conversion that
  very read has started, and from every state the processes can go on until the lock is free.\<close>

theorem adc_readers_get_own:
  assumes "readers_free s" and "samples s = []" and "list_all no_signal es"
  defines "s' \<equiv> fold adc_concurrent es s"
  shows "(\<forall>(p, v, a) \<in> set (samples s'). a = Some v) \<and>
    (\<forall>p q. has_lock (pcs s' p) \<and> has_lock (pcs s' q) \<longrightarrow> p = q) \<and>
    (\<exists>es'. list_all no_signal es' \<and> readers_free (fold adc_concurrent es' s'))"
proof -
  have "readers_ok s" using assms(1,2) by (simp add: readers_ok_def samples_fresh_def)
  then have ok: "readers_ok s'" unfolding s'_def using assms(3) by (rule adcm.run_inv)
  then have "\<forall>(p, v, a) \<in> set (samples s'). a = Some v"
    by (simp add: readers_ok_def samples_fresh_def list_all_iff)
  moreover have "\<forall>p q. has_lock (pcs s' p) \<and> has_lock (pcs s' q) \<longrightarrow> p = q"
    using ok by (auto simp: readers_ok_def readers_free_def readers_held_def)
  moreover have "\<exists>es'. list_all no_signal es' \<and> readers_free (fold adc_concurrent es' s')"
  proof (cases "readers_free s'")
    case True
    then show ?thesis by (intro exI [of _ "[]"]) simp
  next
    case False
    then show ?thesis using ok holder_releases by (auto simp: readers_ok_def)
  qed
  ultimately show ?thesis by blast
qed

definition readers_start :: adc_readers where
  "readers_start = \<lparr>shared = \<lparr>base_addr = True, adc_clock = True, OwnADC = 0, ADC_LOCK = 1, adcdev_channel = 0,
       adcdev_prescale = 0xff, ev_adc = 0, adc_data = 0, adc_regs = (\<lambda>_. 0), adc_held = {#}\<rparr>,
     pcs = (\<lambda>_. Outside), converting = False, answer = None, samples = []\<rparr>"

lemma readers_start_free: "readers_free readers_start"
  by (simp add: readers_free_def readers_start_def)

theorem adc_readers_get_own_witness:
  "list_all (\<lambda>(p, v, a). a = Some v) (samples (fold adc_concurrent
      [Run 0, Run 1, Run 0, Run 0, Conversion 0x1fff, Run 1, Run 0, Run 0, Run 0] readers_start))"
proof -
  have "list_all no_signal [Run 0, Run 1, Run 0, Run 0, Conversion 0x1fff, Run 1, Run 0, Run 0, Run 0]" by simp
  moreover have "samples readers_start = []" by (simp add: readers_start_def)
  ultimately show ?thesis
    using adc_readers_get_own [OF readers_start_free, THEN conjunct1] unfolding list_all_iff by blast
qed

subsection \<open>A signal leaves a stale event behind\<close>

text \<open>A read that a signal has ended, during which its conversion ends after all, followed by a read of
  another process.\<close>

definition stale_run :: "nat \<Rightarrow> nat \<Rightarrow> u32 \<Rightarrow> adc_event list" where
  "stale_run p q dat =
     replicate 3 (Run p) @ [Signal p, Run p, Conversion dat] @ replicate 4 (Run p) @ replicate 5 (Run q) @ [Run q]"

text \<open>C26 (error). A signal breaks this: the wait's result is not looked at, so that a process woken by a
  signal clears the event of a conversion still under way; when that conversion ends before the
  process gives up the converter, the event stays set, and the next read, whoever makes it, does not
  wait and takes the old value while its own conversion is still running.\<close>

theorem adc_signal_leaves_stale:
  assumes "readers_free s" and "pcs s p = Outside" and "pcs s q = Outside" and "p \<noteq> q"
  shows "samples (fold adc_concurrent (stale_run p q dat) s) =
      samples s @ [(p, dat AND 0x3ff, Some (dat AND 0x3ff)), (q, dat AND 0x3ff, None)] \<and>
    converting (fold adc_concurrent (stale_run p q dat) s)"
proof -
  define n where "n = ADC_LOCK (shared s) - 1"
  have l: "ADC_LOCK (shared s) = Suc n" "ev_adc (shared s) = 0"
    using assms(1) by (simp_all add: readers_free_def n_def)
  define d0 where "d0 = (START_ADC_AIN (adcdev_channel (shared s)) (adcdev_prescale (shared s))
    ((shared s)\<lparr>ADC_LOCK := n, OwnADC := 1\<rparr>))\<lparr>ev_adc := 0\<rparr>"
  note i = adc_irq_owned [of d0 dat]
  have o: "OwnADC d0 \<noteq> 0" "ADC_LOCK d0 = n" by (simp_all add: d0_def)
  show ?thesis
    using assms(2-4) l i o
    by (simp add: stale_run_def numeral_eq_Suc goto_def down_trylock_def sem_up_def d0_def [symmetric])
qed

theorem adc_signal_leaves_stale_witness:
  "samples (fold adc_concurrent (stale_run 0 1 0x123) readers_start) =
     [(0, 0x123, Some 0x123), (1, 0x123, None)]"
  using adc_signal_leaves_stale [OF readers_start_free, of 0 1 "0x123"] by (simp add: readers_start_def)

end
