(* ===== verification/Terminal.thy ===== *)
theory Terminal
  imports Prelude
begin

text \<open>
  Reading one key from the terminal: the routine \<open>getkey\<close> that \<open>pwm/app/unit-test.c\<close> and
  \<open>pwm/app/test.c\<close> share word for word.  It switches the terminal to single keys without echo, reads
  one character and switches back; any terminal call that fails ends the program, with an exit code
  of its own.
\<close>

record tty_hdr =
  ICANON :: u32
  ECHO :: u32

text \<open>What a program prints: a fixed text, a text on the error stream, or one value after its label.\<close>

datatype out_line =
    Text string
  | Err_text string
  | Value string s32

record tty =
  c_lflag :: u32
  tty_out :: "out_line list"

definition tty_print :: "out_line list \<Rightarrow> tty \<Rightarrow> tty" where
  "tty_print ls s = s\<lparr>tty_out := tty_out s @ ls\<rparr>"

text \<open>What one call meets: is standard input a terminal, do the three terminal calls succeed, and
  what does \<open>getchar\<close> give (\<open>-1\<close> at the end of the input).\<close>

record key_event =
  ev_tty :: bool
  ev_saved :: bool
  ev_set :: bool
  ev_char :: s32
  ev_restored :: bool

text \<open>A character (or \<open>EOF\<close>, -1), or the code the program exits with.\<close>

datatype key_result = Got s32 | Exits nat

definition getkey :: "tty_hdr \<Rightarrow> key_event \<Rightarrow> tty \<Rightarrow> key_result \<times> tty" where
  "getkey h k s =
     (if \<not> ev_tty k then (Exits 1, tty_print [Err_text ''This problem should be run at a terminal''] s)
      else if \<not> ev_saved k then (Exits 2, tty_print [Err_text ''Save termianl setting failed''] s)
      else
        let oldt = c_lflag s;
            newt = oldt AND NOT (ICANON h OR ECHO h) in
        if \<not> ev_set k then (Exits 3, tty_print [Err_text ''tcsetattr() failed''] s)
        else
          let s = s\<lparr>c_lflag := newt\<rparr>;
              s = tty_print [Text ''before getchar()''] s;
              ch = ev_char k;
              s = tty_print [Text ''after getchar()''] s
          in if \<not> ev_restored k then (Exits 4, tty_print [Err_text ''tcsetarrt() filed''] s)
             else (Got ch, s\<lparr>c_lflag := oldt\<rparr>))"

definition key_ok :: "key_event \<Rightarrow> bool" where
  "key_ok k \<longleftrightarrow> ev_tty k \<and> ev_saved k \<and> ev_set k \<and> ev_restored k"

text \<open>The values printed with a label.\<close>

fun values_of :: "string \<Rightarrow> out_line list \<Rightarrow> s32 list" where
  "values_of l [] = []"
| "values_of l (Value m v # ls) = (if m = l then v # values_of l ls else values_of l ls)"
| "values_of l (_ # ls) = values_of l ls"

lemma values_of_append [simp]: "values_of l (xs @ ys) = values_of l xs @ values_of l ys"
  by (induction l xs rule: values_of.induct) simp_all

lemma tty_print_fields [simp]:
  "tty_out (tty_print ls s) = tty_out s @ ls" "c_lflag (tty_print ls s) = c_lflag s"
  by (simp_all add: tty_print_def)

text \<open>\<open>getkey\<close> gives the key exactly when every terminal call succeeds; it prints no values, and
  leaves the terminal as it was unless the restoring call itself failed.\<close>

lemma getkey_result:
  "fst (getkey h k s) =
     (if key_ok k then Got (ev_char k)
      else Exits (if \<not> ev_tty k then 1 else if \<not> ev_saved k then 2 else if \<not> ev_set k then 3 else 4))"
  by (simp add: getkey_def key_ok_def Let_def)

lemma getkey_flags:
  "c_lflag (snd (getkey h k s)) =
     (if fst (getkey h k s) = Exits 4 then c_lflag s AND NOT (ICANON h OR ECHO h) else c_lflag s)"
  by (simp add: getkey_def Let_def)

lemma getkey_values [simp]:
  "values_of l (tty_out (snd (getkey h k s))) = values_of l (tty_out s)"
  by (simp add: getkey_def Let_def)

lemma getkey_cases:
  obtains (got) s' where "key_ok k" "getkey h k s = (Got (ev_char k), s')" "c_lflag s' = c_lflag s"
      "\<And>l. values_of l (tty_out s') = values_of l (tty_out s)"
  | (exits) n s' where "\<not> key_ok k" "getkey h k s = (Exits n, s')" "1 \<le> n" "n \<le> 4"
      "c_lflag s' = (if n = 4 then c_lflag s AND NOT (ICANON h OR ECHO h) else c_lflag s)"
      "\<And>l. values_of l (tty_out s') = values_of l (tty_out s)"
proof (cases "key_ok k")
  case True
  then have "fst (getkey h k s) = Got (ev_char k)" by (simp add: getkey_result)
  then show ?thesis
    using True got [of "snd (getkey h k s)"] getkey_flags [of h k s] by (metis getkey_values key_result.distinct(1) prod.collapse)
next
  case False
  then obtain n where n: "fst (getkey h k s) = Exits n" "1 \<le> n" "n \<le> 4" by (simp add: getkey_result)
  then show ?thesis
    using False exits [of n "snd (getkey h k s)"] getkey_flags [of h k s]
    by (metis getkey_values key_result.inject(2) prod.collapse)
qed

end
