(* ===== verification/Key_Echo.thy ===== *)
theory Key_Echo
  imports Terminal
begin

text \<open>
  The key test program (\<open>pwm/app/test.c\<close>): \<open>main\<close> reads keys with \<open>getkey\<close> and prints them for ever.
\<close>

subsection \<open>The program\<close>

text \<open>The file has its own copy of \<open>getkey\<close>, word for word that of the buzzer's client.\<close>

definition test_getkey :: "tty_hdr \<Rightarrow> key_event \<Rightarrow> tty \<Rightarrow> key_result \<times> tty" where
  "test_getkey = getkey"

text \<open>\<open>main\<close>, for a list of events: the exit code, or \<open>Diverges\<close> when the loop is still running.\<close>

fun key_main :: "tty_hdr \<Rightarrow> key_event list \<Rightarrow> tty \<Rightarrow> (fault + nat) \<times> tty" where
  "key_main h [] s = (Inl Diverges, s)"
| "key_main h (k # ks) s =
     (case test_getkey h k s of
        (Exits n, s) \<Rightarrow> (Inr n, s)
      | (Got ch, s) \<Rightarrow> key_main h ks (tty_print [Value ''key'' ch] s))"

subsection \<open>Correctness\<close>

text \<open>Further (safety). The program prints every key it is given, in order, and goes on for ever while the
  terminal calls succeed, at the end of the input, too.  It ends only when a terminal call fails,
  with that call's exit code; the terminal's flags are then as they were at the start, unless it was
  the restoring call itself that failed.\<close>

theorem key_main_restores:
  "(fst (key_main h ks s) = Inl Diverges \<longleftrightarrow> list_all key_ok ks) \<and>
   values_of ''key'' (tty_out (snd (key_main h ks s))) =
     values_of ''key'' (tty_out s) @ map ev_char (takeWhile key_ok ks) \<and>
   c_lflag (snd (key_main h ks s)) =
     (if fst (key_main h ks s) = Inr 4 then c_lflag s AND NOT (ICANON h OR ECHO h) else c_lflag s)"
proof (induction ks arbitrary: s)
  case Nil
  show ?case by simp
next
  case (Cons k ks)
  show ?case
  proof (cases rule: getkey_cases [of k h s])
    case (got s1)
    then show ?thesis using Cons.IH [of "tty_print [Value ''key'' (ev_char k)] s1"]
      by (simp add: test_getkey_def)
  qed (auto simp: test_getkey_def)
qed

end
