(* ===== verification/Pwm.thy ===== *)
theory Pwm
  imports Kernel_Api
begin

text \<open>
  The buzzer driver (\<open>pwm/driver/pwm.c\<close>).  It programs timer 0 and its output pin; one process may
  hold the device.  Writes to the timer are also logged in order, because the order matters to the hardware.  The rate of the
  peripheral clock and the timer's bit masks (\<open>pwm_hdr\<close>) are parameters.
\<close>

subsection \<open>The driver\<close>

datatype pwm_reg = TCON | TCFG0 | TCFG1 | TCNTB0 | TCMPB0

record pwm_hdr =
  pwm_gpio_hdr :: gpio_hdr
  S3C2410_TCFG_PRESCALER0_MASK :: u32
  S3C2410_TCFG1_MUX0_MASK :: u32
  S3C2410_TCFG1_MUX0_DIV16 :: u32

definition pwm_hdr_ok :: "pwm_hdr \<Rightarrow> bool" where
  "pwm_hdr_ok h \<longleftrightarrow> gpio_hdr_ok (pwm_gpio_hdr h) \<and>
     S3C2410_TCFG_PRESCALER0_MASK h = 0xff \<and> S3C2410_TCFG1_MUX0_MASK h = 0xf \<and>
     S3C2410_TCFG1_MUX0_DIV16 h = 3"

definition s3c2440_pwm :: pwm_hdr where
  "s3c2440_pwm = \<lparr>pwm_gpio_hdr = mini2440_gpio, S3C2410_TCFG_PRESCALER0_MASK = 0xff,
     S3C2410_TCFG1_MUX0_MASK = 0xf, S3C2410_TCFG1_MUX0_DIV16 = 3\<rparr>"

lemma s3c2440_pwm_ok [simp]: "pwm_hdr_ok s3c2440_pwm"
  by (simp add: pwm_hdr_ok_def s3c2440_pwm_def mini2440_gpio_ok)

record pwm =
  pwm_regs :: "pwm_reg \<Rightarrow> u32"
  pwm_log :: "(pwm_reg \<times> u32) list"
  pwm_gpio :: gpio
  pwm_lock :: nat
  pwm_held :: ledger

definition raw_readl :: "pwm_reg \<Rightarrow> pwm \<Rightarrow> u32" where
  "raw_readl r s = readl (pwm_regs s) r"

definition raw_writel :: "u32 \<Rightarrow> pwm_reg \<Rightarrow> pwm \<Rightarrow> pwm" where
  "raw_writel v r s = s\<lparr>pwm_regs := writel v r (pwm_regs s), pwm_log := pwm_log s @ [(r, v)]\<rparr>"

text \<open>\<open>clk_get\<close> takes a reference that nothing gives back.\<close>

definition PWM_set_freq :: "pwm_hdr \<Rightarrow> u32 \<Rightarrow> u32 \<Rightarrow> pwm \<Rightarrow> pwm" where
  "PWM_set_freq h pclk freq s =
     (let g = pwm_gpio_hdr h;
          s = s\<lparr>pwm_gpio := s3c2410_gpio_cfgpin (S3C2410_GPB g 0) (S3C2410_GPB0_TOUT0 g) (pwm_gpio s)\<rparr>;
          tcon = raw_readl TCON s;
          tcfg1 = raw_readl TCFG1 s;
          tcfg0 = raw_readl TCFG0 s;
          tcfg0 = tcfg0 AND NOT (S3C2410_TCFG_PRESCALER0_MASK h);
          tcfg0 = tcfg0 OR (50 - 1);
          tcfg1 = tcfg1 AND NOT (S3C2410_TCFG1_MUX0_MASK h);
          tcfg1 = tcfg1 OR S3C2410_TCFG1_MUX0_DIV16 h;
          s = raw_writel tcfg1 TCFG1 s;
          s = raw_writel tcfg0 TCFG0 s;
          s = s\<lparr>pwm_held := take_res Clk_ref (pwm_held s)\<rparr>;
          tcnt = pclk div 50 div 16 div freq;
          s = raw_writel tcnt TCNTB0 s;
          s = raw_writel (tcnt div 2) TCMPB0 s;
          tcon = tcon AND NOT 0x1f;
          tcon = tcon OR 0xb;
          s = raw_writel tcon TCON s;
          tcon = tcon AND NOT 2
      in raw_writel tcon TCON s)"

definition PWM_stop :: "pwm_hdr \<Rightarrow> pwm \<Rightarrow> pwm" where
  "PWM_stop h s =
     (let g = pwm_gpio_hdr h;
          s = s\<lparr>pwm_gpio := s3c2410_gpio_cfgpin (S3C2410_GPB g 0) (S3C2410_GPIO_OUTPUT g) (pwm_gpio s)\<rparr>
      in s\<lparr>pwm_gpio := s3c2410_gpio_setpin (S3C2410_GPB g 0) 0 (pwm_gpio s)\<rparr>)"

definition PWM_open :: "pwm \<Rightarrow> int result \<times> pwm" where
  "PWM_open s =
     (let (r, l) = down_trylock (pwm_lock s); s = s\<lparr>pwm_lock := l\<rparr>
      in (if r = 0 then Inr 0 else Inl EBUSY, s))"

definition PWM_close :: "pwm_hdr \<Rightarrow> pwm \<Rightarrow> int result \<times> pwm" where
  "PWM_close h s =
     (let s = PWM_stop h s in (Inr 0, s\<lparr>pwm_lock := sem_up (pwm_lock s)\<rparr>))"

definition PWM_ioctl :: "pwm_hdr \<Rightarrow> u32 \<Rightarrow> u32 \<Rightarrow> u32 \<Rightarrow> pwm \<Rightarrow> int result \<times> pwm" where
  "PWM_ioctl h pclk cmd arg s =
     (if cmd = 1 then
        if arg = 0 then (Inl EINVAL, s) else (Inr 0, PWM_set_freq h pclk arg s)
      else if cmd = 0 then (Inr 0, PWM_stop h s)
      else (Inl EINVAL, s))"

definition PWM_module_init :: "outcome \<Rightarrow> pwm \<Rightarrow> int result \<times> pwm" where
  "PWM_module_init ret s =
     (let s = s\<lparr>pwm_lock := 1\<rparr>
      in (outcome_result ret, if failed ret then s else s\<lparr>pwm_held := take_res Misc_dev (pwm_held s)\<rparr>))"

definition PWM_module_exit :: "pwm \<Rightarrow> fault + pwm" where
  "PWM_module_exit s = seq (give_res Misc_dev (pwm_held s)) (\<lambda>l. Inr (s\<lparr>pwm_held := l\<rparr>))"

subsection \<open>Timer and pin\<close>

lemma raw_readl_simps [simp]:
  "raw_readl q (raw_writel v r s) = (if q = r then v else raw_readl q s)"
  "raw_readl r (s\<lparr>pwm_gpio := g\<rparr>) = raw_readl r s" "raw_readl r (s\<lparr>pwm_held := l\<rparr>) = raw_readl r s"
  "raw_readl r (s\<lparr>pwm_lock := n\<rparr>) = raw_readl r s"
  by (simp_all add: raw_readl_def raw_writel_def readl_def writel_def)

lemma raw_writel_fields [simp]:
  "pwm_gpio (raw_writel v r s) = pwm_gpio s" "pwm_lock (raw_writel v r s) = pwm_lock s"
  "pwm_held (raw_writel v r s) = pwm_held s" "pwm_log (raw_writel v r s) = pwm_log s @ [(r, v)]"
  by (simp_all add: raw_writel_def)

lemma PWM_set_freq_fields [simp]: "pwm_lock (PWM_set_freq h pclk f s) = pwm_lock s"
  by (simp add: PWM_set_freq_def Let_def)

lemma PWM_stop_fields [simp]:
  "pwm_lock (PWM_stop h s) = pwm_lock s" "pwm_held (PWM_stop h s) = pwm_held s"
  "pwm_log (PWM_stop h s) = pwm_log s" "raw_readl r (PWM_stop h s) = raw_readl r s"
  by (simp_all add: PWM_stop_def Let_def)

lemma PWM_ioctl_lock [simp]: "pwm_lock (snd (PWM_ioctl h pclk cmd arg s)) = pwm_lock s"
  by (simp add: PWM_ioctl_def)

lemma pwm_hdr_simps:
  assumes "pwm_hdr_ok h"
  shows "S3C2410_TCFG_PRESCALER0_MASK h = 0xff" "S3C2410_TCFG1_MUX0_MASK h = 0xf"
    "S3C2410_TCFG1_MUX0_DIV16 h = 3" "gpio_hdr_ok (pwm_gpio_hdr h)"
  using assms by (simp_all add: pwm_hdr_ok_def)

text \<open>Clearing a low field and setting a value inside it.\<close>

lemma low_field:
  assumes "v AND m = (v :: u32)"
  shows "((x AND NOT m) OR v) AND m = v" "((x AND NOT m) OR v) AND NOT m = x AND NOT m"
proof -
  show "((x AND NOT m) OR v) AND m = v"
    by (rule bit_word_eqI, subst (2) assms [symmetric]) (auto simp: bit_simps)
  have "v AND NOT m = 0"
    by (subst assms [symmetric]) (simp add: and.assoc)
  then show "((x AND NOT m) OR v) AND NOT m = x AND NOT m"
    by (simp add: bit.conj_disj_distrib2 and.assoc)
qed

lemma pwm_tcon:
  "(((x AND NOT 0x1f) OR 0xb) AND NOT 2) AND 0x1f = (9 :: u32)"
  "(((x AND NOT 0x1f) OR 0xb) AND NOT 2) AND NOT 0x1f = x AND NOT 0x1f"
proof -
  have b: "(0xb :: u32) AND 0x1f = 0xb" by simp
  note f = low_field [OF b, of x]
  have "(((x AND NOT 0x1f) OR 0xb) AND NOT 2) AND 0x1f = (((x AND NOT 0x1f) OR 0xb) AND 0x1f) AND NOT 2"
    by (simp only: ac_simps)
  also have "\<dots> = 9" by (simp only: f(1)) simp
  finally show "(((x AND NOT 0x1f) OR 0xb) AND NOT 2) AND 0x1f = 9" .
  have "(((x AND NOT 0x1f) OR 0xb) AND NOT 2) AND NOT 0x1f = (((x AND NOT 0x1f) OR 0xb) AND NOT 0x1f) AND NOT 2"
    by (simp only: ac_simps)
  also have "\<dots> = x AND (NOT 0x1f AND NOT 2)" by (simp only: f(2) and.assoc)
  also have "NOT 0x1f AND NOT 2 = (NOT 0x1f :: u32)" by simp
  finally show "(((x AND NOT 0x1f) OR 0xb) AND NOT 2) AND NOT 0x1f = x AND NOT 0x1f" .
qed

lemma pwm_tcnt: "unat (pclk div 50 div 16 div freq :: u32) = unat pclk div 800 div unat freq"
  by (simp add: unat_div div_mult2_eq [symmetric])

text \<open>C19 (functional). Setting a frequency that the driver's comment allows (at least 1, and at most
  a 800th of a clock that is below 52 428 800 Hz) routes the pin to the timer and loads a count
  between 1 and 65535 whose period is the requested one rounded down to a tick, with half of it as
  the compare value; prescaler and divider fields are set without touching the others.  The writes
  are exactly six, each with the value named: the divider register before the prescaler, count and compare value, and the control
  register twice, first with the manual-update bit set (\<open>0xb\<close>), so that the count is taken over,
  then without it (\<open>9\<close>, running with auto-reload), both times over the other timers' unchanged
  bits.\<close>

theorem pwm_set_freq_period:
  fixes s :: pwm
  assumes "pwm_hdr_ok h" and "unat pclk < 52428800" and "1 \<le> unat freq" and "unat freq \<le> unat pclk div 800"
  defines "s' \<equiv> PWM_set_freq h pclk freq s" and "n \<equiv> unat pclk div 800 div unat freq"
  shows "PWM_ioctl h pclk 1 freq s = (Inr 0, s') \<and>
    unat (raw_readl TCNTB0 s') = n \<and> 1 \<le> n \<and> n < 65536 \<and>
    n * unat freq \<le> unat pclk div 800 \<and> unat pclk div 800 < (n + 1) * unat freq \<and>
    unat (raw_readl TCMPB0 s') = n div 2 \<and>
    raw_readl TCFG0 s' AND 0xff = 49 \<and> raw_readl TCFG0 s' AND NOT 0xff = raw_readl TCFG0 s AND NOT 0xff \<and>
    raw_readl TCFG1 s' AND 0xf = 3 \<and> raw_readl TCFG1 s' AND NOT 0xf = raw_readl TCFG1 s AND NOT 0xf \<and>
    raw_readl TCON s' AND 0x1f = 9 \<and> raw_readl TCON s' AND NOT 0x1f = raw_readl TCON s AND NOT 0x1f \<and>
    (\<exists>tcon. tcon AND 0x1f = 0xb \<and> tcon AND NOT 0x1f = raw_readl TCON s AND NOT 0x1f \<and>
      pwm_log s' = pwm_log s @ [(TCFG1, raw_readl TCFG1 s'), (TCFG0, raw_readl TCFG0 s'),
        (TCNTB0, raw_readl TCNTB0 s'), (TCMPB0, raw_readl TCMPB0 s'), (TCON, tcon), (TCON, raw_readl TCON s')]) \<and>
    pin_cfg (pwm_gpio s') (S3C2410_GPB (pwm_gpio_hdr h) 0) = S3C2410_GPB0_TOUT0 (pwm_gpio_hdr h)"
proof -
  note u = s'_def PWM_set_freq_def Let_def pwm_hdr_simps [OF assms(1)]
  have "freq \<noteq> 0" using assms(3) by auto
  then have "PWM_ioctl h pclk 1 freq s = (Inr 0, s')" by (simp add: PWM_ioctl_def s'_def)
  moreover have regs: "raw_readl TCNTB0 s' = pclk div 50 div 16 div freq"
    "raw_readl TCMPB0 s' = pclk div 50 div 16 div freq div 2"
    by (simp_all add: u)
  have "unat (x div 2 :: u32) = unat x div 2" for x by (simp add: unat_div)
  then have "unat (raw_readl TCNTB0 s') = n" "unat (raw_readl TCMPB0 s') = n div 2"
    unfolding n_def by (simp_all only: pwm_tcnt regs)
  moreover have "1 \<le> n"
    unfolding n_def using assms(3,4) by (simp add: Suc_le_eq div_greater_zero_iff)
  moreover have "n \<le> unat pclk div 800" unfolding n_def by (rule div_le_dividend)
  then have "n < 65536" using assms(2) by (simp add: div_less_iff_less_mult less_le_trans)
  moreover have "n * unat freq \<le> unat pclk div 800" unfolding n_def by simp
  moreover have "unat pclk div 800 < (n + 1) * unat freq"
    unfolding n_def using assms(3) by (metis Suc_eq_plus1 dividend_less_times_div less_le_trans
        mult.commute mult_Suc_right not_one_le_zero bot_nat_0.not_eq_extremum add.commute)
  moreover have "raw_readl TCFG0 s' AND 0xff = 49" "raw_readl TCFG0 s' AND NOT 0xff = raw_readl TCFG0 s AND NOT 0xff"
    using low_field [of 49 "0xff" "raw_readl TCFG0 s"] by (simp_all add: u)
  moreover have "raw_readl TCFG1 s' AND 0xf = 3" "raw_readl TCFG1 s' AND NOT 0xf = raw_readl TCFG1 s AND NOT 0xf"
    using low_field [of 3 "0xf" "raw_readl TCFG1 s"] by (simp_all add: u)
  moreover have "raw_readl TCON s' AND 0x1f = 9" "raw_readl TCON s' AND NOT 0x1f = raw_readl TCON s AND NOT 0x1f"
    using pwm_tcon [of "raw_readl TCON s"] by (simp_all add: u)
  moreover have "\<exists>tcon. tcon AND 0x1f = 0xb \<and> tcon AND NOT 0x1f = raw_readl TCON s AND NOT 0x1f \<and>
      pwm_log s' = pwm_log s @ [(TCFG1, raw_readl TCFG1 s'), (TCFG0, raw_readl TCFG0 s'),
        (TCNTB0, raw_readl TCNTB0 s'), (TCMPB0, raw_readl TCMPB0 s'), (TCON, tcon), (TCON, raw_readl TCON s')]"
    using low_field [of "0xb" "0x1f" "raw_readl TCON s"]
    by (intro exI [of _ "(raw_readl TCON s AND NOT 0x1f) OR 0xb"]) (simp add: u)
  moreover have "pin_cfg (pwm_gpio s') (S3C2410_GPB (pwm_gpio_hdr h) 0) = S3C2410_GPB0_TOUT0 (pwm_gpio_hdr h)"
    by (simp add: u)
  ultimately show ?thesis by blast
qed

definition pwm_start :: pwm where
  "pwm_start = \<lparr>pwm_regs = (\<lambda>_. 0), pwm_log = [], pwm_gpio = \<lparr>pin_cfg = (\<lambda>_. 0), pin_out = (\<lambda>_. 0)\<rparr>,
     pwm_lock = 1, pwm_held = {#}\<rparr>"

theorem pwm_set_freq_period_witness:
  "unat (raw_readl TCNTB0 (PWM_set_freq s3c2440_pwm 50000000 1000 pwm_start)) = 62 \<and>
   raw_readl TCON (PWM_set_freq s3c2440_pwm 50000000 1000 pwm_start) AND 0x1f = 9"
  using pwm_set_freq_period [OF s3c2440_pwm_ok, of 50000000 1000 pwm_start] by simp

text \<open>Further (error). Every accepted frequency leaves one reference to the clock behind: the driver
  gets the clock anew at each call and never puts it back, so that a session with \<open>n\<close> nonzero
  settings holds \<open>n\<close> references that closing the device does not return.\<close>

theorem pwm_set_freq_leaks_clock:
  "pwm_held (snd (PWM_close h (fold (\<lambda>f s. snd (PWM_ioctl h pclk 1 f s)) fs (snd (PWM_open s))))) =
     replicate_mset (length (filter (\<lambda>f. f \<noteq> 0) fs)) Clk_ref + pwm_held s"
proof -
  have set: "pwm_held (PWM_set_freq h pclk f s) = add_mset Clk_ref (pwm_held s)" for f s
    by (simp add: PWM_set_freq_def Let_def take_res_def)
  have "pwm_held (fold (\<lambda>f s. snd (PWM_ioctl h pclk 1 f s)) fs s) =
      replicate_mset (length (filter (\<lambda>f. f \<noteq> 0) fs)) Clk_ref + pwm_held s" for s
    by (induction fs arbitrary: s) (simp_all add: PWM_ioctl_def set)
  then show ?thesis by (simp add: PWM_close_def PWM_open_def Let_def case_prod_unfold)
qed

subsection \<open>One holder at a time\<close>

interpretation pwmx: exclusive_device "\<lambda>s. pwm_lock s = 0" PWM_open "\<lambda>s. snd (PWM_close h s)"
    "\<lambda>(cmd, arg) s. snd (PWM_ioctl h pclk cmd arg s)" "\<lambda>s. pwm_lock s \<le> 1" for h pclk
  by unfold_locales
    (auto simp: PWM_open_def PWM_close_def down_trylock_def sem_up_def Let_def)

text \<open>Further (safety). The semaphore admits one holder: from the loaded state, while a process holds the
  buzzer a second open is refused with \<open>EBUSY\<close> whatever the holder does, and after any number of
  complete sessions the device can be opened again.\<close>

theorem pwm_one_holder:
  assumes "pwm_lock s = 1"
  shows "fst (PWM_open s) = Inr 0 \<and>
    (let s1 = fold (\<lambda>(cmd, arg) s. snd (PWM_ioctl h pclk cmd arg s)) calls (snd (PWM_open s)) in
       PWM_open s1 = (Inl EBUSY, s1)) \<and>
    (let s2 = fold (\<lambda>calls s. snd (PWM_close h
         (fold (\<lambda>(cmd, arg) s. snd (PWM_ioctl h pclk cmd arg s)) calls (snd (PWM_open s))))) sessions s in
       fst (PWM_open s2) = Inr 0)"
proof -
  have free: "pwm_lock s \<le> 1" "\<not> pwm_lock s = 0" using assms by simp_all
  note s = pwmx.sessions_keep [OF free, of h pclk sessions]
  show ?thesis
    using pwmx.second_open_refused [OF free, of h pclk calls] pwmx.open_iff_free [OF free(1)] free
      pwmx.open_iff_free [OF conjunct2 [OF s]] s
    by (simp add: Let_def)
qed

theorem pwm_one_holder_witness:
  "fst (PWM_open (snd (PWM_open pwm_start))) = Inl EBUSY"
proof -
  have "pwm_lock pwm_start = 1" by (simp add: pwm_start_def)
  from pwm_one_holder [OF this, of s3c2440_pwm 0 "[]" "[]"] show ?thesis by (simp add: Let_def)
qed

end
