(* ===== verification/Buzzer.thy ===== *)
theory Buzzer
  imports Pwm Terminal
begin

text \<open>
  The interactive client of the buzzer driver (\<open>pwm/app/unit-test.c\<close>), running on the driver and the
  terminal: its descriptor, its exit handler, every text it prints, and its loop over the keys.  Its
  routines give the code the program has ended with, or \<open>None\<close> where they return.
\<close>

subsection \<open>The program\<close>

text \<open>\<open>bz_open\<close> is \<open>fd >= 0\<close>; \<open>bz_handler\<close> is whether \<open>atexit\<close> has registered \<open>buzzer_close\<close>.\<close>

record buzzer =
  bz_open :: bool
  bz_handler :: bool
  bz_tty :: tty
  bz_dev :: pwm

definition bz_print :: "out_line list \<Rightarrow> buzzer \<Rightarrow> buzzer" where
  "bz_print ls s = s\<lparr>bz_tty := tty_print ls (bz_tty s)\<rparr>"

definition buzzer_help :: "buzzer \<Rightarrow> buzzer" where
  "buzzer_help s = bz_print
     [Text ''BUZZER TEST (PWM Control)'',
      Text ''Press +/- to increase/decrease the frequency of the BUZZER'',
      Text ''Press 'ESC' key to exit this program''] s"

definition buzzer_close :: "pwm_hdr \<Rightarrow> u32 \<Rightarrow> buzzer \<Rightarrow> buzzer" where
  "buzzer_close h pclk s =
     (if bz_open s then
        let s = s\<lparr>bz_dev := snd (PWM_ioctl h pclk 0 0 (bz_dev s))\<rparr>;
            s = s\<lparr>bz_dev := snd (PWM_close h (bz_dev s))\<rparr>
        in s\<lparr>bz_open := False\<rparr>
      else s)"

text \<open>\<open>exit\<close> (and returning from \<open>main\<close>) runs the registered handler.\<close>

definition buzzer_exit :: "pwm_hdr \<Rightarrow> u32 \<Rightarrow> nat \<Rightarrow> buzzer \<Rightarrow> nat option \<times> buzzer" where
  "buzzer_exit h pclk n s = (Some n, if bz_handler s then buzzer_close h pclk s else s)"

text \<open>\<open>lookup\<close> is what looking up \<open>/dev/pwm\<close> gives: an error, or the driver.\<close>

definition buzzer_open :: "pwm_hdr \<Rightarrow> u32 \<Rightarrow> outcome \<Rightarrow> buzzer \<Rightarrow> nat option \<times> buzzer" where
  "buzzer_open h pclk lookup s =
     (let (r, d) = (case lookup of Some e \<Rightarrow> (Inl e, bz_dev s) | None \<Rightarrow> PWM_open (bz_dev s));
          s = s\<lparr>bz_dev := d\<rparr>
      in case r of
        Inl e \<Rightarrow> buzzer_exit h pclk 5 (bz_print [Err_text ''open(/dev/pwm) failed''] s)
      | Inr _ \<Rightarrow> (None, s\<lparr>bz_open := True, bz_handler := True\<rparr>))"

definition buzzer_set_freq :: "pwm_hdr \<Rightarrow> u32 \<Rightarrow> s32 \<Rightarrow> buzzer \<Rightarrow> nat option \<times> buzzer" where
  "buzzer_set_freq h pclk freq s =
     (if bz_open s then
        let (ret, d) = PWM_ioctl h pclk 1 freq (bz_dev s);
            s = s\<lparr>bz_dev := d\<rparr>
        in case ret of
          Inl e \<Rightarrow> buzzer_exit h pclk 5 (bz_print [Err_text ''ioctl() failed''] s)
        | Inr _ \<Rightarrow> (None, s)
      else (None, s))"

definition buzzer_stop :: "pwm_hdr \<Rightarrow> u32 \<Rightarrow> buzzer \<Rightarrow> nat option \<times> buzzer" where
  "buzzer_stop h pclk s =
     (if bz_open s then
        let (ret, d) = PWM_ioctl h pclk 0 0 (bz_dev s);
            s = s\<lparr>bz_dev := d\<rparr>
        in case ret of
          Inl e \<Rightarrow> buzzer_exit h pclk 5 (bz_print [Err_text ''ioctl() failed''] s)
        | Inr _ \<Rightarrow> (None, s)
      else (None, s))"

text \<open>What the keys \<open>+\<close> and \<open>-\<close> make of the frequency.\<close>

definition buzzer_key :: "s32 \<Rightarrow> s32 \<Rightarrow> s32" where
  "buzzer_key ch freq =
     (if ch = 43 then (if sint freq < 20000 then freq + 10 else freq)
      else if ch = 45 then (if sint freq > 11 then freq - 10 else freq)
      else freq)"

text \<open>The loop over the keys that arrive.  The result: the exit code, or \<open>None\<close> while the program
  waits for a key; the frequency; the state.\<close>

fun buzzer_loop ::
    "pwm_hdr \<Rightarrow> tty_hdr \<Rightarrow> u32 \<Rightarrow> key_event list \<Rightarrow> s32 \<Rightarrow> buzzer \<Rightarrow> nat option \<times> s32 \<times> buzzer" where
  "buzzer_loop h th pclk keys freq s =
     (case buzzer_set_freq h pclk freq s of
        (Some n, s) \<Rightarrow> (Some n, freq, s)
      | (None, s) \<Rightarrow>
          let s = bz_print [Value ''Freq'' freq] s in
          (case keys of
             [] \<Rightarrow> (None, freq, s)
           | k # ks \<Rightarrow>
               (case getkey th k (bz_tty s) of
                  (Exits n, t) \<Rightarrow> let (e, s) = buzzer_exit h pclk n (s\<lparr>bz_tty := t\<rparr>) in (e, freq, s)
                | (Got ch, t) \<Rightarrow>
                    let s = s\<lparr>bz_tty := t\<rparr> in
                    if ch = 43 \<or> ch = 45 then buzzer_loop h th pclk ks (buzzer_key ch freq) s
                    else if ch = 0x1b \<or> ch = - 1 then
                      (case buzzer_stop h pclk s of
                         (Some n, s) \<Rightarrow> (Some n, freq, s)
                       | (None, s) \<Rightarrow> let (e, s) = buzzer_exit h pclk 0 s in (e, freq, s))
                    else buzzer_loop h th pclk ks freq (buzzer_help s))))"

definition buzzer_main ::
    "pwm_hdr \<Rightarrow> tty_hdr \<Rightarrow> u32 \<Rightarrow> outcome \<Rightarrow> key_event list \<Rightarrow> buzzer \<Rightarrow> nat option \<times> s32 \<times> buzzer" where
  "buzzer_main h th pclk lookup keys s =
     (let freq = 1000; s = buzzer_help s in
      case buzzer_open h pclk lookup s of
        (Some n, s) \<Rightarrow> (Some n, freq, s)
      | (None, s) \<Rightarrow> buzzer_loop h th pclk keys freq s)"

declare buzzer_loop.simps [simp del]

text \<open>The program as it starts, on a device and a terminal.\<close>

definition buzzer_started :: "tty \<Rightarrow> pwm \<Rightarrow> buzzer" where
  "buzzer_started t d = \<lparr>bz_open = False, bz_handler = False, bz_tty = t, bz_dev = d\<rparr>"

subsection \<open>The client stays in range\<close>

definition buzzer_freq_ok :: "s32 \<Rightarrow> bool" where
  "buzzer_freq_ok f \<longleftrightarrow> 10 \<le> unat f \<and> unat f \<le> 20000 \<and> 10 dvd unat f"

lemma buzzer_key_ok:
  assumes "buzzer_freq_ok f"
  shows "buzzer_freq_ok (buzzer_key ch f)"
proof -
  have r: "10 \<le> unat f" "unat f \<le> 20000" "10 dvd unat f" using assms by (simp_all add: buzzer_freq_ok_def)
  have s: "sint f = int (unat f)" using sint_of_nat_s32 [of "unat f"] r by simp
  have up: "unat (f + 10) = unat f + 10" using r by (simp add: unat_word_ariths)
  have down: "unat (f - 10) = unat f - 10" using r by (simp add: unat_sub word_le_nat_alt)
  obtain k where k: "unat f = 10 * k" using r(3) by blast
  have lt: "unat f < 20000 \<Longrightarrow> unat f + 10 \<le> 20000" "11 < unat f \<Longrightarrow> 20 \<le> unat f"
    using k by simp_all
  have "10 dvd unat f + 10" "10 dvd unat f - 10" using r(3) by simp_all
  moreover have "sint f < 20000 \<longleftrightarrow> unat f < 20000" "11 < sint f \<longleftrightarrow> 11 < unat f"
    unfolding s by linarith+
  ultimately show ?thesis
    using r lt by (auto simp: buzzer_key_def buzzer_freq_ok_def up down)
qed

definition pwm_silent :: "pwm_hdr \<Rightarrow> pwm \<Rightarrow> bool" where
  "pwm_silent h s \<longleftrightarrow> pin_cfg (pwm_gpio s) (S3C2410_GPB (pwm_gpio_hdr h) 0) = S3C2410_GPIO_OUTPUT (pwm_gpio_hdr h) \<and>
     pin_out (pwm_gpio s) (S3C2410_GPB (pwm_gpio_hdr h) 0) = 0"

lemma PWM_stop_silent: "pwm_silent h (PWM_stop h s)"
  by (simp add: pwm_silent_def PWM_stop_def Let_def)

text \<open>The counts loaded into the timer, in order; the count that a frequency stands for.\<close>

definition counts_loaded :: "pwm \<Rightarrow> u32 list" where
  "counts_loaded s = map snd (filter (\<lambda>(r, v). r = TCNTB0) (pwm_log s))"

definition pwm_count :: "u32 \<Rightarrow> s32 \<Rightarrow> u32" where
  "pwm_count pclk f = pclk div 50 div 16 div f"

lemma counts_loaded_set: "counts_loaded (PWM_set_freq h pclk f s) = counts_loaded s @ [pwm_count pclk f]"
  by (simp add: counts_loaded_def PWM_set_freq_def pwm_count_def Let_def)

lemma counts_loaded_stop [simp]:
  "counts_loaded (PWM_stop h s) = counts_loaded s" "counts_loaded (s\<lparr>pwm_lock := n\<rparr>) = counts_loaded s"
  by (simp_all add: counts_loaded_def)

text \<open>A program that holds the device, with its handler registered.\<close>

definition bz_running :: "buzzer \<Rightarrow> bool" where
  "bz_running s \<longleftrightarrow> bz_open s \<and> bz_handler s \<and> pwm_lock (bz_dev s) = 0"

lemma bz_print_fields [simp]:
  "bz_open (bz_print ls s) = bz_open s" "bz_handler (bz_print ls s) = bz_handler s"
  "bz_dev (bz_print ls s) = bz_dev s" "bz_tty (bz_print ls s) = tty_print ls (bz_tty s)"
  by (simp_all add: bz_print_def)

lemma bz_running_updates [simp]:
  "bz_running (bz_print ls s) = bz_running s" "bz_running (s\<lparr>bz_tty := t\<rparr>) = bz_running s"
  "bz_running (buzzer_help s) = bz_running s"
  by (simp_all add: bz_running_def buzzer_help_def)

lemma buzzer_exit_state:
  assumes "bz_running s"
  shows "\<exists>s'. buzzer_exit h pclk n s = (Some n, s') \<and> \<not> bz_open s' \<and> pwm_lock (bz_dev s') = 1 \<and>
    pwm_silent h (bz_dev s') \<and> bz_tty s' = bz_tty s \<and> counts_loaded (bz_dev s') = counts_loaded (bz_dev s)"
  using assms PWM_stop_silent [of h "PWM_stop h (bz_dev s)"]
  by (simp add: bz_running_def buzzer_exit_def buzzer_close_def PWM_close_def PWM_ioctl_def Let_def
      sem_up_def pwm_silent_def)

lemma buzzer_set_freq_state:
  assumes "buzzer_freq_ok f" and "bz_running s"
  shows "buzzer_set_freq h pclk f s = (None, s\<lparr>bz_dev := PWM_set_freq h pclk f (bz_dev s)\<rparr>)"
    "bz_running (s\<lparr>bz_dev := PWM_set_freq h pclk f (bz_dev s)\<rparr>)"
proof -
  have "f \<noteq> 0" using assms(1) by (auto simp: buzzer_freq_ok_def)
  then show "buzzer_set_freq h pclk f s = (None, s\<lparr>bz_dev := PWM_set_freq h pclk f (bz_dev s)\<rparr>)"
    "bz_running (s\<lparr>bz_dev := PWM_set_freq h pclk f (bz_dev s)\<rparr>)"
    using assms(2) by (simp_all add: buzzer_set_freq_def PWM_ioctl_def bz_running_def)
qed

lemma buzzer_stop_state:
  assumes "bz_running s"
  shows "buzzer_stop h pclk s = (None, s\<lparr>bz_dev := PWM_stop h (bz_dev s)\<rparr>)"
    "bz_running (s\<lparr>bz_dev := PWM_stop h (bz_dev s)\<rparr>)"
  using assms by (simp_all add: buzzer_stop_def PWM_ioctl_def bz_running_def)

text \<open>What a run of the program from the state \<open>s0\<close> amounts to.\<close>

definition buzzer_run_ok ::
    "pwm_hdr \<Rightarrow> tty_hdr \<Rightarrow> u32 \<Rightarrow> buzzer \<Rightarrow> nat option \<times> s32 \<times> buzzer \<Rightarrow> bool" where
  "buzzer_run_ok h th pclk s0 res = (case res of (ex, freq, s) \<Rightarrow>
     buzzer_freq_ok freq \<and>
     (\<exists>fs. list_all buzzer_freq_ok fs \<and>
        values_of ''Freq'' (tty_out (bz_tty s)) = values_of ''Freq'' (tty_out (bz_tty s0)) @ fs \<and>
        counts_loaded (bz_dev s) = counts_loaded (bz_dev s0) @ map (pwm_count pclk) fs) \<and>
     c_lflag (bz_tty s) =
       (if ex = Some 4 then c_lflag (bz_tty s0) AND NOT (ICANON th OR ECHO th) else c_lflag (bz_tty s0)) \<and>
     (case ex of
        None \<Rightarrow> bz_running s
      | Some n \<Rightarrow> n \<le> 4 \<and> \<not> bz_open s \<and> pwm_lock (bz_dev s) = 1 \<and> pwm_silent h (bz_dev s)))"

lemma buzzer_run_same:
  assumes "c_lflag (bz_tty s1) = c_lflag (bz_tty s0)"
    and "values_of ''Freq'' (tty_out (bz_tty s1)) = values_of ''Freq'' (tty_out (bz_tty s0))"
    and "counts_loaded (bz_dev s1) = counts_loaded (bz_dev s0)"
  shows "buzzer_run_ok h th pclk s1 res = buzzer_run_ok h th pclk s0 res"
  unfolding buzzer_run_ok_def assms ..

text \<open>A run may be preceded by setting and showing one frequency.\<close>

lemma buzzer_run_step:
  assumes "buzzer_run_ok h th pclk s1 res" and "buzzer_freq_ok f"
    and "values_of ''Freq'' (tty_out (bz_tty s1)) = values_of ''Freq'' (tty_out (bz_tty s0)) @ [f]"
    and "counts_loaded (bz_dev s1) = counts_loaded (bz_dev s0) @ [pwm_count pclk f]"
    and "c_lflag (bz_tty s1) = c_lflag (bz_tty s0)"
  shows "buzzer_run_ok h th pclk s0 res"
proof -
  obtain ex freq s where res: "res = (ex, freq, s)" by (cases res)
  obtain fs where "list_all buzzer_freq_ok fs"
    "values_of ''Freq'' (tty_out (bz_tty s)) = values_of ''Freq'' (tty_out (bz_tty s1)) @ fs"
    "counts_loaded (bz_dev s) = counts_loaded (bz_dev s1) @ map (pwm_count pclk) fs"
    using assms(1) by (auto simp: buzzer_run_ok_def res)
  then have "\<exists>fs. list_all buzzer_freq_ok fs \<and>
      values_of ''Freq'' (tty_out (bz_tty s)) = values_of ''Freq'' (tty_out (bz_tty s0)) @ fs \<and>
      counts_loaded (bz_dev s) = counts_loaded (bz_dev s0) @ map (pwm_count pclk) fs"
    using assms(2-4) by (intro exI [of _ "f # fs"]) simp
  then show ?thesis
    using assms(1,5) by (simp only: buzzer_run_ok_def res prod.case simp_thms)
qed

lemma buzzer_ends_ok:
  assumes "bz_running s" and "buzzer_freq_ok freq" and "n \<le> 4"
    and "c_lflag (bz_tty s) = (if n = 4 then c_lflag (bz_tty s0) AND NOT (ICANON th OR ECHO th) else c_lflag (bz_tty s0))"
    and "values_of ''Freq'' (tty_out (bz_tty s)) = values_of ''Freq'' (tty_out (bz_tty s0))"
    and "counts_loaded (bz_dev s) = counts_loaded (bz_dev s0)"
  shows "buzzer_run_ok h th pclk s0 (let (e, s) = buzzer_exit h pclk n s in (e, freq, s))"
  using buzzer_exit_state [OF assms(1), of h pclk n] assms(2-6) by (auto simp: buzzer_run_ok_def)

text \<open>One round of the loop: the frequency is set and shown, then a key decides.\<close>

definition bz_shown :: "pwm_hdr \<Rightarrow> u32 \<Rightarrow> s32 \<Rightarrow> buzzer \<Rightarrow> buzzer" where
  "bz_shown h pclk freq s =
     bz_print [Value ''Freq'' freq] (s\<lparr>bz_dev := PWM_set_freq h pclk freq (bz_dev s)\<rparr>)"

lemma buzzer_round:
  assumes "buzzer_freq_ok freq" and "bz_running s"
  shows "bz_running (bz_shown h pclk freq s)"
    and "buzzer_run_ok h th pclk (bz_shown h pclk freq s) res \<Longrightarrow> buzzer_run_ok h th pclk s res"
    and "buzzer_loop h th pclk [] freq s = (None, freq, bz_shown h pclk freq s)"
proof -
  note set = buzzer_set_freq_state [OF assms]
  show "bz_running (bz_shown h pclk freq s)" using set(2) by (simp add: bz_shown_def)
  show "buzzer_run_ok h th pclk s res" if "buzzer_run_ok h th pclk (bz_shown h pclk freq s) res"
    by (rule buzzer_run_step [OF that assms(1)]) (simp_all add: bz_shown_def counts_loaded_set)
  show "buzzer_loop h th pclk [] freq s = (None, freq, bz_shown h pclk freq s)"
    by (subst buzzer_loop.simps) (simp add: set(1) bz_shown_def)
qed

lemma buzzer_loop_Cons:
  fixes h :: pwm_hdr and pclk :: u32 and freq :: s32 and s :: buzzer
  assumes "buzzer_freq_ok freq" and "bz_running s"
  defines "s1 \<equiv> bz_shown h pclk freq s"
  shows "buzzer_loop h th pclk (k # ks) freq s =
      (case getkey th k (bz_tty s1) of
         (Exits n, t) \<Rightarrow> let (e, s) = buzzer_exit h pclk n (s1\<lparr>bz_tty := t\<rparr>) in (e, freq, s)
       | (Got ch, t) \<Rightarrow>
           let s = s1\<lparr>bz_tty := t\<rparr> in
           if ch = 43 \<or> ch = 45 then buzzer_loop h th pclk ks (buzzer_key ch freq) s
           else if ch = 0x1b \<or> ch = - 1 then
             let (e, s) = buzzer_exit h pclk 0 (s\<lparr>bz_dev := PWM_stop h (bz_dev s)\<rparr>) in (e, freq, s)
           else buzzer_loop h th pclk ks freq (buzzer_help s))"
  by (subst buzzer_loop.simps)
    (simp only: buzzer_set_freq_state(1) [OF assms(1,2)] prod.case option.case list.case Let_def s1_def
      bz_shown_def [symmetric] buzzer_stop_state(1) bz_running_updates buzzer_round(1) [OF assms(1,2)])

lemma buzzer_loop_ok:
  "buzzer_freq_ok freq \<Longrightarrow> bz_running s \<Longrightarrow>
     buzzer_run_ok h th pclk s (buzzer_loop h th pclk keys freq s)"
proof (induction keys arbitrary: freq s)
  case Nil
  have "buzzer_run_ok h th pclk (bz_shown h pclk freq s) (None, freq, bz_shown h pclk freq s)"
    using Nil(1) buzzer_round(1) [OF Nil] by (simp add: buzzer_run_ok_def)
  then show ?case using buzzer_round(2,3) [OF Nil] by simp
next
  case (Cons k ks)
  define s1 where "s1 = bz_shown h pclk freq s"
  note run = buzzer_round(1) [OF Cons.prems, of h pclk, folded s1_def]
    and step = buzzer_round(2) [OF Cons.prems, of h th pclk, folded s1_def]
    and loop = buzzer_loop_Cons [OF Cons.prems, of h th pclk k ks, folded s1_def]
  have cont: "buzzer_run_ok h th pclk s1 (buzzer_loop h th pclk ks f s2)"
    if f: "buzzer_freq_ok f" and s2: "bz_running s2" "bz_dev s2 = bz_dev s1" "c_lflag (bz_tty s2) = c_lflag (bz_tty s1)"
      "values_of ''Freq'' (tty_out (bz_tty s2)) = values_of ''Freq'' (tty_out (bz_tty s1))" for f s2
    using Cons.IH [OF f s2(1)] buzzer_run_same [of s2 s1] s2(2-4) by simp
  show ?case
  proof (cases rule: getkey_cases [of k th "bz_tty s1"])
    case (exits n t)
    then show ?thesis
      unfolding loop using buzzer_ends_ok [of "s1\<lparr>bz_tty := t\<rparr>" freq n s1 th h pclk] run Cons.prems(1)
      by (auto intro: step)
  next
    case (got t)
    define s2 where "s2 = s1\<lparr>bz_tty := t\<rparr>"
    have s2: "bz_running s2" "bz_dev s2 = bz_dev s1" "c_lflag (bz_tty s2) = c_lflag (bz_tty s1)"
      "values_of ''Freq'' (tty_out (bz_tty s2)) = values_of ''Freq'' (tty_out (bz_tty s1))"
      using run got by (simp_all add: s2_def)
    have "buzzer_run_ok h th pclk s1 (buzzer_loop h th pclk ks (buzzer_key (ev_char k) freq) s2)"
      by (rule cont [OF buzzer_key_ok [OF Cons.prems(1)] s2])
    moreover have "buzzer_run_ok h th pclk s1 (buzzer_loop h th pclk ks freq (buzzer_help s2))"
      by (rule cont [OF Cons.prems(1)]) (simp_all add: s2 buzzer_help_def)
    moreover have "buzzer_run_ok h th pclk s1
        (let (e, s) = buzzer_exit h pclk 0 (s2\<lparr>bz_dev := PWM_stop h (bz_dev s2)\<rparr>) in (e, freq, s))"
      by (rule buzzer_ends_ok)
        (use buzzer_stop_state(2) [OF s2(1), of h] in \<open>simp_all add: s2 Cons.prems(1)\<close>)
    ultimately show ?thesis
      unfolding loop using got(2) by (auto simp: s2_def [symmetric] Let_def intro!: step)
  qed
qed

lemma buzzer_no_node:
  "\<exists>s. buzzer_main h th pclk (Some e) keys (buzzer_started t d) = (Some 5, 1000, s) \<and>
     bz_dev s = d \<and> c_lflag (bz_tty s) = c_lflag t \<and> Err_text ''open(/dev/pwm) failed'' \<in> set (tty_out (bz_tty s))"
  by (simp add: buzzer_main_def buzzer_open_def Let_def buzzer_help_def buzzer_started_def buzzer_exit_def)

text \<open>C20 (safety). However many keys are pressed, the client's frequency stays a multiple of 10 between 10 and
  20000, so that the driver accepts every setting, and the frequencies it shows are, one for one
  and in order, those whose counts the driver loads into the timer.  Whenever the program ends (on
  the escape key, at the end of input, or because a terminal call fails) the device is closed
  again, its pin is a plain output driven low, and the terminal is as it was found, unless it was
  the restoring call itself that failed.  When the device node cannot be opened it ends with 5 and
  touches nothing.\<close>

theorem buzzer_client_in_range:
  assumes "pwm_lock d = 1"
  shows "case lookup of
      None \<Rightarrow> buzzer_run_ok h th pclk (buzzer_started t d) (buzzer_main h th pclk None keys (buzzer_started t d))
    | Some e \<Rightarrow> \<exists>s. buzzer_main h th pclk (Some e) keys (buzzer_started t d) = (Some 5, 1000, s) \<and>
        bz_dev s = d \<and> c_lflag (bz_tty s) = c_lflag t"
proof (cases lookup)
  case None
  define s0 where "s0 = buzzer_help (buzzer_started t d)"
  define d1 where "d1 = d\<lparr>pwm_lock := 0\<rparr>"
  define s1 where "s1 = s0\<lparr>bz_dev := d1, bz_open := True, bz_handler := True\<rparr>"
  have s0: "bz_dev s0 = d" "c_lflag (bz_tty s0) = c_lflag t"
    "values_of ''Freq'' (tty_out (bz_tty s0)) = values_of ''Freq'' (tty_out t)"
    by (simp_all add: s0_def buzzer_help_def buzzer_started_def)
  have "PWM_open d = (Inr 0, d1)"
    using assms by (simp add: PWM_open_def Let_def down_trylock_def d1_def)
  then have main: "buzzer_main h th pclk None keys (buzzer_started t d) = buzzer_loop h th pclk keys 1000 s1"
    by (simp add: buzzer_main_def Let_def s0_def [symmetric] buzzer_open_def s0(1) s1_def)
  have "buzzer_freq_ok 1000" by (simp add: buzzer_freq_ok_def)
  moreover have "bz_running s1"
    by (simp add: s1_def bz_running_def d1_def)
  ultimately have "buzzer_run_ok h th pclk s1 (buzzer_loop h th pclk keys 1000 s1)"
    by (rule buzzer_loop_ok)
  moreover have "values_of ''Freq'' (tty_out (bz_tty s1)) = values_of ''Freq'' (tty_out t)"
    "c_lflag (bz_tty s1) = c_lflag t" "counts_loaded (bz_dev s1) = counts_loaded d"
    by (simp_all add: s1_def s0 d1_def)
  ultimately have "buzzer_run_ok h th pclk (buzzer_started t d) (buzzer_loop h th pclk keys 1000 s1)"
    using buzzer_run_same [of s1 "buzzer_started t d"] by (simp add: buzzer_started_def)
  then show ?thesis by (simp only: None option.case main)
next
  case (Some e)
  then show ?thesis using buzzer_no_node [of h th pclk e keys t d] by auto
qed

definition plain_tty :: tty where
  "plain_tty = \<lparr>c_lflag = 0x8a3b, tty_out = []\<rparr>"

definition key_press :: "s32 \<Rightarrow> key_event" where
  "key_press ch = \<lparr>ev_tty = True, ev_saved = True, ev_set = True, ev_char = ch, ev_restored = True\<rparr>"

theorem buzzer_client_in_range_witness:
  "buzzer_run_ok s3c2440_pwm \<lparr>ICANON = 2, ECHO = 8\<rparr> 50000000 (buzzer_started plain_tty pwm_start)
     (buzzer_main s3c2440_pwm \<lparr>ICANON = 2, ECHO = 8\<rparr> 50000000 None
       [key_press 43, key_press 45, key_press 104, key_press 0x1b] (buzzer_started plain_tty pwm_start))"
proof -
  have "pwm_lock pwm_start = 1" by (simp add: pwm_start_def)
  from buzzer_client_in_range [OF this, where lookup = None] show ?thesis by simp
qed

end
