(* ===== verification/Device_Nodes.thy ===== *)
theory Device_Nodes
  imports Buzzer
begin

text \<open>
  Drivers and clients meet at a name: a driver registers a \<open>miscdevice\<close> with the kernel, which makes
  a node of that name under \<open>/dev\<close>, and the client opens a path.  This theory holds the tables of
  the drivers and the paths and calls of the clients, and shows which client finds its driver.
\<close>

subsection \<open>The drivers' tables\<close>

text \<open>The entries of a \<open>file_operations\<close> that are not null.\<close>

datatype file_op =
    Fop_llseek | Fop_read | Fop_write | Fop_poll | Fop_ioctl | Fop_unlocked_ioctl | Fop_mmap
  | Fop_open | Fop_release

text \<open>\<open>None\<close> stands for \<open>MISC_DYNAMIC_MINOR\<close>.\<close>

record miscdevice =
  misc_minor :: "nat option"
  misc_name :: string
  misc_fops :: "file_op list"

definition leds_misc :: miscdevice where
  "leds_misc = \<lparr>misc_minor = None, misc_name = ''mini2440-leds'', misc_fops = [Fop_ioctl]\<rparr>"

definition keys_misc :: miscdevice where
  "keys_misc = \<lparr>misc_minor = None, misc_name = ''keys'',
     misc_fops = [Fop_open, Fop_release, Fop_read, Fop_poll]\<rparr>"

definition adc_misc :: miscdevice where
  "adc_misc = \<lparr>misc_minor = None, misc_name = ''mini2440-adc'',
     misc_fops = [Fop_open, Fop_read, Fop_release]\<rparr>"

definition pwm_misc :: miscdevice where
  "pwm_misc = \<lparr>misc_minor = None, misc_name = ''mini2440-pwm'',
     misc_fops = [Fop_open, Fop_release, Fop_ioctl]\<rparr>"

definition mmap_misc :: miscdevice where
  "mmap_misc = \<lparr>misc_minor = None, misc_name = ''mymmap'', misc_fops = [Fop_open, Fop_release, Fop_mmap]\<rparr>"

definition completion_miscdevice :: miscdevice where
  "completion_miscdevice = \<lparr>misc_minor = None, misc_name = ''completion'', misc_fops = [Fop_read, Fop_write]\<rparr>"

text \<open>\<open>WATCHDOG_MINOR\<close> is a header's.\<close>

definition watchdog_miscdev :: "nat \<Rightarrow> miscdevice" where
  "watchdog_miscdev WATCHDOG_MINOR = \<lparr>misc_minor = Some WATCHDOG_MINOR, misc_name = ''watchdog'',
     misc_fops = [Fop_llseek, Fop_write, Fop_unlocked_ioctl, Fop_open, Fop_release]\<rparr>"

text \<open>A board with every driver of the repository loaded.\<close>

definition board_devices :: "nat \<Rightarrow> miscdevice list" where
  "board_devices m =
     [leds_misc, keys_misc, adc_misc, pwm_misc, mmap_misc, completion_miscdevice, watchdog_miscdev m]"

subsection \<open>The clients\<close>

record client =
  DEVICE :: string
  client_calls :: "file_op list"

definition led_client :: client where
  "led_client = \<lparr>DEVICE = ''/dev/mini2440-leds'', client_calls = [Fop_open, Fop_ioctl, Fop_release]\<rparr>"

definition key_client :: client where
  "key_client = \<lparr>DEVICE = ''/dev/keys'', client_calls = [Fop_open, Fop_read]\<rparr>"

definition adc_client :: client where
  "adc_client = \<lparr>DEVICE = ''/dev/mini2440-adc'', client_calls = [Fop_open, Fop_read]\<rparr>"

definition pwm_client :: client where
  "pwm_client = \<lparr>DEVICE = ''/dev/pwm'', client_calls = [Fop_open, Fop_ioctl, Fop_release]\<rparr>"

definition mmap_client :: client where
  "mmap_client = \<lparr>DEVICE = ''/dev/mymmap'', client_calls = [Fop_open, Fop_mmap]\<rparr>"

definition completion_client :: client where
  "completion_client = \<lparr>DEVICE = ''/dev/completion'', client_calls = [Fop_open, Fop_write, Fop_read, Fop_release]\<rparr>"

text \<open>Opening a path finds the device of that name; a call other than open and release needs an entry
  of the driver's table.\<close>

definition dev_lookup :: "miscdevice list \<Rightarrow> string \<Rightarrow> miscdevice option" where
  "dev_lookup devs path = find (\<lambda>m. ''/dev/'' @ misc_name m = path) devs"

definition node_outcome :: "miscdevice list \<Rightarrow> string \<Rightarrow> outcome" where
  "node_outcome devs path = (case dev_lookup devs path of None \<Rightarrow> Some ENOENT | Some _ \<Rightarrow> None)"

definition served_by :: "miscdevice list \<Rightarrow> client \<Rightarrow> miscdevice option" where
  "served_by devs c =
     (case dev_lookup devs (DEVICE c) of
        None \<Rightarrow> None
      | Some m \<Rightarrow> if list_all (\<lambda>f. f \<in> {Fop_open, Fop_release} \<or> f \<in> set (misc_fops m)) (client_calls c)
                 then Some m else None)"

subsection \<open>Who finds whom\<close>

lemmas device_tables = board_devices_def leds_misc_def keys_misc_def adc_misc_def pwm_misc_def mmap_misc_def
  completion_miscdevice_def watchdog_miscdev_def dev_lookup_def served_by_def

lemma clients_served:
  "served_by (board_devices m) led_client = Some leds_misc"
  "served_by (board_devices m) key_client = Some keys_misc"
  "served_by (board_devices m) adc_client = Some adc_misc"
  "served_by (board_devices m) mmap_client = Some mmap_misc"
  "served_by (board_devices m) completion_client = Some completion_miscdevice"
  by (simp_all add: device_tables led_client_def key_client_def adc_client_def mmap_client_def
      completion_client_def)

lemma pwm_node_missing: "dev_lookup (board_devices m) (DEVICE pwm_client) = None"
  by (simp add: device_tables pwm_client_def)

text \<open>Further (error). With every driver of the repository loaded, each client but one finds its own driver under
  the path it opens, and every call it makes has an entry in that driver's table.  The buzzer's
  client opens \<open>/dev/pwm\<close> while its driver registers \<open>mini2440-pwm\<close>: started from any terminal, with
  any keys, it reports the failed open, ends with 5 and never reaches the driver.\<close>

theorem buzzer_cannot_start:
  "served_by (board_devices m) led_client = Some leds_misc \<and>
   served_by (board_devices m) key_client = Some keys_misc \<and>
   served_by (board_devices m) adc_client = Some adc_misc \<and>
   served_by (board_devices m) mmap_client = Some mmap_misc \<and>
   served_by (board_devices m) completion_client = Some completion_miscdevice \<and>
   (\<exists>s. buzzer_main h th pclk (node_outcome (board_devices m) (DEVICE pwm_client)) keys (buzzer_started t d) =
        (Some 5, 1000, s) \<and> bz_dev s = d \<and> Err_text ''open(/dev/pwm) failed'' \<in> set (tty_out (bz_tty s)))"
  using clients_served [of m] buzzer_no_node [of h th pclk ENOENT keys t d]
  by (auto simp: node_outcome_def pwm_node_missing)

end
