(* ===== verification/Echo.thy ===== *)
theory Echo
  imports Kernel_Api
begin

text \<open>
  The FreeBSD echo pseudo-device (\<open>echo/echo.c\<close>): one message of up to 255 bytes, kept with a
  terminating null byte.  \<open>uiomove\<close> copies and advances the request; how far it gets before a bad
  address, and its error, are an argument.  The message refines a plain byte string: writes at the
  start replace it, writes at its end append, reads from the start return it with its terminator.
\<close>

subsection \<open>State and requests\<close>

record s_echo =
  msg :: "u8 list"
  len :: int

definition BUFFERSIZE :: int where "BUFFERSIZE = 255"

text \<open>\<open>echomsg\<close> is \<open>None\<close> while the pointer is null.\<close>

record echo =
  echo_dev :: bool
  echomsg :: "s_echo option"

text \<open>A request: the bytes still to be moved and the file offset.\<close>

record uio =
  uio_resid :: nat
  uio_offset :: int

text \<open>For an amount, how many bytes \<open>uiomove\<close> moves and what it returns.\<close>

type_synonym mover = "nat \<Rightarrow> nat \<times> outcome"

definition mover_ok :: "mover \<Rightarrow> bool" where
  "mover_ok mv \<longleftrightarrow> (\<forall>n. fst (mv n) \<le> n \<and> (snd (mv n) = None \<longrightarrow> fst (mv n) = n))"

definition move_all :: mover where
  "move_all n = (n, None)"

lemma move_all_ok [simp]: "mover_ok move_all"
  by (simp add: mover_ok_def move_all_def)

definition uio_advance :: "nat \<Rightarrow> uio \<Rightarrow> uio" where
  "uio_advance k u = \<lparr>uio_resid = uio_resid u - k, uio_offset = uio_offset u + int k\<rparr>"

subsection \<open>Load and unload\<close>

datatype mod_event = MOD_LOAD | MOD_UNLOAD | MOD_other

text \<open>\<open>made\<close> is what \<open>make_dev_p\<close> returns; the allocation may sleep and cannot fail.\<close>

definition echo_loader :: "mod_event \<Rightarrow> outcome \<Rightarrow> echo \<Rightarrow> fault + int result \<times> echo" where
  "echo_loader what made s =
     (case what of
        MOD_LOAD \<Rightarrow>
          (case made of
             Some e \<Rightarrow> Inr (Inl e, s)
           | None \<Rightarrow> Inr (Inr 0, s\<lparr>echo_dev := True, echomsg := Some \<lparr>msg = replicate 256 0, len = 0\<rparr>\<rparr>))
      | MOD_UNLOAD \<Rightarrow>
          if echo_dev s then Inr (Inr 0, s\<lparr>echo_dev := False, echomsg := None\<rparr>) else Inl BadRelease
      | MOD_other \<Rightarrow> Inr (Inl EOPNOTSUPP, s))"

definition echo_open :: "int result" where "echo_open = Inr 0"
definition echo_close :: "int result" where "echo_close = Inr 0"

subsection \<open>Read and write\<close>

text \<open>A read copies from the start of the message, whatever the offset.\<close>

definition echo_read :: "mover \<Rightarrow> uio \<Rightarrow> s_echo \<Rightarrow> fault + int result \<times> u8 list \<times> uio" where
  "echo_read mv u m =
     (let amt = nat (min (int (uio_resid u))
            (if uio_offset u \<ge> len m + 1 then 0 else len m + 1 - uio_offset u)) in
      if length (msg m) < amt then Inl OutOfBounds
      else let (k, error) = mv amt
           in Inr (outcome_result error, take k (msg m), uio_advance k u))"

text \<open>\<open>data\<close> are the user's bytes: the request's residue is their number.\<close>

definition echo_write :: "mover \<Rightarrow> u8 list \<Rightarrow> uio \<Rightarrow> s_echo \<Rightarrow> fault + int result \<times> uio \<times> s_echo" where
  "echo_write mv data u m =
     (if uio_offset u \<noteq> 0 \<and> uio_offset u \<noteq> len m then Inr (Inl EINVAL, u, m)
      else
        let m = (if uio_offset u = 0 then m\<lparr>len := 0\<rparr> else m);
            amt = min (int (length data)) (BUFFERSIZE - len m);
            off = nat (uio_offset u) in
        if amt < 0 then Inl OutOfBounds
        else
          let (k, error) = mv (nat amt) in
          if length (msg m) < off + k then Inl OutOfBounds
          else
            let m = m\<lparr>msg := overwrite (msg m) off (take k data)\<rparr>;
                u = uio_advance k u;
                m = m\<lparr>len := uio_offset u\<rparr>
            in seq (array_set (msg m) (nat (len m)) 0) (\<lambda>b.
                 Inr (outcome_result error, u, m\<lparr>msg := b\<rparr>)))"

text \<open>The same on the module's state: the pointer is followed without a test.\<close>

definition with_echomsg :: "echo \<Rightarrow> (s_echo \<Rightarrow> fault + 'a) \<Rightarrow> fault + 'a" where
  "with_echomsg s f = (case echomsg s of None \<Rightarrow> Inl NullDeref | Some m \<Rightarrow> f m)"

subsection \<open>Requests as events\<close>

datatype echo_op = Echo_write mover "u8 list" int | Echo_read mover nat int

text \<open>What a request returns: result, bytes delivered, new offset.\<close>

type_synonym echo_out = "fault + int result \<times> u8 list \<times> int"

fun echo_step :: "echo_op \<Rightarrow> s_echo \<Rightarrow> echo_out \<times> s_echo" where
  "echo_step (Echo_write mv data off) m =
     (case echo_write mv data \<lparr>uio_resid = length data, uio_offset = off\<rparr> m of
        Inl f \<Rightarrow> (Inl f, m)
      | Inr (r, u, m') \<Rightarrow> (Inr (r, [], uio_offset u), m'))"
| "echo_step (Echo_read mv resid off) m =
     (case echo_read mv \<lparr>uio_resid = resid, uio_offset = off\<rparr> m of
        Inl f \<Rightarrow> (Inl f, m)
      | Inr (r, bs, u) \<Rightarrow> (Inr (r, bs, uio_offset u), m))"

subsection \<open>The abstract device: a byte string of at most 255 bytes\<close>

fun string_step :: "echo_op \<Rightarrow> u8 list \<Rightarrow> echo_out \<times> u8 list" where
  "string_step (Echo_write mv data off) a =
     (if off \<noteq> 0 \<and> off \<noteq> int (length a) then (Inr (Inl EINVAL, [], off), a)
      else let a0 = (if off = 0 then [] else a);
               (k, error) = mv (min (length data) (255 - length a0));
               a' = a0 @ take k data
           in (Inr (outcome_result error, [], int (length a0 + k)), a'))"
| "string_step (Echo_read mv resid off) a =
     (let rest = drop (nat off) (a @ [0]);
          (k, error) = mv (min resid (length rest))
      in (Inr (outcome_result error, take k rest, off + int k), a))"

definition echo_string :: "s_echo \<Rightarrow> u8 list" where
  "echo_string m = take (nat (len m)) (msg m)"

definition echo_inv :: "s_echo \<Rightarrow> bool" where
  "echo_inv m \<longleftrightarrow> length (msg m) = 256 \<and> 0 \<le> len m \<and> len m \<le> 255 \<and> msg m ! nat (len m) = 0"

text \<open>Requests the device serves as the abstract one does: writes at any offset, reads from the start
  or from past any message.\<close>

fun echo_ok :: "echo_op \<Rightarrow> bool" where
  "echo_ok (Echo_write mv data off) \<longleftrightarrow> mover_ok mv \<and> 0 \<le> off"
| "echo_ok (Echo_read mv resid off) \<longleftrightarrow> mover_ok mv \<and> (off = 0 \<or> 256 \<le> off)"

subsection \<open>Refinement\<close>

lemma mover_le: "mover_ok mv \<Longrightarrow> mv n = (k, e) \<Longrightarrow> k \<le> n"
  by (metis fst_conv mover_ok_def)

lemma echo_string_nul: "echo_inv m \<Longrightarrow> take (nat (len m) + 1) (msg m) = echo_string m @ [0]"
  using take_Suc_conv_app_nth [of "nat (len m)" "msg m"] by (auto simp: echo_inv_def echo_string_def)

lemma echo_write_sim:
  assumes inv: "echo_inv m" and ok: "mover_ok mv" "0 \<le> off"
  shows "fst (echo_step (Echo_write mv data off) m) = fst (string_step (Echo_write mv data off) (echo_string m)) \<and>
    echo_string (snd (echo_step (Echo_write mv data off) m)) =
      snd (string_step (Echo_write mv data off) (echo_string m)) \<and>
    echo_inv (snd (echo_step (Echo_write mv data off) m))"
proof -
  define n where "n = nat (len m)"
  have n: "len m = int n" "n \<le> 255" "length (msg m) = 256" using inv by (auto simp: n_def echo_inv_def)
  have len: "length (echo_string m) = n" using n by (simp add: echo_string_def)
  show ?thesis
  proof (cases "off \<noteq> 0 \<and> off \<noteq> int n")
    case True
    then show ?thesis using inv len n by (simp add: echo_write_def)
  next
    case False
    define p where "p = (if off = 0 then 0 else n)"
    have p: "off = int p" "p \<le> 255" using False n by (auto simp: p_def)
    define amt where "amt = min (length data) (255 - p)"
    obtain k e where mv: "mv amt = (k, e)" by fastforce
    then have k: "k \<le> amt" using mover_le [OF ok(1)] by blast
    then have kb: "p + k \<le> 255" "k \<le> length data" using p(2) unfolding amt_def by linarith+
    define b where "b = (overwrite (msg m) p (take k data))[p + k := 0]"
    have ta: "nat (min (int (length data)) (255 - int p)) = amt" using p(2) by (simp add: amt_def)
    have step: "echo_write mv data \<lparr>uio_resid = length data, uio_offset = off\<rparr> m =
        Inr (outcome_result e, \<lparr>uio_resid = length data - k, uio_offset = int (p + k)\<rparr>,
             m\<lparr>msg := b, len := int (p + k)\<rparr>)"
    proof -
      have pos: "\<not> min (int (length data)) (255 - int p) < 0" using p(2) by simp
      have c: "\<not> (off \<noteq> 0 \<and> off \<noteq> len m)" using False n by simp
      have reset: "(if off = 0 then m\<lparr>len := 0\<rparr> else m) = m\<lparr>len := int p\<rparr>"
        using n by (cases m) (simp add: p_def)
      have off: "nat off = p" "\<not> length (msg m) < p + k" using p n kb by simp_all
      have sum: "off + int k = int (p + k)" "nat (int (p + k)) = p + k" using p(1) by simp_all
      have "p + k < length (overwrite (msg m) p (take k data))" using n kb by simp
      note set = array_set_in [OF this]
      obtain b0 l where m: "m = \<lparr>msg = b0, len = l\<rparr>" by (cases m)
      show ?thesis
        unfolding echo_write_def Let_def uio.simps reset BUFFERSIZE_def uio_advance_def
        unfolding m
        by (simp only: s_echo.simps c [unfolded m s_echo.simps] off [unfolded m s_echo.simps]
            pos if_False ta mv prod.case sum set [unfolded m s_echo.simps] seq_simps
            b_def [unfolded m s_echo.simps] uio.simps)
    qed
    have lb: "length b = 256" using n kb by (simp add: b_def)
    have "take (p + k) b = take p (msg m) @ take k data"
      using n kb by (simp add: b_def overwrite_def)
    moreover have "take p (msg m) = (if off = 0 then [] else echo_string m)"
      using p n by (auto simp: p_def echo_string_def)
    moreover have "nat (len (m\<lparr>msg := b, len := int (p + k)\<rparr>)) = p + k" by (simp del: of_nat_add)
    then have "echo_string (m\<lparr>msg := b, len := int (p + k)\<rparr>) = take (p + k) b"
      unfolding echo_string_def by simp
    ultimately have str: "echo_string (m\<lparr>msg := b, len := int (p + k)\<rparr>) =
        (if off = 0 then [] else echo_string m) @ take k data"
      by simp
    have "echo_inv (m\<lparr>msg := b, len := int (p + k)\<rparr>)"
      using lb kb n by (simp add: echo_inv_def b_def nat_int_add)
    moreover have "length (if off = 0 then [] else echo_string m) = p" using len p by (simp add: p_def)
    ultimately show ?thesis
      using step str False len mv p by (auto simp: amt_def Let_def)
  qed
qed

lemma echo_read_sim:
  assumes inv: "echo_inv m" and ok: "mover_ok mv" "off = 0 \<or> 256 \<le> off"
  shows "fst (echo_step (Echo_read mv resid off) m) = fst (string_step (Echo_read mv resid off) (echo_string m)) \<and>
    snd (echo_step (Echo_read mv resid off) m) = m"
proof -
  define n where "n = nat (len m)"
  have n: "len m = int n" "n \<le> 255" "length (msg m) = 256" using inv by (auto simp: n_def echo_inv_def)
  have len: "length (echo_string m) = n" using n by (simp add: echo_string_def)
  define rest where "rest = drop (nat off) (echo_string m @ [0])"
  have rest: "length rest \<le> 256" "off = 0 \<Longrightarrow> rest = take (n + 1) (msg m)" "256 \<le> off \<Longrightarrow> rest = []"
    using echo_string_nul [OF inv] n len by (simp_all add: rest_def)
  have amt: "nat (min (int resid) (if off \<ge> len m + 1 then 0 else len m + 1 - off)) = min resid (length rest)"
    using ok(2) rest n by auto
  obtain k e where mv: "mv (min resid (length rest)) = (k, e)" by fastforce
  then have k: "k \<le> length rest" using mover_le [OF ok(1)] by fastforce
  have "take k (msg m) = take k rest"
    using ok(2) rest k n by (auto simp: min_def split: if_splits)
  moreover have "\<not> length (msg m) < min resid (length rest)" using rest(1) n by simp
  ultimately have step: "echo_read mv \<lparr>uio_resid = resid, uio_offset = off\<rparr> m =
      Inr (outcome_result e, take k rest, \<lparr>uio_resid = resid - k, uio_offset = off + int k\<rparr>)"
    unfolding echo_read_def Let_def uio.simps amt by (simp add: mv uio_advance_def)
  show ?thesis
    by (simp only: echo_step.simps string_step.simps step Let_def rest_def [symmetric] mv
        prod.case sum.case fst_conv snd_conv uio.simps)
qed

interpretation echo_dev: refined_machine echo_step string_step echo_string echo_ok echo_inv
proof unfold_locales
  fix m :: s_echo and e assume a: "echo_inv m" "echo_ok e"
  have "fst (echo_step e m) = fst (string_step e (echo_string m)) \<and>
    echo_string (snd (echo_step e m)) = snd (string_step e (echo_string m)) \<and>
    echo_inv (snd (echo_step e m))"
  proof (cases e)
    case (Echo_write mv data off)
    then show ?thesis using a echo_write_sim [of m mv off data] by simp
  next
    case (Echo_read mv resid off)
    moreover have "snd (string_step (Echo_read mv resid off) a) = a" for a
      by (simp add: Let_def case_prod_unfold)
    ultimately show ?thesis
      using a echo_read_sim [of m mv off resid]
      by (simp del: echo_step.simps string_step.simps)
  qed
  then show "fst (echo_step e m) = fst (string_step e (echo_string m))"
    "echo_string (snd (echo_step e m)) = snd (string_step e (echo_string m))"
    "echo_inv (snd (echo_step e m))" by blast+
qed
text \<open>C23 (refinement). Over any sequence of writes at any offset and reads from the start or from
  past any message, whatever part of each request reaches memory, the device answers exactly as the
  abstract byte string does (results, bytes and offsets), never leaves its buffer, and ends with
  that string as its null-terminated message.\<close>

theorem echo_refines_string:
  assumes "echo_inv m" and "list_all echo_ok es"
  shows "fst (outputs echo_step es m) = fst (outputs string_step es (echo_string m)) \<and>
     echo_string (snd (outputs echo_step es m)) = snd (outputs string_step es (echo_string m)) \<and>
     echo_inv (snd (outputs echo_step es m)) \<and>
     (\<forall>out \<in> set (fst (outputs echo_step es m)). \<exists>v. out = Inr v)"
proof -
  have inr: "\<exists>v. out = Inr v" if "out \<in> set (fst (outputs string_step es a))" for out a
    using that
  proof (induction es arbitrary: a)
    case (Cons e es)
    have "\<exists>v. fst (string_step e a) = Inr v" by (cases e) (simp_all add: Let_def case_prod_unfold)
    then show ?case using Cons by (auto simp: Let_def case_prod_unfold)
  qed simp
  show ?thesis using echo_dev.run_refines [OF assms] inr by auto
qed

definition echo_empty :: s_echo where
  "echo_empty = \<lparr>msg = replicate 256 0, len = 0\<rparr>"

lemma echo_empty_inv: "echo_inv echo_empty"
  by (simp add: echo_inv_def echo_empty_def)

lemma echo_string_empty: "echo_string echo_empty = []"
  by (simp add: echo_string_def echo_empty_def)

theorem echo_refines_string_witness:
  "fst (outputs echo_step [Echo_write move_all [104, 105] 0, Echo_write move_all [33] 2, Echo_read move_all 10 0]
      echo_empty) =
     [Inr (Inr 0, [], 2), Inr (Inr 0, [], 3), Inr (Inr 0, [104, 105, 33, 0], 4)]"
proof -
  let ?es = "[Echo_write move_all [104, 105] 0, Echo_write move_all [33] 2, Echo_read move_all 10 0]"
  have "list_all echo_ok ?es" by simp
  from echo_refines_string [OF echo_empty_inv this] show ?thesis
    by (simp add: echo_string_empty move_all_def Let_def del: echo_step.simps)
qed

text \<open>Further (error). A read that does not start at offset 0 returns bytes from the start of the message
  again: reading a message in two parts, \<open>n\<close> bytes and then the rest, repeats its beginning
  instead of delivering its end.\<close>

theorem echo_second_read_repeats:
  assumes "echo_inv m" and "n \<le> nat (len m)"
  shows "\<exists>u. echo_read move_all \<lparr>uio_resid = n, uio_offset = 0\<rparr> m =
       Inr (Inr 0, take n (echo_string m @ [0]), u) \<and> uio_offset u = int n \<and>
     (\<exists>u'. echo_read move_all \<lparr>uio_resid = 256, uio_offset = uio_offset u\<rparr> m =
       Inr (Inr 0, take (nat (len m) + 1 - n) (echo_string m @ [0]), u'))"
proof -
  have l: "0 \<le> len m" "len m \<le> 255" "length (msg m) = 256" using assms(1) by (auto simp: echo_inv_def)
  have t: "take k (echo_string m @ [0]) = take k (msg m)" if "k \<le> nat (len m) + 1" for k
    using echo_string_nul [OF assms(1)] that by (metis min.absorb1 take_take)
  have "nat (min (int n) (len m + 1)) = n" "nat (min 256 (len m + 1 - int n)) = nat (len m) + 1 - n"
    using assms(2) l by auto
  moreover have "\<not> len m + 1 \<le> int n" "\<not> len m + 1 \<le> 0" using assms(2) l by auto
  ultimately show ?thesis
    using assms(2) l t [of n] t [of "nat (len m) + 1 - n"]
    by (simp add: echo_read_def Let_def move_all_def uio_advance_def)
qed

definition echo_hello :: s_echo where
  "echo_hello = \<lparr>msg = [104, 101, 108, 108, 111] @ replicate 251 0, len = 5\<rparr>"

theorem echo_second_read_repeats_witness:
  "\<exists>u. echo_read move_all \<lparr>uio_resid = 256, uio_offset = 3\<rparr> echo_hello = Inr (Inr 0, [104, 101, 108], u)"
proof -
  have "echo_inv echo_hello" "(3 :: nat) \<le> nat (len echo_hello)"
    by (simp_all add: echo_inv_def echo_hello_def)
  from echo_second_read_repeats [OF this] show ?thesis
    by (auto simp: echo_hello_def echo_string_def)
qed

text \<open>Loading publishes an empty message and unloading takes it away; any other event is refused.\<close>

lemma echo_load_unload:
  assumes "echo_dev s = False"
  shows "\<exists>s'. echo_loader MOD_LOAD None s = Inr (Inr 0, s') \<and> echomsg s' = Some echo_empty \<and>
     (\<exists>s''. echo_loader MOD_UNLOAD None s' = Inr (Inr 0, s'') \<and> echomsg s'' = None \<and> \<not> echo_dev s'')"
    and "echo_loader MOD_other made s = Inr (Inl EOPNOTSUPP, s)"
    and "echo_loader MOD_LOAD (Some e) s = Inr (Inl e, s)"
  using assms by (simp_all add: echo_loader_def echo_empty_def)

end
