(* ===== verification/Small_Modules.thy ===== *)
theory Small_Modules
  imports Echo
begin

text \<open>
  The small modules: the MIPS coprocessor driver (\<open>coprocessor/cp0/cp0.c\<close>), the FreeBSD skeleton
  (\<open>skeleton/skeleton.c\<close>) and the first module (\<open>hello/driver/hello.c\<close>).  The register file of
  coprocessor 0 is an argument; what the driver core is told is the state.
\<close>

subsection \<open>The attribute of coprocessor 0\<close>

text \<open>\<open>%x\<close> of \<open>sprintf\<close>.\<close>

definition hex_digit :: "nat \<Rightarrow> char" where
  "hex_digit d = ''0123456789abcdef'' ! d"

fun hex_digits :: "nat \<Rightarrow> string" where
  "hex_digits n = (if n < 16 then [hex_digit n] else hex_digits (n div 16) @ [hex_digit (n mod 16)])"

declare hex_digits.simps [simp del]

definition cp0_text :: "u32 \<Rightarrow> string" where
  "cp0_text value = ''cp0($12, 0) = 0x'' @ hex_digits (unat value) @ [CHR 0x0A]"

text \<open>\<open>cp0 r s\<close> is the contents of register \<open>r\<close>, selection \<open>s\<close>; the result is the text and its length.\<close>

definition cp0_show :: "(nat \<Rightarrow> nat \<Rightarrow> u32) \<Rightarrow> string \<times> int" where
  "cp0_show cp0 = (let value = cp0 12 0; buf = cp0_text value in (buf, int (length buf)))"

text \<open>The driver's log grows by the same text; the bytes written are not looked at.\<close>

definition cp0_store :: "(nat \<Rightarrow> nat \<Rightarrow> u32) \<Rightarrow> string \<Rightarrow> string list \<Rightarrow> int \<times> string list" where
  "cp0_store cp0 buf log = (let value = cp0 12 0 in (int (length buf), log @ [cp0_text value]))"

subsection \<open>Loading the coprocessor driver\<close>

record cp0_core =
  cp0_device :: bool   \<comment> \<open>the platform device is registered\<close>
  cp0_driver :: bool   \<comment> \<open>the platform driver is registered\<close>
  cp0_attr :: bool     \<comment> \<open>the attribute file exists\<close>

definition cp0_probe :: "outcome \<Rightarrow> cp0_core \<Rightarrow> int result \<times> cp0_core" where
  "cp0_probe created s = (outcome_result created, if failed created then s else s\<lparr>cp0_attr := True\<rparr>)"

text \<open>The driver core probes when device and driver of one name are both registered.\<close>

definition cp0_entry :: "outcome \<Rightarrow> outcome \<Rightarrow> outcome \<Rightarrow> cp0_core \<Rightarrow> int result \<times> cp0_core" where
  "cp0_entry dev_reg drv_reg created s =
     (let s = (if failed dev_reg then s else s\<lparr>cp0_device := True\<rparr>) in
      (outcome_result drv_reg,
       if failed drv_reg then s
       else let s = s\<lparr>cp0_driver := True\<rparr>
            in if cp0_device s then snd (cp0_probe created s) else s))"

definition cp0_exit :: "cp0_core \<Rightarrow> cp0_core" where
  "cp0_exit s = s"

subsection \<open>The skeleton and the first module\<close>

definition skel_loader :: "mod_event \<Rightarrow> int result" where
  "skel_loader what = (case what of MOD_LOAD \<Rightarrow> Inr 0 | MOD_UNLOAD \<Rightarrow> Inr 0 | MOD_other \<Rightarrow> Inl EOPNOTSUPP)"

definition hello_module_init :: "string list \<Rightarrow> int result \<times> string list" where
  "hello_module_init log = (Inr 0, log @ [''Hello, Mini2440 module is installed !''])"

definition hello_module_clean :: "string list \<Rightarrow> string list" where
  "hello_module_clean log = log @ [''Good-bye, hello module was removed !'']"

subsection \<open>Correctness\<close>

definition hex_digit_value :: "char \<Rightarrow> nat" where
  "hex_digit_value c = (if c \<in> set ''0123456789'' then of_char c - 48 else of_char c - 87)"

definition hex_value :: "string \<Rightarrow> nat" where
  "hex_value cs = foldl (\<lambda>n c. 16 * n + hex_digit_value c) 0 cs"

lemma hex_digit_value_digit: "d < 16 \<Longrightarrow> hex_digit_value (hex_digit d) = d"
proof -
  assume "d < 16"
  then have "d \<in> set [0..<16]" by simp
  moreover have "list_all (\<lambda>d. hex_digit_value (hex_digit d) = d) [0..<16]" by code_simp
  ultimately show ?thesis unfolding list_all_iff by blast
qed

lemma hex_value_digits: "hex_value (hex_digits n) = n"
proof (induction n rule: hex_digits.induct)
  case (1 n)
  show ?case
  proof (cases "n < 16")
    case True
    then show ?thesis by (subst hex_digits.simps) (simp add: hex_value_def hex_digit_value_digit)
  next
    case False
    then show ?thesis using 1
      by (subst hex_digits.simps) (simp add: hex_value_def hex_digit_value_digit)
  qed
qed

lemma length_hex_digits: "n < 16 ^ Suc k \<Longrightarrow> length (hex_digits n) \<le> Suc k"
proof (induction k arbitrary: n)
  case 0
  then show ?case by (subst hex_digits.simps) simp
next
  case (Suc k)
  then have "n div 16 < 16 ^ Suc k" by (simp add: less_mult_imp_div_less mult.commute)
  with Suc.IH [of "n div 16"] show ?case by (subst hex_digits.simps) simp
qed

text \<open>Further (roundtrip). The text of the attribute is at most 25 bytes long, and the hexadecimal number
  in it is the contents of register 12, selection 0, in full; writing to the attribute reports all
  bytes as taken, whatever they are.\<close>

theorem cp0_show_value:
  "fst (cp0_show cp0) = ''cp0($12, 0) = 0x'' @ butlast (drop 16 (fst (cp0_show cp0))) @ [CHR 0x0A] \<and>
   hex_value (butlast (drop 16 (fst (cp0_show cp0)))) = unat (cp0 12 0) \<and>
   snd (cp0_show cp0) = int (length (fst (cp0_show cp0))) \<and> snd (cp0_show cp0) \<le> 25 \<and>
   fst (cp0_store cp0 buf log) = int (length buf)"
proof -
  have "unat (cp0 12 0) < 16 ^ Suc 7" using unat_lt_u32 [of "cp0 12 0"] by simp
  from length_hex_digits [OF this] show ?thesis
    by (simp add: cp0_show_def cp0_store_def cp0_text_def Let_def hex_value_digits)
qed

text \<open>Further (error). The result of loading is that of registering the driver alone, so a load whose
  device could not be registered reports success and has no attribute; unloading gives nothing
  back.\<close>

theorem cp0_entry_exit:
  "cp0_entry (Some e) None created \<lparr>cp0_device = False, cp0_driver = False, cp0_attr = False\<rparr> =
     (Inr 0, \<lparr>cp0_device = False, cp0_driver = True, cp0_attr = False\<rparr>) \<and>
   cp0_entry None None None s = (Inr 0, \<lparr>cp0_device = True, cp0_driver = True, cp0_attr = True\<rparr>) \<and>
   cp0_entry dev_reg (Some e) created s =
     (Inl e, if dev_reg = None then s\<lparr>cp0_device := True\<rparr> else s) \<and>
   cp0_exit (snd (cp0_entry None None None s)) = \<lparr>cp0_device = True, cp0_driver = True, cp0_attr = True\<rparr>"
  by (cases s; cases dev_reg) (simp_all add: cp0_entry_def cp0_probe_def cp0_exit_def)

end
