(* ===== verification/Completion.thy ===== *)
theory Completion
  imports Kernel_Api
begin

text \<open>
  The completion test driver (\<open>completion/driver/completion_test.c\<close>) and its client
  (\<open>completion/app/completion_app_test.c\<close>).  A write copies into a 128-byte buffer at
  \<open>write_index\<close> and completes; a read waits for a completion and copies out at \<open>read_index\<close>.  Both
  take the caller's count unchecked, so a copy may run past the buffer.
\<close>

subsection \<open>The driver\<close>

definition BUFFER_SIZE :: nat where "BUFFER_SIZE = 128"

text \<open>\<open>comp_done\<close> is the count inside the kernel's completion; it saturates nowhere the driver can
  reach.\<close>

record completion =
  comp_done :: nat
  completion_buffer :: "u8 list"
  read_index :: u32
  write_index :: u32
  comp_held :: ledger

definition wait_for_completion :: "completion \<Rightarrow> fault + completion" where
  "wait_for_completion s =
     (if comp_done s = 0 then Inl Blocked else Inr (s\<lparr>comp_done := comp_done s - 1\<rparr>))"

definition complete :: "completion \<Rightarrow> completion" where
  "complete s = s\<lparr>comp_done := comp_done s + 1\<rparr>"

definition next_index :: "u32 \<Rightarrow> u32 \<Rightarrow> u32" where
  "next_index i cnt = (let i = i + cnt in if 128 \<le> i then i mod 128 else i)"

definition completion_read ::
    "uaccess \<Rightarrow> u32 \<Rightarrow> completion \<Rightarrow> fault + int result \<times> u8 list \<times> completion" where
  "completion_read ua cnt s =
     seq (wait_for_completion s) (\<lambda>s.
       let i = unat (read_index s); n = unat cnt; buf = completion_buffer s in
       if length buf < i + n then Inl OutOfBounds
       else let (bs, r) = to_user ua (take n (drop i buf));
                s = (if r \<noteq> 0 then s else s\<lparr>read_index := next_index (read_index s) cnt\<rparr>)
            in Inr (Inr (int n), bs, s))"

text \<open>\<open>ubuf\<close> are the bytes at the user's address, as many as the count.\<close>

definition completion_write ::
    "uaccess \<Rightarrow> u8 list \<Rightarrow> completion \<Rightarrow> fault + int result \<times> completion" where
  "completion_write ua ubuf s =
     (let cnt = of_nat (length ubuf) :: u32; i = unat (write_index s) in
      if length (completion_buffer s) < i + length ubuf then Inl OutOfBounds
      else let (bs, r) = from_user ua ubuf;
               s = s\<lparr>completion_buffer := overwrite (completion_buffer s) i bs\<rparr>;
               s = (if r \<noteq> 0 then s else s\<lparr>write_index := next_index (write_index s) cnt\<rparr>)
           in Inr (Inr (int (length ubuf)), complete s))"

definition complete_init :: "outcome \<Rightarrow> completion \<Rightarrow> int result \<times> completion" where
  "complete_init err s =
     (outcome_result err, if failed err then s else s\<lparr>comp_held := take_res Misc_dev (comp_held s)\<rparr>)"

text \<open>A failure of \<open>misc_deregister\<close> is only logged.\<close>

definition complete_cleanup :: "outcome \<Rightarrow> completion \<Rightarrow> fault + completion" where
  "complete_cleanup err s =
     (if failed err then Inr s else seq (give_res Misc_dev (comp_held s)) (\<lambda>l. Inr (s\<lparr>comp_held := l\<rparr>)))"

text \<open>The static state before any request.\<close>

definition completion_zero :: completion where
  "completion_zero = \<lparr>comp_done = 0, completion_buffer = replicate 128 0, read_index = 0,
     write_index = 0, comp_held = {#}\<rparr>"

subsection \<open>The client\<close>

text \<open>\<open>work hard with a good luck\<close> with its terminator: 27 bytes.\<close>

definition write_buf :: "u8 list" where
  "write_buf = [119, 111, 114, 107, 32, 104, 97, 114, 100, 32, 119, 105, 116, 104, 32, 97, 32,
     103, 111, 111, 100, 32, 108, 117, 99, 107, 0]"

text \<open>One run of the client: the child, when there is one, writes, the parent's read waits for it; the
  parent's output is the string up to its null byte.\<close>

definition completion_main :: "bool \<Rightarrow> bool \<Rightarrow> completion \<Rightarrow> fault + u8 list option \<times> completion" where
  "completion_main opened forked s =
     (if \<not> opened then Inr (None, s)
      else seq (if forked then completion_write uaccess_mapped write_buf s else Inr (Inr 0, s)) (\<lambda>(n, s).
           seq (completion_read uaccess_mapped 27 s) (\<lambda>(r, bs, s).
             let read_buf = overwrite (replicate 4096 0) 0 bs in
             case r of
               Inl _ \<Rightarrow> Inl OutOfBounds
             | Inr n \<Rightarrow> seq (array_set read_buf (nat n) 0) (\<lambda>read_buf.
                 Inr (Some (takeWhile (\<lambda>c. c \<noteq> 0) read_buf), s)))))"

subsection \<open>Order of delivery\<close>

text \<open>A writer's and a reader's call on the device, and what reads return over a sequence of calls.\<close>

datatype completion_call = Send "u8 list" | Receive u32

fun deliver :: "completion_call list \<Rightarrow> completion \<Rightarrow> fault + u8 list list \<times> completion" where
  "deliver [] s = Inr ([], s)"
| "deliver (Send xs # cs) s = seq (completion_write uaccess_mapped xs s) (\<lambda>(r, s). deliver cs s)"
| "deliver (Receive n # cs) s =
     seq (completion_read uaccess_mapped n s) (\<lambda>(r, bs, s).
     seq (deliver cs s) (\<lambda>(bss, s). Inr (bs # bss, s)))"

text \<open>The abstract device is a queue of messages.  A call is admissible if a message written ends
  before the end of the ring and leaves the bytes not yet read alone, and a reader asks, for a
  message that is there, for its length; \<open>i\<close> is where in the ring the oldest byte lies.\<close>

fun admissible :: "nat \<Rightarrow> u8 list list \<Rightarrow> completion_call list \<Rightarrow> bool" where
  "admissible i q [] \<longleftrightarrow> True"
| "admissible i q (Send xs # cs) \<longleftrightarrow>
     (i + length (concat q)) mod 128 + length xs \<le> 128 \<and> length (concat q) + length xs \<le> 128 \<and>
     admissible i (q @ [xs]) cs"
| "admissible i q (Receive n # cs) \<longleftrightarrow>
     q \<noteq> [] \<and> unat n = length (hd q) \<and> admissible ((i + length (hd q)) mod 128) (tl q) cs"

fun queued :: "u8 list list \<Rightarrow> completion_call list \<Rightarrow> u8 list list \<times> u8 list list" where
  "queued q [] = ([], q)"
| "queued q (Send xs # cs) = queued (q @ [xs]) cs"
| "queued q (Receive n # cs) = (let (out, q') = queued (tl q) cs in (hd q # out, q'))"

text \<open>Whole messages lie in the ring one after the other from \<open>i\<close> on.\<close>

fun uncrossed :: "nat \<Rightarrow> u8 list list \<Rightarrow> bool" where
  "uncrossed i [] \<longleftrightarrow> True"
| "uncrossed i (xs # q) \<longleftrightarrow> i + length xs \<le> 128 \<and> uncrossed ((i + length xs) mod 128) q"

definition ring_holds :: "u8 list \<Rightarrow> nat \<Rightarrow> u8 list \<Rightarrow> bool" where
  "ring_holds buf i bs \<longleftrightarrow> length buf = 128 \<and> length bs \<le> 128 \<and> (\<forall>k < length bs. buf ! ((i + k) mod 128) = bs ! k)"

definition ring_of :: "u8 list list \<Rightarrow> completion \<Rightarrow> bool" where
  "ring_of q s \<longleftrightarrow> comp_done s = length q \<and> ring_holds (completion_buffer s) (unat (read_index s)) (concat q) \<and>
     uncrossed (unat (read_index s)) q \<and> unat (read_index s) < 128 \<and>
     unat (write_index s) = (unat (read_index s) + length (concat q)) mod 128"

lemma next_index_nat:
  assumes "unat i + unat n \<le> 128"
  shows "unat (next_index i n) = (unat i + unat n) mod 128"
proof -
  have "unat (i + n) = unat i + unat n" using assms by (simp add: unat_word_ariths)
  then show ?thesis using assms
    by (auto simp: next_index_def Let_def word_le_nat_alt unat_mod)
qed

lemma completion_write_in:
  assumes "unat (write_index s) + length xs \<le> length (completion_buffer s)"
  shows "completion_write uaccess_mapped xs s =
    Inr (Inr (int (length xs)), s\<lparr>comp_done := comp_done s + 1,
       completion_buffer := overwrite (completion_buffer s) (unat (write_index s)) xs,
       write_index := next_index (write_index s) (of_nat (length xs))\<rparr>)"
  using assms by (simp add: completion_write_def complete_def uaccess_mapped_def Let_def)

lemma completion_read_in:
  assumes "0 < comp_done s" and "unat (read_index s) + unat n \<le> length (completion_buffer s)"
  shows "completion_read uaccess_mapped n s =
    Inr (Inr (int (unat n)), take (unat n) (drop (unat (read_index s)) (completion_buffer s)),
       s\<lparr>comp_done := comp_done s - 1, read_index := next_index (read_index s) n\<rparr>)"
  using assms
  by (simp add: completion_read_def wait_for_completion_def uaccess_mapped_def Let_def)

text \<open>Two bytes less than a whole ring apart are different bytes of it.\<close>

lemma ring_distinct:
  assumes "k < m" and "m < k + 128"
  shows "(i + k) mod 128 \<noteq> (i + m) mod (128 :: nat)"
proof
  assume "(i + k) mod 128 = (i + m) mod 128"
  then have "128 dvd (i + m) - (i + k)" using mod_eq_dvd_iff_nat [of "i + k" "i + m" 128] assms(1) by simp
  then show False using assms by (auto dest: dvd_imp_le)
qed

lemma mod_run: "w + j < 128 \<Longrightarrow> w = (i + n) mod 128 \<Longrightarrow> w + j = (i + (n + j)) mod (128 :: nat)"
  by (metis add.assoc mod_add_left_eq mod_less)

lemma ring_write:
  assumes "ring_holds buf i bs" and "w = (i + length bs) mod 128"
    and "w + length xs \<le> 128" and "length bs + length xs \<le> 128"
  shows "ring_holds (overwrite buf w xs) i (bs @ xs)"
proof -
  have len: "length buf = 128" using assms(1) by (simp add: ring_holds_def)
  have "overwrite buf w xs ! ((i + k) mod 128) = (bs @ xs) ! k" if k: "k < length (bs @ xs)" for k
  proof (cases "k < length bs")
    case True
    have "(i + k) mod 128 \<noteq> w + j" if "j < length xs" for j
      using ring_distinct [of k "length bs + j" i] mod_run [of w j i "length bs"] that True assms(2-4) by simp
    then have "\<not> (w \<le> (i + k) mod 128 \<and> (i + k) mod 128 < w + length xs)"
      by (metis le_Suc_ex nat_add_left_cancel_less)
    then show ?thesis
      using True assms(1,3) len by (auto simp: nth_overwrite nth_append ring_holds_def)
  next
    case False
    then obtain j where j: "k = length bs + j" using le_Suc_ex by (metis not_less)
    then have "j < length xs" using k by simp
    moreover from this have "(i + k) mod 128 = w + j"
      using mod_run [of w j i "length bs"] assms(2,3) j by simp
    ultimately show ?thesis using assms(3) len j by (simp add: nth_overwrite nth_append)
  qed
  then show ?thesis using assms(3,4) len by (simp add: ring_holds_def)
qed

lemma ring_read:
  assumes "ring_holds buf i (xs @ bs)" and "i + length xs \<le> 128"
  shows "take (length xs) (drop i buf) = xs" "ring_holds buf ((i + length xs) mod 128) bs"
proof -
  have h: "length buf = 128" "length xs + length bs \<le> 128"
    "\<And>k. k < length xs + length bs \<Longrightarrow> buf ! ((i + k) mod 128) = (xs @ bs) ! k"
    using assms(1) by (auto simp: ring_holds_def)
  show "take (length xs) (drop i buf) = xs"
  proof (rule nth_equalityI)
    fix k assume "k < length (take (length xs) (drop i buf))"
    then have k: "k < length xs" by simp
    then have "(i + k) mod 128 = i + k" using assms(2) by simp
    then show "take (length xs) (drop i buf) ! k = xs ! k"
      using h(1) h(3) [of k] k assms(2) by (simp add: nth_append)
  qed (use h(1) assms(2) in simp)
  have "buf ! (((i + length xs) mod 128 + k) mod 128) = bs ! k" if "k < length bs" for k
    using h(3) [of "length xs + k"] that by (simp add: nth_append mod_add_left_eq add.assoc)
  then show "ring_holds buf ((i + length xs) mod 128) bs" using h(1,2) by (simp add: ring_holds_def)
qed

lemma uncrossed_append:
  "i < 128 \<Longrightarrow> uncrossed i (q @ [xs]) \<longleftrightarrow>
     uncrossed i q \<and> (i + length (concat q)) mod 128 + length xs \<le> 128"
  by (induction q arbitrary: i) (auto simp: mod_add_left_eq add.assoc)

lemma ring_of_write:
  assumes "ring_of q s" and "(unat (read_index s) + length (concat q)) mod 128 + length xs \<le> 128"
    and "length (concat q) + length xs \<le> 128"
  shows "\<exists>r s'. completion_write uaccess_mapped xs s = Inr (r, s') \<and> ring_of (q @ [xs]) s' \<and>
    read_index s' = read_index s"
proof -
  note q = assms(1) [unfolded ring_of_def]
  have fit: "unat (write_index s) + length xs \<le> 128" using q assms(2) by simp
  then have "completion_write uaccess_mapped xs s =
    Inr (Inr (int (length xs)), s\<lparr>comp_done := comp_done s + 1,
       completion_buffer := overwrite (completion_buffer s) (unat (write_index s)) xs,
       write_index := next_index (write_index s) (of_nat (length xs))\<rparr>)" (is "_ = Inr (_, ?s)")
    using q by (intro completion_write_in) (simp add: ring_holds_def)
  moreover have "unat (write_index ?s) = (unat (read_index s) + length (concat (q @ [xs]))) mod 128"
    using next_index_nat [of "write_index s" "of_nat (length xs)"] fit q by (simp add: mod_add_left_eq add.assoc)
  moreover have "ring_holds (completion_buffer ?s) (unat (read_index s)) (concat (q @ [xs]))"
    using ring_write [of "completion_buffer s" "unat (read_index s)" "concat q" "unat (write_index s)" xs]
      q fit assms(3) by simp
  ultimately show ?thesis
    using q assms(2) uncrossed_append [of "unat (read_index s)" q xs] by (simp add: ring_of_def)
qed

lemma ring_of_read:
  assumes "ring_of (xs # q) s" and "unat n = length xs"
  shows "\<exists>r s'. completion_read uaccess_mapped n s = Inr (r, xs, s') \<and> ring_of q s' \<and>
    unat (read_index s') = (unat (read_index s) + length xs) mod 128"
proof -
  note q = assms(1) [unfolded ring_of_def]
  have fit: "unat (read_index s) + length xs \<le> 128" using q by simp
  note r = ring_read [of "completion_buffer s" "unat (read_index s)" xs "concat q", OF _ fit]
  have "completion_read uaccess_mapped n s = Inr (Inr (int (unat n)), xs,
      s\<lparr>comp_done := comp_done s - 1, read_index := next_index (read_index s) n\<rparr>)" (is "_ = Inr (_, _, ?s)")
    using completion_read_in [of s n] q fit assms(2) r(1) by (simp add: ring_holds_def)
  moreover have "unat (read_index ?s) = (unat (read_index s) + length xs) mod 128"
    using next_index_nat [of "read_index s" n] fit assms(2) by simp
  ultimately show ?thesis
    using q r(2) by (simp add: ring_of_def mod_add_left_eq add.assoc)
qed

lemma deliver_queued:
  "ring_of q s \<Longrightarrow> admissible (unat (read_index s)) q cs \<Longrightarrow>
     \<exists>s'. deliver cs s = Inr (fst (queued q cs), s') \<and> ring_of (snd (queued q cs)) s'"
proof (induction cs arbitrary: q s)
  case (Cons c cs)
  show ?case
  proof (cases c)
    case (Send xs)
    then obtain r s' where "completion_write uaccess_mapped xs s = Inr (r, s')" "ring_of (q @ [xs]) s'"
      "read_index s' = read_index s"
      using ring_of_write [OF Cons.prems(1), of xs] Cons.prems(2) by auto
    then show ?thesis using Cons.IH [of "q @ [xs]" s'] Cons.prems(2) Send by auto
  next
    case (Receive n)
    then obtain xs q' where q: "q = xs # q'" "unat n = length xs"
      using Cons.prems(2) by (cases q) auto
    then obtain r s' where "completion_read uaccess_mapped n s = Inr (r, xs, s')" "ring_of q' s'"
      "unat (read_index s') = (unat (read_index s) + length xs) mod 128"
      using ring_of_read [of xs q' s n] Cons.prems(1) by auto
    then show ?thesis using Cons.IH [of q' s'] Cons.prems(2) Receive q by (auto simp: Let_def case_prod_unfold)
  qed
qed simp

lemma queued_order:
  "fst (queued q cs) @ snd (queued q cs) = q @ concat (map (\<lambda>c. case c of Send xs \<Rightarrow> [xs] | Receive n \<Rightarrow> []) cs)"
  if "admissible i q cs"
  using that by (induction i q cs rule: admissible.induct) (auto simp: Let_def case_prod_unfold)

text \<open>C34 (roundtrip). Messages are delivered whole and in order, round and round the buffer: from an
  empty device, in any sequence of writes and reads in which each message ends before the end of the
  128-byte ring or exactly there, no message is written over bytes that wait to be read, and each
  reader asks for the length of the oldest message, no call faults or waits; what the reads return,
  followed by what is still waiting, is what was written; as many completions are left as messages
  wait, so that after the last of them a read would wait.\<close>

theorem completion_fifo:
  assumes "length (completion_buffer s) = 128" and "comp_done s = 0" and "read_index s = write_index s"
    and "unat (write_index s) < 128" and "admissible (unat (read_index s)) [] cs"
  shows "\<exists>outs waiting s'. deliver cs s = Inr (outs, s') \<and>
     outs @ waiting = concat (map (\<lambda>c. case c of Send xs \<Rightarrow> [xs] | Receive n \<Rightarrow> []) cs) \<and>
     length outs = length (filter (\<lambda>c. case c of Send xs \<Rightarrow> False | Receive n \<Rightarrow> True) cs) \<and>
     comp_done s' = length waiting \<and> unat (read_index s') < 128 \<and> unat (write_index s') < 128 \<and>
     (waiting = [] \<longrightarrow> completion_read ua n s' = Inl Blocked)"
proof -
  have "ring_of [] s" using assms(1-4) by (simp add: ring_of_def ring_holds_def)
  from deliver_queued [OF this assms(5)] obtain s' where
    s': "deliver cs s = Inr (fst (queued [] cs), s')" "ring_of (snd (queued [] cs)) s'" by blast
  have "length (fst (queued q cs)) = length (filter (\<lambda>c. case c of Send xs \<Rightarrow> False | Receive n \<Rightarrow> True) cs)" for q
    by (induction q cs rule: queued.induct) (auto simp: Let_def case_prod_unfold)
  moreover have "waiting = [] \<Longrightarrow> ring_of waiting s' \<Longrightarrow> completion_read ua n s' = Inl Blocked" for waiting
    by (simp add: ring_of_def completion_read_def wait_for_completion_def)
  ultimately show ?thesis
    using s' queued_order [OF assms(5)]
    by (intro exI [of _ "fst (queued [] cs)"] exI [of _ "snd (queued [] cs)"] exI [of _ s'])
      (auto simp: ring_of_def)
qed

text \<open>Two messages of 64 bytes fill the ring; the third starts at its beginning again.\<close>

theorem completion_fifo_witness:
  "\<exists>outs waiting s'. deliver [Send (replicate 64 1), Send (replicate 64 2), Receive 64, Send [3, 4], Receive 64]
       completion_zero = Inr (outs, s') \<and> outs @ waiting = [replicate 64 1, replicate 64 2, [3, 4]] \<and>
     length outs = 2 \<and> comp_done s' = length waiting"
  using completion_fifo [of completion_zero
      "[Send (replicate 64 1), Send (replicate 64 2), Receive 64, Send [3, 4], Receive 64]" uaccess_mapped 0]
  by (auto simp: completion_zero_def)

subsection \<open>The client against the driver\<close>

lemma length_write_buf [simp]: "length write_buf = 27"
  by (simp add: write_buf_def)

lemma write_buf_text: "takeWhile (\<lambda>c. c \<noteq> 0) ((overwrite (replicate 4096 0) 0 write_buf)[27 := 0]) = butlast write_buf"
proof -
  have "(overwrite (replicate 4096 0) 0 write_buf)[27 := 0] = butlast write_buf @ 0 # 0 # replicate 4068 0"
    by (simp add: overwrite_def write_buf_def list_update_append numeral_eq_Suc)
  then show ?thesis by (simp only:) (simp add: write_buf_def)
qed

lemma completion_main_run:
  assumes "length (completion_buffer s) = 128" and "comp_done s = 0" and "read_index s = write_index s"
    and "unat (write_index s) + 27 < 128"
  shows "\<exists>s'. completion_main True True s = Inr (Some (butlast write_buf), s') \<and>
    length (completion_buffer s') = 128 \<and> comp_done s' = 0 \<and> read_index s' = write_index s' \<and>
    unat (write_index s') = unat (write_index s) + 27"
proof -
  define i where "i = unat (write_index s)"
  define s1 where "s1 = s\<lparr>comp_done := comp_done s + 1,
       completion_buffer := overwrite (completion_buffer s) i write_buf,
       write_index := next_index (write_index s) 27\<rparr>"
  define s2 where "s2 = s1\<lparr>comp_done := comp_done s1 - 1, read_index := next_index (read_index s1) 27\<rparr>"
  have w: "completion_write uaccess_mapped write_buf s = Inr (Inr 27, s1)"
    using completion_write_in [of s write_buf] assms by (simp add: s1_def i_def)
  have "take 27 (drop i (overwrite (completion_buffer s) i write_buf)) = write_buf"
    using overwrite_range [of i write_buf "completion_buffer s"] assms by (simp add: i_def)
  then have r: "completion_read uaccess_mapped 27 s1 = Inr (Inr 27, write_buf, s2)"
    using completion_read_in [of s1 27] assms by (simp add: s1_def s2_def i_def)
  have "array_set (overwrite (replicate 4096 0) 0 write_buf) 27 0 =
      Inr ((overwrite (replicate 4096 0) 0 write_buf)[27 := 0 :: u8])"
    by (rule array_set_in) simp
  then have "completion_main True True s = Inr (Some (butlast write_buf), s2)"
    by (simp add: completion_main_def w r write_buf_text)
  moreover have "unat (write_index s2) = unat (write_index s) + 27"
    using next_index_nat [of "write_index s" 27] assms by (simp add: s2_def s1_def)
  ultimately show ?thesis using assms by (simp add: s2_def s1_def i_def)
qed

fun completion_runs :: "nat \<Rightarrow> completion \<Rightarrow> fault + u8 list option list \<times> completion" where
  "completion_runs 0 s = Inr ([], s)"
| "completion_runs (Suc n) s =
     seq (completion_runs n s) (\<lambda>(outs, s).
     seq (completion_main True True s) (\<lambda>(out, s). Inr (outs @ [out], s)))"

lemma completion_runs_ok:
  "n \<le> 4 \<Longrightarrow> \<exists>s'. completion_runs n completion_zero = Inr (replicate n (Some (butlast write_buf)), s') \<and>
    length (completion_buffer s') = 128 \<and> comp_done s' = 0 \<and> read_index s' = write_index s' \<and>
    unat (write_index s') = 27 * n"
proof (induction n)
  case 0
  then show ?case by (simp add: completion_zero_def)
next
  case (Suc n)
  then obtain s' where s': "completion_runs n completion_zero = Inr (replicate n (Some (butlast write_buf)), s')"
    "length (completion_buffer s') = 128" "comp_done s' = 0" "read_index s' = write_index s'"
    "unat (write_index s') = 27 * n" by auto
  with Suc.prems completion_main_run [OF s'(2,3,4)] obtain s'' where
    "completion_main True True s' = Inr (Some (butlast write_buf), s'')"
    "length (completion_buffer s'') = 128" "comp_done s'' = 0" "read_index s'' = write_index s''"
    "unat (write_index s'') = 27 * n + 27" by auto
  then show ?case using s'(1) by (simp add: replicate_append_same)
qed

text \<open>C35 (error). On a freshly loaded driver the client's first four runs each print the text they
  wrote; the fifth run's write starts at index 108 of the 128-byte buffer with 27 bytes to copy and
  runs past its end, for nothing bounds the copy.  A client that could not fork waits for ever.\<close>

theorem completion_fifth_run_overflows:
  "(\<forall>n \<le> 4. \<exists>s'. completion_runs n completion_zero = Inr (replicate n (Some (butlast write_buf)), s')) \<and>
   completion_runs 5 completion_zero = Inl OutOfBounds \<and>
   completion_main True False completion_zero = Inl Blocked"
proof -
  obtain s' where s': "completion_runs 4 completion_zero = Inr (replicate 4 (Some (butlast write_buf)), s')"
    "length (completion_buffer s') = 128" "unat (write_index s') = 108"
    using completion_runs_ok [of 4] by auto
  then have "completion_main True True s' = Inl OutOfBounds"
    by (simp add: completion_main_def completion_write_def)
  moreover have five: "(5 :: nat) = Suc 4" by simp
  ultimately have "completion_runs 5 completion_zero = Inl OutOfBounds"
    unfolding five completion_runs.simps s'(1) by simp
  moreover have "completion_main True False completion_zero = Inl Blocked"
    by (simp add: completion_main_def completion_read_def wait_for_completion_def completion_zero_def)
  ultimately show ?thesis using completion_runs_ok by blast
qed

theorem completion_fifth_run_overflows_witness:
  "\<exists>s'. completion_runs 2 completion_zero = Inr (replicate 2 (Some (butlast write_buf)), s')"
  using completion_fifth_run_overflows by simp

end
