(* ===== verification/Mmap.thy ===== *)
theory Mmap
  imports Kernel_Api
begin

text \<open>
  The mmap test driver (\<open>mmap/driver/mmap_test.c\<close>) and its client (\<open>mmap/app/mmap_unit_test.c\<close>).
  The driver allocates one page and maps it, from its physical address on, over whatever range the
  caller asks for.  Physical memory is a map from addresses to bytes; a mapping is a list of pairs
  of virtual and physical page numbers, as \<open>remap_pfn_range\<close> sets it up.
\<close>

subsection \<open>The driver\<close>

definition VM_PAGE_SHIFT :: nat where "VM_PAGE_SHIFT = 12"
definition VM_PAGE_SIZE :: nat where "VM_PAGE_SIZE = 4096"

definition mmap_array :: "u8 list" where
  "mmap_array = [0, 1, 2, 3, 4, 5, 6, 7, 8, 9]"

text \<open>\<open>mm_buffer\<close> is the physical address of the buffer, \<open>None\<close> for a null pointer.\<close>

record mm =
  mm_buffer :: "nat option"
  mm_mem :: "nat \<Rightarrow> u8"
  mm_held :: ledger

record vm_area =
  vm_start :: u32
  vm_end :: u32

type_synonym mapping = "(nat \<times> nat) list"

text \<open>\<open>remap_pfn_range\<close>: one entry for every page of the size, rounded up, in order.\<close>

definition remap_pfn_range :: "u32 \<Rightarrow> nat \<Rightarrow> u32 \<Rightarrow> mapping" where
  "remap_pfn_range addr pfn sz =
     map (\<lambda>k. (unat addr div VM_PAGE_SIZE + k, pfn + k)) [0..<(unat sz + (VM_PAGE_SIZE - 1)) div VM_PAGE_SIZE]"

text \<open>The loop that stores the ten bytes.\<close>

fun mmap_store :: "nat \<Rightarrow> nat list \<Rightarrow> (nat \<Rightarrow> u8) \<Rightarrow> fault + (nat \<Rightarrow> u8)" where
  "mmap_store base [] mem = Inr mem"
| "mmap_store base (i # is) mem =
     seq (array_get mmap_array i) (\<lambda>v. mmap_store base is (mem(base + i := v)))"

text \<open>\<open>remapped\<close> tells whether \<open>remap_pfn_range\<close> succeeded.  The result \<open>-1\<close> is \<open>-EPERM\<close>.\<close>

definition EPERM :: errno where "EPERM = Other_errno 1"

definition my_mmap :: "bool \<Rightarrow> vm_area \<Rightarrow> mm \<Rightarrow> fault + int result \<times> mapping \<times> mm" where
  "my_mmap remapped vma s =
     (let sz = vm_end vma - vm_start vma in
      if \<not> remapped then Inr (Inl EPERM, [], s)
      else case mm_buffer s of
        None \<Rightarrow> Inl NullDeref
      | Some page \<Rightarrow>
          seq (mmap_store page [0..<10] (mm_mem s)) (\<lambda>mem.
            Inr (Inr 0, remap_pfn_range (vm_start vma) (page div 2 ^ VM_PAGE_SHIFT) sz,
                 s\<lparr>mm_mem := mem\<rparr>)))"

definition my_open :: "int result" where "my_open = Inr 0"
definition my_release :: "int result" where "my_release = Inr 0"

text \<open>\<open>reg\<close> is what \<open>misc_register\<close> returns, \<open>kmem\<close> the address \<open>kmalloc\<close> gives.\<close>

definition dev_init :: "outcome \<Rightarrow> nat option \<Rightarrow> mm \<Rightarrow> int result \<times> mm" where
  "dev_init reg kmem s =
     (if failed reg then (Inl EPERM, s)
      else
        let s = s\<lparr>mm_held := take_res Misc_dev (mm_held s)\<rparr>;
            s = s\<lparr>mm_buffer := kmem\<rparr>
        in if kmem = None then (Inl EPERM, s)
           else (Inr 0, s\<lparr>mm_held := take_res Page_reserved (take_res Kmem (mm_held s))\<rparr>))"

text \<open>\<open>dereg\<close> is what \<open>misc_deregister\<close> returns; a failure is logged, and nothing more is done.\<close>

definition dev_exit :: "outcome \<Rightarrow> mm \<Rightarrow> fault + mm" where
  "dev_exit dereg s =
     (if failed dereg then Inr s else
     seq (give_res Misc_dev (mm_held s)) (\<lambda>l.
     seq (give_res Page_reserved l) (\<lambda>l.
     seq (if mm_buffer s \<noteq> None then give_res Kmem l else Inr l) (\<lambda>l.
       Inr (s\<lparr>mm_held := l, mm_buffer := None\<rparr>)))))"

subsection \<open>The client\<close>

text \<open>What a process reads through a mapping.\<close>

definition mapped_byte :: "mapping \<Rightarrow> (nat \<Rightarrow> u8) \<Rightarrow> nat \<Rightarrow> u8 option" where
  "mapped_byte m mem a =
     (case map_of m (a div VM_PAGE_SIZE) of None \<Rightarrow> None | Some pfn \<Rightarrow> Some (mem (pfn * VM_PAGE_SIZE + a mod VM_PAGE_SIZE)))"

text \<open>The client maps one page at \<open>addr\<close> and prints every byte of it.\<close>

definition mmap_main :: "bool \<Rightarrow> bool \<Rightarrow> u32 \<Rightarrow> mm \<Rightarrow> fault + u8 option list \<times> mm" where
  "mmap_main opened remapped addr s =
     (if \<not> opened then Inr ([], s)
      else seq (my_mmap remapped \<lparr>vm_start = addr, vm_end = addr + 4096\<rparr> s) (\<lambda>(r, m, s).
        case r of
          Inl _ \<Rightarrow> Inr ([], s)
        | Inr _ \<Rightarrow> Inr (map (\<lambda>i. mapped_byte m (mm_mem s) (unat addr + i)) [0..<VM_PAGE_SIZE], s)))"

subsection \<open>Correctness\<close>

lemma mmap_store_ten:
  "mmap_store base [0..<10] mem =
     Inr (\<lambda>a. if base \<le> a \<and> a < base + 10 then of_nat (a - base) else mem a)"
proof -
  have up: "[0..<10] = [0, 1, 2, 3, 4, 5, 6, 7, 8, 9 :: nat]" by (simp add: upt_rec)
  have "mmap_store base [0..<10] mem = Inr (mem(base + 0 := 0, base + 1 := 1, base + 2 := 2,
      base + 3 := 3, base + 4 := 4, base + 5 := 5, base + 6 := 6, base + 7 := 7, base + 8 := 8,
      base + 9 := 9))"
    unfolding up by (simp add: mmap_array_def del: fun_upd_apply)
  moreover have "(mem(base + 0 := 0, base + 1 := 1, base + 2 := 2, base + 3 := 3, base + 4 := 4,
      base + 5 := 5, base + 6 := 6, base + 7 := 7, base + 8 := 8, base + 9 := 9)) a =
      (if base \<le> a \<and> a < base + 10 then of_nat (a - base) else mem a)" for a
  proof (cases "base \<le> a \<and> a < base + 10")
    case True
    then obtain k where "a = base + k" "k < 10" by (metis add_less_cancel_left le_Suc_ex)
    moreover then have "k \<in> {0, 1, 2, 3, 4, 5, 6, 7, 8, 9}" by auto
    ultimately show ?thesis by auto
  next
    case False
    then show ?thesis by auto
  qed
  ultimately show ?thesis by (simp del: fun_upd_apply add: fun_eq_iff)
qed

lemma page_div: "pfn * VM_PAGE_SIZE div VM_PAGE_SIZE = pfn"
  by (simp add: VM_PAGE_SIZE_def)

lemma length_remap [simp]: "length (remap_pfn_range addr pfn sz) = (unat sz + (VM_PAGE_SIZE - 1)) div VM_PAGE_SIZE"
  by (simp add: remap_pfn_range_def)

text \<open>The physical pages a mapping shows.\<close>

definition shown_pages :: "mapping \<Rightarrow> nat set" where
  "shown_pages m = snd ` set m"

text \<open>C38 (safety). A mapping of one page shows the driver's page alone.  Nothing checks the size:
  a request for \<open>n\<close> pages succeeds just the same and shows, besides the buffer, the \<open>n - 1\<close>
  physical pages that follow it, which the driver never allocated.\<close>

theorem mmap_shows_foreign_pages:
  assumes "mm_buffer s = Some (pfn * VM_PAGE_SIZE)" and "unat (vm_end vma - vm_start vma) = n * VM_PAGE_SIZE"
  shows "\<exists>m s'. my_mmap True vma s = Inr (Inr 0, m, s') \<and> shown_pages m = {pfn ..< pfn + n} \<and>
    (shown_pages m \<subseteq> {pfn} \<longleftrightarrow> n \<le> 1) \<and>
    (\<forall>a. \<not> (pfn * VM_PAGE_SIZE \<le> a \<and> a < pfn * VM_PAGE_SIZE + 10) \<longrightarrow> mm_mem s' a = mm_mem s a)"
proof -
  have "2 ^ VM_PAGE_SHIFT = VM_PAGE_SIZE" by (simp add: VM_PAGE_SHIFT_def VM_PAGE_SIZE_def)
  then have run: "my_mmap True vma s = Inr (Inr 0, remap_pfn_range (vm_start vma) pfn (vm_end vma - vm_start vma),
      s\<lparr>mm_mem := \<lambda>a. if pfn * VM_PAGE_SIZE \<le> a \<and> a < pfn * VM_PAGE_SIZE + 10
         then of_nat (a - pfn * VM_PAGE_SIZE) else mm_mem s a\<rparr>)"
    using assms(1) page_div by (simp add: my_mmap_def mmap_store_ten)
  have "(unat (vm_end vma - vm_start vma) + (VM_PAGE_SIZE - 1)) div VM_PAGE_SIZE = n"
    using assms(2) by (simp add: VM_PAGE_SIZE_def)
  then have pages: "shown_pages (remap_pfn_range (vm_start vma) pfn (vm_end vma - vm_start vma)) = {pfn ..< pfn + n}"
    by (simp add: shown_pages_def remap_pfn_range_def image_image image_add_atLeastLessThan [symmetric]
        atLeast0LessThan [symmetric] add.commute)
  have "{pfn ..< pfn + n} \<subseteq> {pfn} \<longleftrightarrow> n \<le> 1"
  proof
    assume "{pfn ..< pfn + n} \<subseteq> {pfn}"
    then have "card {pfn ..< pfn + n} \<le> card {pfn}" by (intro card_mono) simp_all
    then show "n \<le> 1" by simp
  qed auto
  with run pages show ?thesis by auto
qed

definition mm_start :: mm where
  "mm_start = \<lparr>mm_buffer = Some 0x33000000, mm_mem = (\<lambda>_. 0xee), mm_held = {#}\<rparr>"

theorem mmap_shows_foreign_pages_witness:
  "\<exists>m s'. my_mmap True \<lparr>vm_start = 0x40000000, vm_end = 0x40003000\<rparr> mm_start = Inr (Inr 0, m, s') \<and>
     0x33002 \<in> shown_pages m"
proof -
  have "mm_buffer mm_start = Some (0x33000 * VM_PAGE_SIZE)" by (simp add: mm_start_def VM_PAGE_SIZE_def)
  from mmap_shows_foreign_pages [OF this, of "\<lparr>vm_start = 0x40000000, vm_end = 0x40003000\<rparr>" 3]
  show ?thesis by (auto simp: VM_PAGE_SIZE_def)
qed

text \<open>Further (error). Loading registers the device before it allocates: when the allocation fails the
  load fails but the device stays registered, with a null buffer that a mapping request then
  follows.  A load that succeeds is undone in full by the unload.\<close>

theorem mmap_load:
  "dev_init reg kmem s =
     (if failed reg then (Inl EPERM, s)
      else if kmem = None
        then (Inl EPERM, s\<lparr>mm_buffer := None, mm_held := add_mset Misc_dev (mm_held s)\<rparr>)
      else (Inr 0, s\<lparr>mm_buffer := kmem, mm_held := {#Page_reserved, Kmem, Misc_dev#} + mm_held s\<rparr>)) \<and>
   my_mmap True vma (snd (dev_init None None s)) = Inl NullDeref \<and>
   (\<exists>s'. dev_exit None (snd (dev_init None (Some a) s)) = Inr s' \<and> mm_held s' = mm_held s)"
  by (cases kmem) (simp_all add: dev_init_def dev_exit_def my_mmap_def take_res_def res_simps Let_def)

text \<open>Further (functional). The client's page shows the ten bytes of the array, in order, at its start,
  and behind them what the driver's page held.\<close>

theorem mmap_client_prints:
  assumes "mm_buffer s = Some (pfn * VM_PAGE_SIZE)" and "unat addr mod VM_PAGE_SIZE = 0"
  shows "\<exists>s'. mmap_main True True addr s =
    Inr (map (\<lambda>i. Some (if i < 10 then of_nat i else mm_mem s (pfn * VM_PAGE_SIZE + i))) [0..<VM_PAGE_SIZE], s')"
proof -
  define vma where "vma = \<lparr>vm_start = addr, vm_end = addr + 4096\<rparr>"
  define mem where "mem = (\<lambda>a. if pfn * VM_PAGE_SIZE \<le> a \<and> a < pfn * VM_PAGE_SIZE + 10
         then of_nat (a - pfn * VM_PAGE_SIZE) else mm_mem s a)"
  have one: "(unat (4096 :: u32) + (VM_PAGE_SIZE - 1)) div VM_PAGE_SIZE = 1" by (simp add: VM_PAGE_SIZE_def)
  have "2 ^ VM_PAGE_SHIFT = VM_PAGE_SIZE" by (simp add: VM_PAGE_SHIFT_def VM_PAGE_SIZE_def)
  then have run: "my_mmap True vma s = Inr (Inr 0, [(unat addr div VM_PAGE_SIZE, pfn)], s\<lparr>mm_mem := mem\<rparr>)"
    using assms(1) one by (simp add: my_mmap_def mmap_store_ten vma_def remap_pfn_range_def mem_def page_div)
  have byte: "mapped_byte [(unat addr div VM_PAGE_SIZE, pfn)] mem (unat addr + i) =
      Some (if i < 10 then of_nat i else mm_mem s (pfn * VM_PAGE_SIZE + i))" if "i < VM_PAGE_SIZE" for i
  proof -
    obtain k where k: "unat addr = k * VM_PAGE_SIZE"
      using assms(2) by (metis dvd_div_mult_self dvd_eq_mod_eq_0)
    have "(k * VM_PAGE_SIZE + i) div VM_PAGE_SIZE = k" "(k * VM_PAGE_SIZE + i) mod VM_PAGE_SIZE = i"
      "k * VM_PAGE_SIZE div VM_PAGE_SIZE = k"
      using that by (simp_all add: VM_PAGE_SIZE_def)
    then show ?thesis by (simp add: mapped_byte_def k mem_def)
  qed
  show ?thesis
    using run byte by (simp add: mmap_main_def vma_def [symmetric])
qed

theorem mmap_client_prints_witness:
  "\<exists>s'. mmap_main True True 0x40000000 mm_start =
    Inr (map (\<lambda>i. Some (if i < 10 then of_nat i else 0xee)) [0..<VM_PAGE_SIZE], s')"
proof -
  have "mm_buffer mm_start = Some (0x33000 * VM_PAGE_SIZE)" "unat (0x40000000 :: u32) mod VM_PAGE_SIZE = 0"
    by (simp_all add: mm_start_def VM_PAGE_SIZE_def)
  note client = mmap_client_prints [OF this]
  have "mm_mem mm_start a = 0xee" for a by (simp add: mm_start_def)
  with client show ?thesis by (simp only:)
qed

end
