(* ===== verification/Version.thy ===== *)
theory Version
  imports Kernel_Api
begin

text \<open>
  The sysfs version module (\<open>sysfs/version/driver/version.c\<close>).  Setting the device up registers it
  and creates the attribute files of a table one by one; on a failure it means to remove the files
  created so far.  The table ends with a null pointer and has one entry; the loops take it as an
  argument, so that a lemma can say what they would do on a longer one.
\<close>

subsection \<open>State\<close>

record version_state =
  dev_registered :: bool
  dev_puts :: nat              \<comment> \<open>calls of \<open>put_device\<close>\<close>
  dev_files :: "string list"   \<comment> \<open>attribute files present, in the order of creation\<close>

definition version_attributes :: "string option list" where
  "version_attributes = [Some ''version'', None]"

definition version_show :: string where
  "version_show = ''hello''"

subsection \<open>Set-up\<close>

definition device_remove_file :: "string \<Rightarrow> version_state \<Rightarrow> version_state" where
  "device_remove_file a s = s\<lparr>dev_files := removeAll a (dev_files s)\<rparr>"

definition device_del :: "version_state \<Rightarrow> version_state" where
  "device_del s = s\<lparr>dev_registered := False, dev_files := []\<rparr>"

text \<open>An entry of the table that the code takes to be there.\<close>

definition entry_at :: "string option list \<Rightarrow> s32 \<Rightarrow> fault + string" where
  "entry_at attrs i = seq (array_at attrs i) (\<lambda>a. case a of None \<Rightarrow> Inl NullDeref | Some a \<Rightarrow> Inr a)"

text \<open>
  The inner loop \<open>for (j = 0; j < i; i++)\<close>: its body removes file \<open>j\<close>, its step increments \<open>i\<close>.  The
  counters are \<open>int\<close>s of 32 bits; beyond the largest they are taken to wrap round to the least, as
  the machine's addition does, so that the loop ends when \<open>i\<close> has become negative.
\<close>

function remove_loop :: "string option list \<Rightarrow> s32 \<Rightarrow> s32 \<Rightarrow> version_state \<Rightarrow> fault + version_state" where
  "remove_loop attrs i j s =
     (if sint j < sint i
      then seq (entry_at attrs j) (\<lambda>a. remove_loop attrs (i + 1) j (device_remove_file a s))
      else Inr s)"
  by pat_completeness auto

lemma sint_next: "sint (i :: s32) < 2 ^ 31 - 1 \<Longrightarrow> sint (i + 1) = sint i + 1"
proof -
  assume "sint i < 2 ^ 31 - 1"
  moreover have "- (2 ^ 31) \<le> sint i" using sint_ge [of i] by simp
  ultimately have "sint (word_of_int (sint i + 1) :: s32) = sint i + 1" by (intro sint_word_of_int_s32) simp_all
  then show ?thesis by simp
qed

lemma sint_wraps: "sint (i :: s32) = 2 ^ 31 - 1 \<Longrightarrow> sint (i + 1) = - (2 ^ 31)"
proof -
  assume "sint i = 2 ^ 31 - 1"
  then have "word_of_int (sint i) = (0x7fffffff :: s32)" by simp
  then have "i = 0x7fffffff" by simp
  then show ?thesis by simp
qed

lemma sint_s32_max: "sint (i :: s32) < 2 ^ 31 - 1 \<or> sint i = 2 ^ 31 - 1"
  using sint_lt [of i] by simp linarith

termination remove_loop
proof (relation "measure (\<lambda>(attrs, i, j, s). if sint j < sint i then nat (2 ^ 31 - sint i) else 0)")
  fix attrs :: "string option list" and i j :: s32 and s :: version_state and a
  assume less: "sint j < sint i"
  have "sint i < 2 ^ 31" "- (2 ^ 31) \<le> sint j" using sint_lt [of i] sint_ge [of j] by simp_all
  then show "((attrs, i + 1, j, device_remove_file a s), attrs, i, j, s) \<in>
      measure (\<lambda>(attrs, i, j, s). if sint j < sint i then nat (2 ^ 31 - sint i) else 0)"
    using sint_s32_max [of i] sint_next [of i] sint_wraps [of i] less by auto
qed simp

declare remove_loop.simps [simp del]

text \<open>The loop over the table from entry \<open>i\<close> on, \<open>rest\<close> being the table from there; \<open>created i\<close> is what
  \<open>device_create_file\<close> returns for entry \<open>i\<close>.\<close>

fun create_loop :: "string option list \<Rightarrow> (s32 \<Rightarrow> outcome) \<Rightarrow> s32 \<Rightarrow> string option list \<Rightarrow> version_state \<Rightarrow>
    fault + int result \<times> version_state" where
  "create_loop attrs created i [] s = Inl OutOfBounds"
| "create_loop attrs created i (None # rest) s = Inr (Inr 0, s)"
| "create_loop attrs created i (Some a # rest) s =
     (case created i of
        None \<Rightarrow> create_loop attrs created (i + 1) rest (s\<lparr>dev_files := dev_files s @ [a]\<rparr>)
      | Some e \<Rightarrow> seq (remove_loop attrs i 0 s) (\<lambda>s. Inr (Inl e, device_del s)))"

definition version_dev_setup :: "outcome \<Rightarrow> (s32 \<Rightarrow> outcome) \<Rightarrow> version_state \<Rightarrow>
    fault + int result \<times> version_state" where
  "version_dev_setup registered created s =
     (case registered of
        Some e \<Rightarrow> Inr (Inl e, s\<lparr>dev_puts := dev_puts s + 1\<rparr>)
      | None \<Rightarrow> create_loop version_attributes created 0 version_attributes (s\<lparr>dev_registered := True\<rparr>))"

definition version_init :: "outcome \<Rightarrow> (s32 \<Rightarrow> outcome) \<Rightarrow> version_state \<Rightarrow> fault + int result \<times> version_state" where
  "version_init registered created s = version_dev_setup registered created s"

definition version_exit :: "version_state \<Rightarrow> version_state" where
  "version_exit s = device_del s"

subsection \<open>Correctness\<close>

text \<open>C37 (error). Loading the module always returns, and a load that fails leaves the device unregistered
  and without files: when the registration is refused the module gives up its reference, once, and
  touches nothing else; when the file cannot be made it takes the device away again.  A load that
  succeeds leaves the device registered with the one file of the table, and unloading takes both
  away.\<close>

theorem version_load_unload:
  assumes "\<not> dev_registered s" and "dev_files s = []"
  shows "\<exists>r s'. version_init registered created s = Inr (r, s') \<and>
    r = (case registered of Some e \<Rightarrow> Inl e | None \<Rightarrow> outcome_result (created 0)) \<and>
    dev_puts s' = dev_puts s + (if registered = None then 0 else 1) \<and>
    dev_registered s' = (r = Inr 0) \<and> dev_files s' = (if r = Inr 0 then [''version''] else []) \<and>
    \<not> dev_registered (version_exit s') \<and> dev_files (version_exit s') = []"
proof -
  have "remove_loop attrs 0 0 t = Inr t" for attrs t by (subst remove_loop.simps) simp
  then show ?thesis
    using assms by (cases registered; cases "created 0")
      (simp_all add: version_init_def version_exit_def version_dev_setup_def version_attributes_def
        device_del_def)
qed

definition version_start :: version_state where
  "version_start = \<lparr>dev_registered = False, dev_puts = 0, dev_files = []\<rparr>"

theorem version_load_unload_witness:
  "\<exists>s'. version_init None (\<lambda>_. Some ENOMEM) version_start = Inr (Inl ENOMEM, s') \<and> \<not> dev_registered s' \<and>
     dev_files s' = []"
  using version_load_unload [of version_start None "\<lambda>_. Some ENOMEM"]
  by (auto simp: version_start_def outcome_result_def)

text \<open>Further (termination). The clean-up increments the wrong counter.  On a table of several files,
  when the creation of entry \<open>i\<close> fails after others were made, it removes the first file again and
  again until \<open>i\<close> has wrapped round, and no other; it ends all the same, and taking the device away
  then removes the rest.  The table of the module has one entry, and the loop is never entered.\<close>

theorem version_cleanup_first_only:
  assumes "0 < sint i"
  shows "remove_loop (Some a # attrs) i 0 s = Inr (device_remove_file a s)"
  using assms
proof (induction "Some a # attrs" i "0 :: s32" s rule: remove_loop.induct)
  case (1 i s)
  have entry: "entry_at (Some a # attrs) 0 = Inr a" by (simp add: entry_at_def array_at_def)
  have twice: "device_remove_file a (device_remove_file a s) = device_remove_file a s"
    by (simp add: device_remove_file_def)
  show ?case
  proof (cases "sint i < 2 ^ 31 - 1")
    case True
    then have "0 < sint (i + 1)" using 1(2) sint_next [of i] by simp
    then show ?thesis
      using 1 entry twice by (subst remove_loop.simps) simp
  next
    case False
    then have "\<not> 0 < sint (i + 1)" using sint_s32_max [of i] sint_wraps [of i] by auto
    then have "remove_loop (Some a # attrs) (i + 1) 0 t = Inr t" for t by (subst remove_loop.simps) simp
    then show ?thesis using 1(2) entry by (subst remove_loop.simps) simp
  qed
qed

theorem version_cleanup_first_only_witness:
  "remove_loop [Some ''a'', Some ''b'', None] 1 0 (version_start\<lparr>dev_files := [''a'']\<rparr>) = Inr version_start"
proof -
  have "0 < sint (1 :: s32)" by simp
  from version_cleanup_first_only [OF this] show ?thesis by (simp add: device_remove_file_def version_start_def)
qed

end
