(* ===== verification/Filp_Open.thy ===== *)
theory Filp_Open
  imports Kernel_Api
begin

text \<open>
  The file-reading module (\<open>fs/filp_open/filp_open_test.c\<close>).  It opens a file from inside the kernel,
  lifts the address limit, and prints the file in pieces of 64 bytes until a read returns 0 or less.
  What each read returns is an argument: a function from the file position.
\<close>

definition SIZE :: nat where "SIZE = 64"

text \<open>\<open>kernel_ds\<close> is whether the address limit is lifted; \<open>filp_opened\<close> whether the file is open.\<close>

record filp_state =
  kernel_ds :: bool
  filp_opened :: bool
  printed :: "u8 list list"

text \<open>
  One read at a position for at most 64 bytes: the bytes and the number returned, or an error, a
  negative number.  The loop stores the terminator at \<open>buff[n]\<close> for whatever \<open>n\<close> came back.  \<open>buff\<close>
  holds 65 bytes and keeps what earlier reads left.
\<close>

type_synonym reader = "nat \<Rightarrow> int \<times> u8 list"

definition print_piece :: "u8 list \<Rightarrow> u8 list" where
  "print_piece buff = takeWhile (\<lambda>c. c \<noteq> 0) buff"

function filp_loop :: "nat \<Rightarrow> reader \<Rightarrow> nat \<Rightarrow> u8 list \<Rightarrow> filp_state \<Rightarrow> fault + filp_state" where
  "filp_loop 0 rd pos buff s = Inl Diverges"
| "filp_loop (Suc fuel) rd pos buff s =
     (let (n, bs) = rd pos;
          buff = overwrite buff 0 bs in
      if n < 0 then Inl OutOfBounds
      else seq (array_set buff (nat n) 0) (\<lambda>buff.
           let s = s\<lparr>printed := printed s @ [print_piece buff]\<rparr>
           in if n > 0 then filp_loop fuel rd (pos + nat n) buff s else Inr s))"
  by pat_completeness auto
termination by (relation "measure (\<lambda>(fuel, _). fuel)") auto

definition filp_test_entry :: "nat \<Rightarrow> bool \<Rightarrow> reader \<Rightarrow> filp_state \<Rightarrow> fault + int result \<times> filp_state" where
  "filp_test_entry fuel opened rd s =
     (if \<not> opened then Inr (Inl (Other_errno 1), s)
      else
        let s = s\<lparr>filp_opened := True\<rparr>;
            old_fs = kernel_ds s;
            s = s\<lparr>kernel_ds := True\<rparr> in
        seq (filp_loop fuel rd 0 (replicate (SIZE + 1) 0) s) (\<lambda>s.
          let s = s\<lparr>filp_opened := False\<rparr> in Inr (Inr 0, s\<lparr>kernel_ds := old_fs\<rparr>)))"

definition filp_test_exit :: "filp_state \<Rightarrow> filp_state" where
  "filp_test_exit s = s"

text \<open>The reads of a regular file: up to 64 bytes from the position on.\<close>

definition file_reader :: "u8 list \<Rightarrow> reader" where
  "file_reader c pos = (let bs = take SIZE (drop pos c) in (int (length bs), bs))"

subsection \<open>Correctness\<close>

lemma file_loop:
  assumes "\<forall>x \<in> set c. x \<noteq> 0" and "length c - pos < fuel" and "length buff = SIZE + 1" and "pos \<le> length c"
  shows "\<exists>ps. filp_loop fuel (file_reader c) pos buff s = Inr (s\<lparr>printed := printed s @ ps\<rparr>) \<and>
     concat ps = drop pos c \<and> (\<forall>p \<in> set ps. length p \<le> SIZE)"
  using assms(2-)
proof (induction fuel arbitrary: pos buff s)
  case (Suc fuel)
  define bs where "bs = take SIZE (drop pos c)"
  define n where "n = length bs"
  have n: "n \<le> SIZE" "n \<le> length c - pos" by (simp_all add: n_def bs_def)
  define buff' where "buff' = (overwrite buff 0 bs)[n := 0]"
  have len: "n < length (overwrite buff 0 bs)" using n Suc.prems(2) by (simp add: n_def)
  have "buff' = bs @ 0 # drop (Suc n) buff"
    using n Suc.prems(2)
    by (simp add: buff'_def overwrite_def n_def list_update_append upd_conv_take_nth_drop)
  moreover have "\<forall>x \<in> set bs. x \<noteq> 0"
    using assms(1) by (auto simp: bs_def dest: in_set_takeD in_set_dropD)
  ultimately have piece: "print_piece buff' = bs"
    by (simp add: print_piece_def)
  have step: "filp_loop (Suc fuel) (file_reader c) pos buff s =
      (if 0 < n then filp_loop fuel (file_reader c) (pos + n) buff' (s\<lparr>printed := printed s @ [bs]\<rparr>)
       else Inr (s\<lparr>printed := printed s @ [bs]\<rparr>))"
    using len piece unfolding buff'_def
    by (cases "n = 0")
      (simp_all add: file_reader_def bs_def [symmetric] n_def [symmetric] Let_def)
  show ?case
  proof (cases "0 < n")
    case True
    have "length c - (pos + n) < fuel" using True n(2) Suc.prems(1) by linarith
    moreover have "length buff' = SIZE + 1"
      using n Suc.prems(2) length_overwrite [of 0 bs buff] by (simp add: buff'_def n_def)
    moreover have "pos + n \<le> length c" using n(2) Suc.prems(3) by linarith
    ultimately have next_pos: "length c - (pos + n) < fuel" "length buff' = SIZE + 1" "pos + n \<le> length c"
      by blast+
    from Suc.IH [OF next_pos, of "s\<lparr>printed := printed s @ [bs]\<rparr>"] obtain ps where ps:
      "filp_loop fuel (file_reader c) (pos + n) buff' (s\<lparr>printed := printed s @ [bs]\<rparr>) =
         Inr (s\<lparr>printed := printed s @ bs # ps\<rparr>)"
      "concat ps = drop (pos + n) c" "\<forall>p \<in> set ps. length p \<le> SIZE" by auto
    have "bs @ drop (pos + n) c = drop pos c"
      by (metis add.commute append_take_drop_id bs_def drop_drop length_take min.commute n_def
          append_eq_conv_conj)
    then show ?thesis using True step ps n by (intro exI [of _ "bs # ps"]) (simp add: n_def)
  next
    case False
    then have "bs = []" by (simp add: n_def)
    then have "drop pos c = []" by (auto simp: bs_def SIZE_def)
    then show ?thesis using False step \<open>bs = []\<close> by (intro exI [of _ "[[]]"]) simp
  qed
qed simp

text \<open>C36 (termination). For a regular file without null bytes the module always returns (as many
  rounds as the file has bytes, and one, are enough), having printed exactly the file, in pieces of
  at most 64 bytes; the file is closed and the address limit is back.  If a read reports an error
  instead, the terminator is stored at a negative index, before the buffer, while the address limit
  is lifted.\<close>

theorem filp_prints_file:
  assumes "\<forall>x \<in> set c. x \<noteq> 0" and "length c < fuel"
  shows "(\<exists>s'. filp_test_entry fuel True (file_reader c) s = Inr (Inr 0, s') \<and>
       (\<exists>ps. printed s' = printed s @ ps \<and> concat ps = c \<and> (\<forall>p \<in> set ps. length p \<le> 64)) \<and>
       kernel_ds s' = kernel_ds s \<and> \<not> filp_opened s') \<and>
     (\<forall>e bs. 0 < e \<longrightarrow> filp_test_entry fuel True (\<lambda>_. (- e, bs)) s = Inl OutOfBounds)"
proof (intro conjI allI impI)
  define t where "t = s\<lparr>filp_opened := True, kernel_ds := True\<rparr>"
  have "length (replicate (SIZE + 1) (0 :: u8)) = SIZE + 1" by simp
  from file_loop [OF assms(1) _ this, of 0 fuel t] assms(2) obtain ps where
    "filp_loop fuel (file_reader c) 0 (replicate (SIZE + 1) 0) t = Inr (t\<lparr>printed := printed t @ ps\<rparr>)"
    "concat ps = c" "\<forall>p \<in> set ps. length p \<le> SIZE" by auto
  then show "\<exists>s'. filp_test_entry fuel True (file_reader c) s = Inr (Inr 0, s') \<and>
       (\<exists>ps. printed s' = printed s @ ps \<and> concat ps = c \<and> (\<forall>p \<in> set ps. length p \<le> 64)) \<and>
       kernel_ds s' = kernel_ds s \<and> \<not> filp_opened s'"
    by (simp add: filp_test_entry_def t_def SIZE_def)
next
  fix e :: int and bs :: "u8 list" assume "0 < e"
  then show "filp_test_entry fuel True (\<lambda>_. (- e, bs)) s = Inl OutOfBounds"
    using assms(2) by (cases fuel) (simp_all add: filp_test_entry_def Let_def)
qed

definition filp_start :: filp_state where
  "filp_start = \<lparr>kernel_ds = False, filp_opened = False, printed = []\<rparr>"

theorem filp_prints_file_witness:
  "(\<exists>s'. filp_test_entry 10 True (file_reader [104, 105]) filp_start = Inr (Inr 0, s') \<and>
      concat (printed s') = [104, 105]) \<and>
   filp_test_entry 10 True (\<lambda>_. (- 5, [])) filp_start = Inl OutOfBounds"
proof -
  have c: "\<forall>x \<in> set [104, 105 :: u8]. x \<noteq> 0" "length [104, 105 :: u8] < 10" by simp_all
  from filp_prints_file [OF c, of filp_start] show ?thesis by (auto simp: filp_start_def)
qed

end
