(* ===== verification/Ioremap.thy ===== *)
theory Ioremap
  imports Kernel_Api
begin

text \<open>
  The study of MIPS \<open>ioremap\<close> (\<open>ioremap/driver/ioreamp.c\<close>).  Addresses and sizes are 32-bit words
  and every sum wraps, as in the source.  What the file calls but does not hold (the reserved marks
  of pages, the allocator of virtual areas, the page-table walk) is the environment \<open>vm_env\<close>; a
  mapping that was set up is recorded as an area with its physical base.
\<close>

subsection \<open>Address arithmetic\<close>

definition CPHYSADDR :: "u32 \<Rightarrow> u32" where "CPHYSADDR a = a AND 0x1fffffff"
definition KSEG1 :: u32 where "KSEG1 = 0xa0000000"
definition CKSEG1ADDR :: "u32 \<Rightarrow> u32" where "CKSEG1ADDR a = CPHYSADDR a OR KSEG1"
definition CAC_BASE :: u32 where "CAC_BASE = 0x80000000"
definition PHYS_OFFSET :: u32 where "PHYS_OFFSET = 0"
definition PAGE_OFFSET :: u32 where "PAGE_OFFSET = CAC_BASE + PHYS_OFFSET"
definition PAGE_SHIFT :: nat where "PAGE_SHIFT = 12"
definition PAGE_SIZE :: u32 where "PAGE_SIZE = push_bit PAGE_SHIFT 1"
definition PAGE_MASK :: u32 where "PAGE_MASK = NOT (push_bit PAGE_SHIFT 1 - 1)"
definition phys_of :: "u32 \<Rightarrow> u32" where "phys_of x = x - PAGE_OFFSET + PHYS_OFFSET"
definition virt_of :: "u32 \<Rightarrow> u32" where "virt_of x = x + PAGE_OFFSET - PHYS_OFFSET"
definition PFN_DOWN :: "u32 \<Rightarrow> u32" where "PFN_DOWN x = drop_bit PAGE_SHIFT x"
definition ALIGN_MASK :: "u32 \<Rightarrow> u32 \<Rightarrow> u32" where "ALIGN_MASK x m = (x + m) AND NOT m"
definition PAGE_ALIGN :: "u32 \<Rightarrow> u32" where "PAGE_ALIGN a = ALIGN_MASK a (PAGE_SIZE - 1)"
definition CACHE_UNCACHED :: u32 where "CACHE_UNCACHED = push_bit 9 2"
definition IS_LOW512 :: "u32 \<Rightarrow> bool" where "IS_LOW512 a \<longleftrightarrow> a AND NOT 0x1fffffff = 0"

definition virt_to_phys :: "u32 \<Rightarrow> u32" where "virt_to_phys a = phys_of a"
definition phys_to_virt :: "u32 \<Rightarrow> u32" where "phys_to_virt a = a + PAGE_OFFSET - PHYS_OFFSET"

text \<open>A page is named by its frame number: \<open>mem_map\<close> is an array indexed by it.\<close>

definition virt_to_page :: "u32 \<Rightarrow> u32" where "virt_to_page a = PFN_DOWN (virt_to_phys a)"

subsection \<open>Mapping\<close>

record vm_env =
  page_reserved :: "u32 \<Rightarrow> bool"
  high_memory :: u32
  get_vm_area :: "u32 \<Rightarrow> u32 option"
  remap_area_pages :: "u32 \<Rightarrow> u32 \<Rightarrow> u32 \<Rightarrow> bool"   \<comment> \<open>succeeds\<close>

record area =
  area_addr :: u32
  area_phys :: u32
  area_size :: u32

text \<open>The loop over the pages of the range, from frame \<open>page\<close> to frame \<open>last\<close>.\<close>

function reserved_loop :: "(u32 \<Rightarrow> bool) \<Rightarrow> nat \<Rightarrow> nat \<Rightarrow> bool" where
  "reserved_loop res page last_page =
     (if page \<le> last_page
      then if \<not> res (of_nat page) then False else reserved_loop res (page + 1) last_page
      else True)"
  by pat_completeness auto
termination by (relation "measure (\<lambda>(_, page, last_page). Suc last_page - page)") auto

declare reserved_loop.simps [simp del]

definition fixup_bigphys_addr :: "u32 \<Rightarrow> u32 \<Rightarrow> u32" where
  "fixup_bigphys_addr phys_addr sz = phys_addr"

definition ioremap_pages :: "vm_env \<Rightarrow> u32 \<Rightarrow> u32 \<Rightarrow> u32 \<Rightarrow> area list \<Rightarrow> u32 option \<times> area list" where
  "ioremap_pages env phys_addr sz flags areas =
     (let phys_addr = fixup_bigphys_addr phys_addr sz;
          last_addr = phys_addr + sz - 1 in
      if sz = 0 \<or> last_addr < phys_addr then (None, areas)
      else if IS_LOW512 phys_addr \<and> IS_LOW512 last_addr \<and> flags = CACHE_UNCACHED
      then (Some (CKSEG1ADDR phys_addr), areas)
      else
        let t_addr = virt_of phys_addr; t_end = t_addr + (sz - 1) in
        if phys_addr < virt_to_phys (high_memory env) \<and>
           \<not> reserved_loop (page_reserved env) (unat (virt_to_page t_addr)) (unat (virt_to_page t_end))
        then (None, areas)
        else
          let offset = phys_addr AND NOT PAGE_MASK;
              phys_addr = phys_addr AND PAGE_MASK;
              sz = PAGE_ALIGN (last_addr + 1) - phys_addr in
          case get_vm_area env sz of
            None \<Rightarrow> (None, areas)
          | Some addr \<Rightarrow>
              if \<not> remap_area_pages env addr phys_addr sz then (None, areas)
              else (Some (offset + addr),
                    \<lparr>area_addr = addr, area_phys = phys_addr, area_size = sz\<rparr> # areas))"

definition plat_ioremap :: "u32 \<Rightarrow> u32 \<Rightarrow> u32 \<Rightarrow> u32 option" where
  "plat_ioremap offset sz flags = None"

text \<open>\<open>const\<close> is whether the compiler knows the three arguments; 64-bit addresses are off.\<close>

definition ioremap_mode :: "vm_env \<Rightarrow> bool \<Rightarrow> u32 \<Rightarrow> u32 \<Rightarrow> u32 \<Rightarrow> area list \<Rightarrow> u32 option \<times> area list" where
  "ioremap_mode env const offset sz flags areas =
     (case plat_ioremap offset sz flags of
        Some addr \<Rightarrow> (Some addr, areas)
      | None \<Rightarrow>
          let phys_addr = fixup_bigphys_addr offset sz;
              last_addr = phys_addr + sz - 1 in
          if const \<and> (sz = 0 \<or> last_addr < phys_addr) then (None, areas)
          else if const \<and> IS_LOW512 phys_addr \<and> IS_LOW512 last_addr \<and> flags = CACHE_UNCACHED
          then (Some (CKSEG1ADDR phys_addr), areas)
          else ioremap_pages env offset sz flags areas)"

definition ioremap :: "vm_env \<Rightarrow> bool \<Rightarrow> u32 \<Rightarrow> u32 \<Rightarrow> area list \<Rightarrow> u32 option \<times> area list" where
  "ioremap env const offset sz areas = ioremap_mode env const offset sz CACHE_UNCACHED areas"

subsection \<open>What an address reaches\<close>

text \<open>The translation of a virtual address: the uncached window is the low 512 MB of physical
  memory; any other address goes through the first area that holds it.\<close>

definition in_area :: "area \<Rightarrow> u32 \<Rightarrow> bool" where
  "in_area a v \<longleftrightarrow> v - area_addr a < area_size a"

definition translate :: "area list \<Rightarrow> u32 \<Rightarrow> u32 option" where
  "translate areas v =
     (if KSEG1 \<le> v \<and> v < KSEG1 + 0x20000000 then Some (v - KSEG1)
      else case find (\<lambda>a. in_area a v) areas of
        None \<Rightarrow> None
      | Some a \<Rightarrow> Some (area_phys a + (v - area_addr a)))"

subsection \<open>Correctness\<close>

lemma and_not_mask_0: "(x :: u32) AND NOT (mask n) = 0 \<longleftrightarrow> x AND mask n = x"
proof
  assume a: "x AND NOT (mask n) = 0"
  have "x = (x AND mask n) OR (x AND NOT (mask n))" by (simp flip: bit.conj_disj_distrib)
  then show "x AND mask n = x" using a by simp
next
  assume "x AND mask n = x"
  then have "x AND NOT (mask n) = (x AND mask n) AND NOT (mask n)" by simp
  also have "\<dots> = 0" by (simp add: and.assoc)
  finally show "x AND NOT (mask n) = 0" .
qed

lemma unat_and_mask: "unat ((x :: u32) AND mask n) = unat x mod 2 ^ n"
  by (metis take_bit_eq_mask take_bit_eq_mod unsigned_take_bit_eq)

lemma and_mask_id: "(x :: u32) AND mask n = x \<longleftrightarrow> unat x < 2 ^ n"
proof
  assume "x AND mask n = x"
  then have "unat x mod 2 ^ n = unat x" by (metis unat_and_mask)
  then show "unat x < 2 ^ n" by (metis mod_less_divisor zero_less_numeral zero_less_power)
next
  assume "unat x < 2 ^ n"
  then have "unat (x AND mask n) = unat x" by (simp only: unat_and_mask mod_less)
  then show "x AND mask n = x" by (simp add: word_unat_eq_iff)
qed

lemma and_mask_split: "((x :: u32) AND NOT (mask n)) + (x AND mask n) = x"
proof -
  have "(x AND NOT (mask n)) AND (x AND mask n) = 0"
    by (rule bit_word_eqI) (auto simp: bit_simps)
  moreover have "(x AND NOT (mask n)) OR (x AND mask n) = x"
    by (rule bit_word_eqI) (auto simp: bit_simps)
  ultimately show ?thesis
    by (simp only: disjunctive_add_eq_or)
qed

lemma unat_and_not_mask: "unat ((x :: u32) AND NOT (mask n)) = unat x div 2 ^ n * 2 ^ n"
proof -
  have "x AND NOT (mask n) = x - (x AND mask n)" using and_mask_split [of x n] by (metis add_diff_cancel_right')
  moreover have "x AND mask n \<le> x" by (simp add: word_le_nat_alt unat_and_mask)
  ultimately have "unat (x AND NOT (mask n)) = unat x - unat x mod 2 ^ n"
    by (simp only: unat_sub unat_and_mask)
  then show ?thesis by (simp only: minus_mod_eq_div_mult)
qed

lemma mask_consts: "(0x1fffffff :: u32) = mask 29" "PAGE_SIZE - 1 = mask 12" "PAGE_MASK = NOT (mask 12)"
  by (simp_all add: mask_eq_exp_minus_1 PAGE_SIZE_def PAGE_MASK_def PAGE_SHIFT_def)

lemma IS_LOW512_iff: "IS_LOW512 a \<longleftrightarrow> unat a < 0x20000000"
  by (simp only: IS_LOW512_def mask_consts and_not_mask_0 and_mask_id) simp

lemma CKSEG1ADDR_low:
  assumes "IS_LOW512 a"
  shows "CKSEG1ADDR a = KSEG1 + a" "CPHYSADDR (CKSEG1ADDR a) = a"
proof -
  have low: "a AND mask 29 = a" using assms by (simp add: IS_LOW512_iff and_mask_id)
  have "a AND KSEG1 = a AND (mask 29 AND KSEG1)" using low by (metis and.assoc)
  also have "mask 29 AND KSEG1 = 0" by (simp add: KSEG1_def mask_eq_exp_minus_1)
  finally have "a AND KSEG1 = 0" by simp
  then have "a OR KSEG1 = KSEG1 + a"
    by (simp only: add.commute [of KSEG1] disjunctive_add_eq_or)
  then show eq: "CKSEG1ADDR a = KSEG1 + a" by (simp add: CKSEG1ADDR_def CPHYSADDR_def mask_consts(1) low)
  have "CPHYSADDR (CKSEG1ADDR a) = (a OR KSEG1) AND mask 29"
    by (simp add: CKSEG1ADDR_def CPHYSADDR_def mask_consts(1) low)
  also have "\<dots> = a" using \<open>mask 29 AND KSEG1 = 0\<close>
    by (simp add: bit.conj_disj_distrib2 low and.commute [of KSEG1])
  finally show "CPHYSADDR (CKSEG1ADDR a) = a" .
qed

lemma virt_phys: "virt_to_phys (virt_of a) = a" "virt_to_phys (phys_to_virt a) = a"
  by (simp_all add: virt_to_phys_def phys_of_def virt_of_def phys_to_virt_def)

text \<open>No wrap-round: the request ends inside the address space.\<close>

lemma last_addr_nat:
  assumes "sz \<noteq> 0" and "\<not> phys + sz - 1 < phys"
  shows "unat (phys + sz - 1 :: u32) = unat phys + unat sz - 1" "unat phys + unat sz \<le> 2 ^ 32"
proof -
  have pos: "1 \<le> unat sz" using assms(1) by (simp add: Suc_le_eq unat_gt_0)
  have s1: "unat (sz - 1) = unat sz - 1" using pos by (simp add: unat_sub word_le_nat_alt)
  have eq: "phys + sz - 1 = phys + (sz - 1)" by simp
  have le: "unat phys + unat (sz - 1) < 2 ^ 32"
  proof (rule ccontr)
    assume c: "\<not> unat phys + unat (sz - 1) < 2 ^ 32"
    have lt: "unat phys < 2 ^ 32" "unat (sz - 1) < 2 ^ 32" by (rule unat_lt_u32)+
    then have "(unat phys + unat (sz - 1)) mod 2 ^ 32 = unat phys + unat (sz - 1) - 2 ^ 32"
      using c by (simp add: mod_if)
    moreover have "unat (phys + (sz - 1)) = (unat phys + unat (sz - 1)) mod 2 ^ 32"
      by (simp add: unat_word_ariths(1))
    ultimately have "unat (phys + (sz - 1)) < unat phys" using lt c by linarith
    then show False using assms(2) eq by (simp add: word_less_nat_alt)
  qed
  then have "unat (phys + (sz - 1)) = unat phys + unat (sz - 1)"
    by (simp add: unat_word_ariths(1))
  then show "unat (phys + sz - 1) = unat phys + unat sz - 1" unfolding eq using s1 pos by simp
  show "unat phys + unat sz \<le> 2 ^ 32" using le s1 pos by linarith
qed

text \<open>The allocator of virtual areas: an area lies in the mapped segment and does not wrap.\<close>

definition vm_env_ok :: "vm_env \<Rightarrow> bool" where
  "vm_env_ok env \<longleftrightarrow> (\<forall>sz addr. get_vm_area env sz = Some addr \<longrightarrow>
     0xc0000000 \<le> unat addr \<and> unat addr + unat sz \<le> 2 ^ 32)"

text \<open>The page-aligned area of a request covers it, unless it would be the whole address space.\<close>

lemma aligned_covers:
  fixes phys sz :: u32
  defines "last_addr \<equiv> phys + sz - 1"
  defines "sz' \<equiv> PAGE_ALIGN (last_addr + 1) - (phys AND PAGE_MASK)"
  assumes nz: "sz \<noteq> 0" "\<not> last_addr < phys"
    and part: "4096 \<le> unat phys \<or> unat phys + unat sz \<le> 2 ^ 32 - 4096"
    and k: "k < unat sz"
  shows "unat phys mod 4096 + k < unat sz'"
proof -
  define P where "P = unat phys"
  define L where "L = unat last_addr"
  have L: "L = P + unat sz - 1" "P + unat sz \<le> 2 ^ 32"
    using last_addr_nat [OF nz(1)] nz(2) by (simp_all add: L_def P_def last_addr_def)
  have kL: "P + k \<le> L" using L k by linarith
  have base: "unat (phys AND PAGE_MASK) = P div 4096 * 4096"
    by (simp only: mask_consts(3) unat_and_not_mask P_def) simp
  have "last_addr + 1 + mask 12 = last_addr + 4096" by (simp add: mask_eq_exp_minus_1)
  then have "unat (last_addr + 1 + mask 12) = (L + 4096) mod 2 ^ 32"
    by (simp only: unat_word_ariths(1) L_def) simp
  then have fin: "unat (PAGE_ALIGN (last_addr + 1)) = (L + 4096) mod 2 ^ 32 div 4096 * 4096"
    by (simp only: PAGE_ALIGN_def ALIGN_MASK_def mask_consts(2) unat_and_not_mask) simp
  have P: "P div 4096 * 4096 + P mod 4096 = P" by simp
  show ?thesis
  proof (cases "L + 4096 < 2 ^ 32")
    case True
    then have e: "unat (PAGE_ALIGN (last_addr + 1)) = (L + 4096) div 4096 * 4096" using fin by simp
    have gt: "L < (L + 4096) div 4096 * 4096"
      using div_mult_mod_eq [of "L + 4096" 4096] mod_less_divisor [of 4096 "L + 4096"] by linarith
    have "P div 4096 * 4096 \<le> (L + 4096) div 4096 * 4096" using P gt kL by linarith
    then have "unat sz' = (L + 4096) div 4096 * 4096 - P div 4096 * 4096"
      unfolding sz'_def using e base by (subst unat_sub) (simp_all add: word_le_nat_alt)
    then show ?thesis using gt kL P unfolding P_def [symmetric] by linarith
  next
    case False
    have "L < 2 ^ 32" using L(2) L(1) k by linarith
    with False have "(L + 4096) mod 2 ^ 32 = L + 4096 - 2 ^ 32" by (simp add: mod_if)
    then have "(L + 4096) mod 2 ^ 32 < 4096" using \<open>L < 2 ^ 32\<close> False by linarith
    then have "unat (PAGE_ALIGN (last_addr + 1)) = 0" using fin by simp
    then have "PAGE_ALIGN (last_addr + 1) = 0" by (simp add: unat_eq_zero)
    then have sz': "sz' = 0 - (phys AND PAGE_MASK)" unfolding sz'_def by (simp only:)
    have "4096 \<le> P" using part False L(1) k unfolding P_def by linarith
    then have "0 < unat (phys AND PAGE_MASK)" using base by (simp add: div_greater_zero_iff)
    then have "unat sz' = 2 ^ 32 - unat (phys AND PAGE_MASK)"
      unfolding sz' unat_sub_if' by (simp only: unsigned_0 add_0_left not_le if_not_P) simp
    then have "unat sz' = 2 ^ 32 - P div 4096 * 4096" by (simp only: base)
    then show ?thesis using kL \<open>L < 2 ^ 32\<close> P unfolding P_def [symmetric] by linarith
  qed
qed

lemma ioremap_mode_const:
  "ioremap_mode env const offset sz flags areas = ioremap_pages env offset sz flags areas"
  by (cases const)
    (simp_all add: ioremap_mode_def plat_ioremap_def Let_def ioremap_pages_def fixup_bigphys_addr_def)

lemma translate_window:
  assumes "unat a + k < 0x20000000"
  shows "translate areas (KSEG1 + a + of_nat k) = Some (a + of_nat k)"
proof -
  have "unat (a + of_nat k) = unat a + k"
    using assms by (simp add: unat_word_ariths(1) unat_of_nat take_bit_eq_mod)
  moreover have "unat KSEG1 = 0xa0000000" by (simp add: KSEG1_def)
  ultimately have "unat (KSEG1 + (a + of_nat k)) = 0xa0000000 + (unat a + k)"
    using assms by (simp only: unat_word_ariths(1)) simp
  moreover have "unat (KSEG1 + 0x20000000) = 0xc0000000" by (simp add: KSEG1_def)
  ultimately have "KSEG1 \<le> KSEG1 + (a + of_nat k)" "KSEG1 + (a + of_nat k) < KSEG1 + 0x20000000"
    using assms \<open>unat KSEG1 = 0xa0000000\<close> by (simp_all only: word_le_nat_alt word_less_nat_alt)
  then show ?thesis by (simp add: translate_def add.assoc)
qed

lemma translate_area:
  assumes "0xc0000000 \<le> unat addr" and "unat addr + unat sz \<le> 2 ^ 32" and "unat off + k < unat sz"
  shows "translate (\<lparr>area_addr = addr, area_phys = base, area_size = sz\<rparr> # areas) (off + addr + of_nat k) =
    Some (base + off + of_nat k)"
proof -
  have k: "unat (off + of_nat k :: u32) = unat off + k"
    using assms unat_lt_u32 [of sz] by (simp add: unat_word_ariths(1) unat_of_nat take_bit_eq_mod)
  then have "unat (addr + (off + of_nat k)) = unat addr + (unat off + k)"
    using assms by (simp only: unat_word_ariths(1)) simp
  then have "\<not> addr + (off + of_nat k) < KSEG1 + 0x20000000"
    using assms(1) by (simp add: word_less_nat_alt KSEG1_def)
  moreover have "off + of_nat k < sz" using k assms(3) by (simp add: word_less_nat_alt)
  ultimately show ?thesis by (simp add: translate_def in_area_def algebra_simps)
qed

text \<open>C24 (functional). A successful \<open>ioremap\<close> returns an address through which every byte of the
  requested range, and no other one at that place, is reached: byte \<open>k\<close> of the result translates
  to byte \<open>k\<close> of the physical range, whether the range lies in the uncached window or is mapped by
  page tables at any offset in its first page, for every range short of the whole address space.\<close>

theorem ioremap_translates:
  assumes "vm_env_ok env" and "ioremap env const phys sz areas = (Some r, areas')"
    and "4096 \<le> unat phys \<or> unat phys + unat sz \<le> 2 ^ 32 - 4096"
  shows "\<forall>k < unat sz. translate areas' (r + of_nat k) = Some (phys + of_nat k)"
proof (intro allI impI)
  fix k assume k: "k < unat sz"
  have run: "ioremap_pages env phys sz CACHE_UNCACHED areas = (Some r, areas')"
    using assms(2) by (simp add: ioremap_def ioremap_mode_const)
  have nz: "sz \<noteq> 0" "\<not> phys + sz - 1 < phys"
    using run by (auto simp: ioremap_pages_def fixup_bigphys_addr_def Let_def split: if_splits)
  note last_nat = last_addr_nat [OF nz]
  show "translate areas' (r + of_nat k) = Some (phys + of_nat k)"
  proof (cases "IS_LOW512 phys \<and> IS_LOW512 (phys + sz - 1)")
    case True
    then have "unat phys + unat sz - 1 < 0x20000000" using last_nat(1) by (simp add: IS_LOW512_iff)
    then have "unat phys + k < 0x20000000" using k by linarith
    moreover have "r = KSEG1 + phys" "areas' = areas"
      using run nz True CKSEG1ADDR_low [of phys]
      by (simp_all add: ioremap_pages_def fixup_bigphys_addr_def)
    ultimately show ?thesis using translate_window [of phys k areas] by simp
  next
    case False
    define sz' where "sz' = PAGE_ALIGN (phys + sz - 1 + 1) - (phys AND PAGE_MASK)"
    obtain addr where a: "get_vm_area env sz' = Some addr" "r = (phys AND NOT PAGE_MASK) + addr"
      "areas' = \<lparr>area_addr = addr, area_phys = phys AND PAGE_MASK, area_size = sz'\<rparr> # areas"
      using run nz False
      by (auto simp: ioremap_pages_def fixup_bigphys_addr_def Let_def sz'_def
          split: if_splits option.splits)
    have off: "phys AND NOT PAGE_MASK = phys AND mask 12" by (simp add: mask_consts(3))
    have "unat phys mod 4096 + k < unat sz'"
      unfolding sz'_def by (rule aligned_covers [OF nz assms(3) k])
    then have "unat (phys AND NOT PAGE_MASK) + k < unat sz'" by (simp add: off unat_and_mask)
    moreover have "0xc0000000 \<le> unat addr" "unat addr + unat sz' \<le> 2 ^ 32"
      using assms(1) a(1) by (auto simp: vm_env_ok_def)
    moreover have "(phys AND PAGE_MASK) + (phys AND NOT PAGE_MASK) = phys"
      unfolding off unfolding mask_consts(3) by (rule and_mask_split)
    ultimately show ?thesis
      using translate_area [of addr sz' "phys AND NOT PAGE_MASK" k "phys AND PAGE_MASK" areas] a(2,3) by simp
  qed
qed

definition mips_env :: vm_env where
  "mips_env = \<lparr>page_reserved = (\<lambda>_. False), high_memory = 0x88000000,
     get_vm_area = (\<lambda>sz. if unat sz \<le> 0x1000000 then Some 0xc0001000 else None),
     remap_area_pages = (\<lambda>_ _ _. True)\<rparr>"

lemma mips_env_ok: "vm_env_ok mips_env"
  by (auto simp: vm_env_ok_def mips_env_def split: if_splits)

theorem ioremap_translates_witness:
  "\<exists>r areas. ioremap mips_env True 0x20000ffe 0x10 [] = (Some r, areas) \<and>
     translate areas (r + of_nat 7) = Some 0x20001005"
proof -
  have run: "ioremap mips_env True 0x20000ffe 0x10 [] = (Some 0xc0001ffe,
      [\<lparr>area_addr = 0xc0001000, area_phys = 0x20000000, area_size = 0x2000\<rparr>])"
    by (simp add: ioremap_def ioremap_mode_const ioremap_pages_def fixup_bigphys_addr_def
        IS_LOW512_iff mips_env_def virt_to_phys_def phys_of_def PAGE_OFFSET_def CAC_BASE_def
        PHYS_OFFSET_def PAGE_MASK_def PAGE_SHIFT_def PAGE_ALIGN_def ALIGN_MASK_def PAGE_SIZE_def)
  from ioremap_translates [OF mips_env_ok this, THEN spec, of 7]
  have reach: "translate [\<lparr>area_addr = 0xc0001000, area_phys = 0x20000000, area_size = 0x2000\<rparr>]
      (0xc0001ffe + of_nat 7) = Some (0x20000ffe + of_nat 7)" by simp
  show ?thesis
  proof (intro exI conjI)
    show "translate [\<lparr>area_addr = 0xc0001000, area_phys = 0x20000000, area_size = 0x2000\<rparr>]
      (0xc0001ffe + of_nat 7) = Some 0x20001005" using reach by simp
  qed (rule run)
qed

text \<open>C25 (equivalence). The shortcut for arguments the compiler knows never changes the answer:
  \<open>ioremap\<close> gives the same address and the same mappings with and without it, for every address,
  size and cache attribute.\<close>

theorem ioremap_constant_path:
  "ioremap_mode env True offset sz flags areas = ioremap_mode env False offset sz flags areas"
  by (simp add: ioremap_mode_const)

lemma reserved_loop_iff:
  "reserved_loop res p l \<longleftrightarrow> (\<forall>q. p \<le> q \<and> q \<le> l \<longrightarrow> res (of_nat q))"
proof (induction res p l rule: reserved_loop.induct)
  case (1 res p l)
  show ?case
  proof (cases "p \<le> l \<and> res (of_nat p)")
    case True
    have "(\<forall>q. p \<le> q \<and> q \<le> l \<longrightarrow> res (of_nat q)) \<longleftrightarrow> (\<forall>q. p + 1 \<le> q \<and> q \<le> l \<longrightarrow> res (of_nat q))"
      using True by (metis Suc_eq_plus1 le_antisym not_less_eq_eq Suc_leD)
    then show ?thesis using 1 True by (subst reserved_loop.simps) simp
  next
    case False
    then show ?thesis by (subst reserved_loop.simps) auto
  qed
qed

text \<open>Further (safety). A request of size 0, or one that wraps round, is refused; so is any request
  outside the uncached window that touches ordinary memory in use: one that starts below the end of
  memory and has an unreserved page anywhere between its first and its last byte.  A refused request
  sets no mapping up.\<close>

theorem ioremap_refuses:
  "(sz = 0 \<or> phys + sz - 1 < phys \<longrightarrow> ioremap env const phys sz areas = (None, areas)) \<and>
   (\<not> IS_LOW512 (phys + sz - 1) \<and> phys < virt_to_phys (high_memory env) \<and>
      (\<exists>q. unat (PFN_DOWN phys) \<le> q \<and> q \<le> unat (PFN_DOWN (phys + sz - 1)) \<and> \<not> page_reserved env (of_nat q)) \<longrightarrow>
      ioremap env const phys sz areas = (None, areas)) \<and>
   (fst (ioremap env const phys sz areas) = None \<longrightarrow> snd (ioremap env const phys sz areas) = areas)"
proof (intro conjI impI)
  assume "sz = 0 \<or> phys + sz - 1 < phys"
  then show "ioremap env const phys sz areas = (None, areas)"
    by (simp add: ioremap_def ioremap_mode_const ioremap_pages_def fixup_bigphys_addr_def Let_def)
next
  assume a: "\<not> IS_LOW512 (phys + sz - 1) \<and> phys < virt_to_phys (high_memory env) \<and>
      (\<exists>q. unat (PFN_DOWN phys) \<le> q \<and> q \<le> unat (PFN_DOWN (phys + sz - 1)) \<and> \<not> page_reserved env (of_nat q))"
  have pages: "virt_to_page (virt_of phys) = PFN_DOWN phys"
    "virt_to_page (virt_of phys + (sz - 1)) = PFN_DOWN (phys + sz - 1)"
    by (simp_all add: virt_to_page_def virt_to_phys_def phys_of_def virt_of_def algebra_simps)
  have "\<not> reserved_loop (page_reserved env) (unat (PFN_DOWN phys)) (unat (PFN_DOWN (phys + sz - 1)))"
    using a by (auto simp: reserved_loop_iff)
  then show "ioremap env const phys sz areas = (None, areas)"
    using a by (simp add: ioremap_def ioremap_mode_const ioremap_pages_def fixup_bigphys_addr_def Let_def pages)
next
  assume "fst (ioremap env const phys sz areas) = None"
  then show "snd (ioremap env const phys sz areas) = areas"
    by (auto simp: ioremap_def ioremap_mode_const ioremap_pages_def fixup_bigphys_addr_def Let_def
        split: if_splits option.splits)
qed

theorem ioremap_refuses_witness:
  "ioremap mips_env False 0x07ff0000 0x20000000 [] = (None, [])"
proof -
  have "\<not> IS_LOW512 (0x07ff0000 + 0x20000000 - 1)" "0x07ff0000 < virt_to_phys (high_memory mips_env)"
    "unat (PFN_DOWN 0x07ff0000) \<le> 0x7ff0" "0x7ff0 \<le> unat (PFN_DOWN (0x07ff0000 + 0x20000000 - 1))"
    "\<not> page_reserved mips_env (of_nat 0x7ff0)"
    by (simp_all add: IS_LOW512_iff mips_env_def virt_to_phys_def phys_of_def PAGE_OFFSET_def
        CAC_BASE_def PHYS_OFFSET_def PFN_DOWN_def PAGE_SHIFT_def)
  then show ?thesis using ioremap_refuses [of "0x20000000" "0x07ff0000" mips_env False "[]"] by blast
qed

end
