(* ===== verification/Spec2Isabelle.thy ===== *)
theory Spec2Isabelle
  imports Leds Scull_Concurrent Watchdog_Platform Watchdog_Timing Rtc_Stack Rtc_Platform Keys Adc_Readers Key_Echo Device_Nodes Small_Modules Completion Mmap Version Filp_Open Ioremap
begin

text \<open>
  A verification library for a collection of device drivers and their test programs: Linux 2.6.32
  drivers for the mini2440 board (an S3C2440, 32-bit ARM), two FreeBSD modules, a MIPS coprocessor
  driver and a study of MIPS \<open>ioremap\<close>.  Every driver is a unit of its own: it keeps static state,
  is entered by the kernel (load, unload, file operations, interrupts, power events), and is used by
  at most one program of the repository.  The library therefore has one theory for each driver
  together with its client, over a common model of what the kernel offers.

  \<^enum> Foundations
    \<^item> \<open>Prelude\<close>: machine integers (\<open>u8\<close>, \<open>u32\<close>, \<open>s32\<close>, \<open>s64\<close>), error codes, the outcomes C leaves
      undefined (\<open>fault\<close>), sequencing, bounded array access, C division, masks.
    \<^item> \<open>Step_Systems\<close>: the interfaces.  \<open>machine\<close> (operations that keep an invariant),
      \<open>exclusive_device\<close> (one holder at a time), \<open>refined_machine\<close> (simulation of an abstract
      machine), with the lemmas about whole runs.
    \<^item> \<open>Kernel_Api\<close>: registers (\<open>register_bank\<close>, 8 and 32 bits wide), GPIO pins, semaphores, copies to
      and from user memory, and the ledger of resources a module holds (\<open>resource_ledger\<close>).
    \<^item> \<open>Platform\<close>: the platform bus.  The table of a driver's entry points, the documented order in
      which the kernel calls them (\<open>lifecycle\<close>), and what a driver owes the bus
      (\<open>platform_contract\<close>: its accounts of resources balance over every life).
    \<^item> \<open>User_Threads\<close>: programs as trees of calls, run alone and interleaved, with the discipline
      \<open>proper\<close> that mutex and descriptor are used by.

  \<^enum> Components (files under \<open>src/\<close>)
    \<^item> \<open>Leds\<close>: \<open>led/driver/leds.c\<close>, \<open>led/app/unit-test.c\<close>.
    \<^item> \<open>Scull\<close>: \<open>scull3/driver/scull3.c\<close>.  The list of quantum sets is a list of nodes, pointers to
      quanta are options, the semaphore is its count; the abstract device is a byte store.
      \<open>Scull_Concurrent\<close>: a transfer split at its copy, any number of processes interleaved, against the
      same calls one after the other; what a write-only open does in between.
    \<^item> \<open>Watchdog\<close>: \<open>watchdog/driver/watchdog.c\<close>.  Registers, the open lock, the magic character, and
      the ledger through \<open>watchdog_probe\<close> and its error exits.  \<open>Watchdog_Platform\<close>: the driver's
      table, load and unload, and its life on the bus; \<open>Watchdog_Timing\<close>: when the timer fires.
    \<^item> \<open>Rtc\<close>: \<open>rtc/driver/rtc.c\<close>.  The 8-bit registers; reading the time takes the bank at each read.
      \<open>Rtc_Platform\<close>: the driver's two tables, load and unload, and its life on the bus and in the
      RTC class.
    \<^item> \<open>Rtc_Unit_Test\<close>: \<open>rtc/app/rtc_unit_test.c\<close>, each test a program tree, ten threads;
      \<open>Rtc_Stack\<close>: that program on that driver.
    \<^item> \<open>Keys\<close>: \<open>key/driver/keys.c\<close>, \<open>key/app/unit-test.c\<close>, with the interrupt between any two steps.
    \<^item> \<open>Adc\<close>: \<open>adc/driver/adc.c\<close>, \<open>adc/app/adc-unit-test.c\<close>; \<open>Adc_Readers\<close>: \<open>adc_read\<close> statement by
      statement, any number of readers, conversions and signals interleaved.
    \<^item> \<open>Pwm\<close>: \<open>pwm/driver/pwm.c\<close>; \<open>Terminal\<close>: the \<open>getkey\<close> of both programs under \<open>pwm/app\<close>; \<open>Buzzer\<close>:
      \<open>pwm/app/unit-test.c\<close> on driver and terminal; \<open>Key_Echo\<close>: \<open>pwm/app/test.c\<close>.
    \<^item> \<open>Device_Nodes\<close>: the \<open>miscdevice\<close> and \<open>file_operations\<close> tables of all drivers, and the paths and
      calls of the clients.
    \<^item> \<open>Echo\<close>: \<open>echo/echo.c\<close>; \<open>Completion\<close>: \<open>completion/driver/completion_test.c\<close> and
      \<open>completion/app/completion_app_test.c\<close>; \<open>Mmap\<close>: \<open>mmap/driver/mmap_test.c\<close> and
      \<open>mmap/app/mmap_unit_test.c\<close>.
    \<^item> \<open>Version\<close>: \<open>sysfs/version/driver/version.c\<close>; \<open>Filp_Open\<close>: \<open>fs/filp_open/filp_open_test.c\<close>;
      \<open>Ioremap\<close>: \<open>ioremap/driver/ioreamp.c\<close>; \<open>Small_Modules\<close>: \<open>coprocessor/cp0/cp0.c\<close>,
      \<open>skeleton/skeleton.c\<close>, \<open>hello/driver/hello.c\<close>.

  \<^enum> Conventions.  A definition has the name of the C function, variable or macro it translates,
    state is passed and returned, a result \<open>Inl e\<close> is \<open>-e\<close> in C.  What code outside the repository
    answers (whether memory can be had, a region reserved, a page copied, an interrupt line
    granted) is an argument, so that a theorem holds for all answers.  Constants and routines of
    headers that are not in the repository are parameters: a record such as \<open>rtc_hdr\<close>, with a
    predicate such as \<open>rtc_hdr_ok\<close> that states the documented values and laws, and a concrete
    instance that shows the predicate can hold and on which the definitions can be run.  Values that
    C leaves uninitialised are arguments, too (\<open>junk\<close>).

  \<^enum> What is shown
    \<^item> Functional correctness: the period the PWM driver programs, the text the converter driver
      returns, the heartbeat arithmetic of the watchdog in its working range and the time until it
      fires, the addresses that
      \<open>ioremap\<close> returns, the time the clock driver reads, the file the file module prints.
    \<^item> Refinement: a scull device is a byte store, on which a write is refused or changes exactly the
      bytes it reports, the echo device a byte string, the completion device a queue of messages.
    \<^item> Invariants and safety over all sequences or interleavings of operations: no key event is lost,
      locks and semaphores are balanced, the watchdog with \<open>nowayout\<close> runs through every use, sleep
      and attempt to unload it, concurrent readers of the converter get their own values, concurrent transfers of a scull
      device answer as the same calls one by one, the threads of
      the clock's test open the device one at a time, fit their discipline at every state, and can
      always go on to the end.
    \<^item> Resources: for every answer of the kernel, what probing, loading and opening leave held, and
      for the two platform drivers the account over their whole life, with the exact leak.
    \<^item> Faults of the code, as theorems about what it does: the array bound of the LED driver, the
      walk of \<open>scull_follow\<close>, the alarm minute, the prescaler of long heartbeats, the tick rate, the
      event that a signal leaves behind in the converter, the scull device on which nothing can ever be
      stored, the node the buzzer's client asks for, the unchecked sizes of the completion and mmap
      drivers.  Two faults the rest of their modules hides are shown as lemmas: the memory that a scull
      open would free under a transfer of a device with data, and the clean-up loop of the version
      module, which would remove only the first of several files.

  \<^enum> Loops and fuel.  Loops over lists and arrays are structural.  The divisor search of the watchdog
    and the page loop of \<open>ioremap\<close> are functions with a measure.  So is the clean-up loop of
    \<open>Version\<close>, whose counter is a 32-bit \<open>int\<close> that wraps round.  The read loop of \<open>Filp_Open\<close> may run for
    ever: it takes fuel, and spending it is the value \<open>Diverges\<close>; it is shown that one more than the
    length of the file is enough.  The loops of the clients that wait for input run over the list
    of the inputs.

  \<^enum> Not modelled.  Texts printed to the kernel log, and by a program unless they are its result;
    module parameters' parsing; numeric header constants that the code defines and does not use,
    forward declarations and module licence marks, which do nothing; the time an operation takes;
    caches and memory order.
    The kernel's own routines, the platform bus, the RTC class, the FreeBSD kernel and the hardware
    appear as parameters with their documented behaviour only.  Of the life of a device the bus's
    order of calls is assumed: a driver is not removed while a file is open on it.
\<close>

end
